(* ===== verification/Prelude.thy ===== *)
theory Prelude
  imports Main "HOL-Library.Word" "HOL-Library.FSet" "HOL-Library.Char_ord"
    "HOL-Library.List_Lexorder" "HOL-Library.Multiset"
begin

text \<open>
  Shared vocabulary of the development: Go's error values, the sequential
  "call, look at err, go on" style of the Go sources as a small state-and-error
  monad with its reasoning rules, and the few functions of Go's \<open>strings\<close>,
  \<open>strconv\<close> and \<open>fmt\<close> packages that the sources use on byte strings.

  A computation \<open>('s, 'a) io\<close> maps a state to an outcome and the state it leaves
  behind. The state survives an error: a Go function that fails half way has
  already done the first half of its work.
\<close>

section \<open>Fact collections\<close>

named_theorems io_def \<open>unfolding of the monad's operations\<close>
named_theorems io_inv \<open>inversion: how a composed computation ended the way it did\<close>
named_theorems go_str \<open>the string functions of the Go library\<close>

section \<open>Errors\<close>

text \<open>
  \<open>errors.New\<close> values that code compares against are constructors of their own:
  \<open>ErrIPFamilyMismatch\<close> and \<open>ErrNoIPProvided\<close> are those of package \<open>tunnel\<close>,
  \<open>NatErrIPFamilyMismatch\<close> is the distinct value of package \<open>nat\<close>. Errors that
  come from a library are \<open>LinkNotFoundError\<close> (netlink), \<open>ApiNotFound\<close>
  (the API server's NotFound status) or an opaque \<open>LibErr\<close>. \<open>Errorf\<close> is
  \<open>fmt.Errorf\<close> or \<open>errors.New\<close> with that text, \<open>Errorw\<close> is \<open>fmt.Errorf\<close>
  with a wrapped error. Arguments that only fill in the message are left out.
  \<open>StatusErr\<close> is a gRPC status: its code, its message and its details, of which
  those that are a \<open>CNIError\<close> (\<open>pkg/cnirpc\<close>) show their fields and all others are None.
\<close>

datatype grpc_code = Unknown | NotFound | FailedPrecondition | Internal | OtherCode int

record cni_error =
  ce_Code :: int
  ce_Msg :: string
  ce_Details :: string

datatype err =
    ErrIPFamilyMismatch
  | ErrNoIPProvided
  | NatErrIPFamilyMismatch
  | LinkNotFoundError
  | ApiNotFound
  | LibErr string
  | Errorf string
  | Errorw string err
  | StatusErr grpc_code string "cni_error option list"

text \<open>\<open>errors.Is\<close> and \<open>errors.As\<close> follow the chain of wrapped errors.\<close>

fun errors_Is :: "err \<Rightarrow> err \<Rightarrow> bool" where
  "errors_Is (Errorw m e) t = (Errorw m e = t \<or> errors_Is e t)"
| "errors_Is e t = (e = t)"

fun errors_As_LinkNotFound :: "err \<Rightarrow> bool" where
  "errors_As_LinkNotFound (Errorw m e) = errors_As_LinkNotFound e"
| "errors_As_LinkNotFound e = (e = LinkNotFoundError)"

fun IsNotFound :: "err \<Rightarrow> bool" where
  "IsNotFound (Errorw m e) = IsNotFound e"
| "IsNotFound e = (e = ApiNotFound)"

lemma errors_Is_refl [simp]: "errors_Is e e"
  by (cases e) auto

section \<open>Computations\<close>

type_synonym ('s, 'a) io = "'s \<Rightarrow> (err + 'a) \<times> 's"

definition ret :: "'a \<Rightarrow> ('s, 'a) io" where
  "ret x s = (Inr x, s)"

definition throw :: "err \<Rightarrow> ('s, 'a) io" where
  "throw e s = (Inl e, s)"

definition bind_io :: "('s, 'a) io \<Rightarrow> ('a \<Rightarrow> ('s, 'b) io) \<Rightarrow> ('s, 'b) io" where
  "bind_io m f s = (case m s of (Inl e, t) \<Rightarrow> (Inl e, t) | (Inr x, t) \<Rightarrow> f x t)"

text \<open>\<open>if err != nil { return g(err) }\<close>: the error on its way out is rewritten.\<close>

definition on_err :: "(err \<Rightarrow> err) \<Rightarrow> ('s, 'a) io \<Rightarrow> ('s, 'a) io" where
  "on_err g m s = (case m s of (Inl e, t) \<Rightarrow> (Inl (g e), t) | (Inr x, t) \<Rightarrow> (Inr x, t))"

text \<open>The outcome of a call handed to code that looks at the error itself.\<close>

definition catch :: "('s, 'a) io \<Rightarrow> (err + 'a \<Rightarrow> ('s, 'b) io) \<Rightarrow> ('s, 'b) io" where
  "catch m f s = (case m s of (r, t) \<Rightarrow> f r t)"

text \<open>\<open>for _, x := range xs\<close> with a body that may return an error.\<close>

fun for_each :: "('a \<Rightarrow> ('s, unit) io) \<Rightarrow> 'a list \<Rightarrow> ('s, unit) io" where
  "for_each f [] = ret ()"
| "for_each f (x # xs) = bind_io (f x) (\<lambda>_. for_each f xs)"

text \<open>\<open>defer\<close>: the deferred call runs whatever the body returned; its own error is not looked at.\<close>

definition with_defer :: "('s, unit) io \<Rightarrow> ('s, 'a) io \<Rightarrow> ('s, 'a) io" where
  "with_defer d m s = (case m s of (q, t) \<Rightarrow> (q, snd (d t)))"

text \<open>A computation on one part of a larger state.\<close>

definition lift_io :: "('t \<Rightarrow> 's) \<Rightarrow> ('s \<Rightarrow> 't \<Rightarrow> 't) \<Rightarrow> ('s, 'a) io \<Rightarrow> ('t, 'a) io" where
  "lift_io get put m t = (case m (get t) of (r, s) \<Rightarrow> (r, put s t))"

lemmas [io_def] = ret_def throw_def bind_io_def on_err_def catch_def lift_io_def

subsection \<open>Inversion rules\<close>

lemma ret_eq [simp, io_inv]: "ret x s = (r, t) \<longleftrightarrow> r = Inr x \<and> t = s"
  by (auto simp: ret_def)

lemma throw_eq [simp, io_inv]: "throw e s = (r, t) \<longleftrightarrow> r = Inl e \<and> t = s"
  by (auto simp: throw_def)

lemma bind_io_Inr [io_inv]:
  "bind_io m f s = (Inr y, u) \<longleftrightarrow> (\<exists>x t. m s = (Inr x, t) \<and> f x t = (Inr y, u))"
  by (auto simp: bind_io_def split: prod.splits sum.splits)

lemma bind_io_Inl [io_inv]:
  "bind_io m f s = (Inl e, u) \<longleftrightarrow>
     m s = (Inl e, u) \<or> (\<exists>x t. m s = (Inr x, t) \<and> f x t = (Inl e, u))"
  by (auto simp: bind_io_def split: prod.splits sum.splits)

lemma on_err_Inr [io_inv]: "on_err g m s = (Inr x, t) \<longleftrightarrow> m s = (Inr x, t)"
  by (auto simp: on_err_def split: prod.splits sum.splits)

lemma on_err_Inl [io_inv]: "on_err g m s = (Inl e, t) \<longleftrightarrow> (\<exists>e'. m s = (Inl e', t) \<and> e = g e')"
  by (auto simp: on_err_def split: prod.splits sum.splits)

lemma catch_eq: "catch m f s = (r, u) \<longleftrightarrow> (\<exists>q t. m s = (q, t) \<and> f q t = (r, u))"
  by (auto simp: catch_def split: prod.splits)

lemma catch_cases [io_inv]:
  "catch m f s = (r, u) \<longleftrightarrow>
     (\<exists>e t. m s = (Inl e, t) \<and> f (Inl e) t = (r, u)) \<or> (\<exists>x t. m s = (Inr x, t) \<and> f (Inr x) t = (r, u))"
  by (auto simp: catch_def split: prod.splits) (metis sum.exhaust)

lemma lift_io_eq [io_inv]:
  "lift_io get put m t = (r, u) \<longleftrightarrow> (\<exists>s. m (get t) = (r, s) \<and> u = put s t)"
  by (auto simp: lift_io_def split: prod.splits)

lemma bind_io_state:
  assumes "bind_io m f s = (r, u)"
  obtains (err) e where "m s = (Inl e, u)" "r = Inl e"
    | (ok) x t where "m s = (Inr x, t)" "f x t = (r, u)"
  using assms by (auto simp: bind_io_def split: prod.splits sum.splits)

lemma on_err_state:
  assumes "on_err g m s = (r, u)"
  obtains (err) e where "m s = (Inl e, u)" "r = Inl (g e)"
    | (ok) x where "m s = (Inr x, u)" "r = Inr x"
  using assms by (auto simp: on_err_def split: prod.splits sum.splits)

lemma on_err_run: "on_err g m s = (r, t) \<Longrightarrow> \<exists>z. m s = (z, t)"
  by (auto elim: on_err_state)

subsection \<open>Invariants of computations\<close>

text \<open>
  \<open>keeps I m\<close>: whatever \<open>m\<close> returns, \<open>I\<close> holds in the state it leaves if it held
  before. The rules follow the shape of the program text.
\<close>

definition keeps :: "('s \<Rightarrow> bool) \<Rightarrow> ('s, 'a) io \<Rightarrow> bool" where
  "keeps I m \<longleftrightarrow> (\<forall>s r t. I s \<longrightarrow> m s = (r, t) \<longrightarrow> I t)"

lemma keepsI [intro?]: "(\<And>s r t. I s \<Longrightarrow> m s = (r, t) \<Longrightarrow> I t) \<Longrightarrow> keeps I m"
  by (auto simp: keeps_def)

lemma keepsD: "keeps I m \<Longrightarrow> m s = (r, t) \<Longrightarrow> I s \<Longrightarrow> I t"
  by (auto simp: keeps_def)

lemma keeps_ret [simp, intro]: "keeps I (ret x)"
  by (auto simp: keeps_def)

lemma keeps_throw [simp, intro]: "keeps I (throw e)"
  by (auto simp: keeps_def)

lemma keeps_bind [intro]: "keeps I m \<Longrightarrow> (\<And>x. keeps I (f x)) \<Longrightarrow> keeps I (bind_io m f)"
  by (rule keepsI) (auto elim!: bind_io_state dest: keepsD)

lemma keeps_on_err [intro]: "keeps I m \<Longrightarrow> keeps I (on_err g m)"
  by (rule keepsI) (auto elim!: on_err_state dest: keepsD)

lemma keeps_catch [intro]: "keeps I m \<Longrightarrow> (\<And>r. keeps I (f r)) \<Longrightarrow> keeps I (catch m f)"
  by (rule keepsI) (auto simp: catch_eq dest: keepsD)

lemma keeps_for_each [intro]: "(\<And>x. x \<in> set xs \<Longrightarrow> keeps I (f x)) \<Longrightarrow> keeps I (for_each f xs)"
  by (induction xs) auto

lemma keeps_if [intro]: "(b \<Longrightarrow> keeps I m) \<Longrightarrow> (\<not> b \<Longrightarrow> keeps I n) \<Longrightarrow> keeps I (if b then m else n)"
  by simp

subsection \<open>Loops\<close>

lemma for_each_append:
  "for_each f (xs @ ys) s = bind_io (for_each f xs) (\<lambda>_. for_each f ys) s"
proof (induction xs arbitrary: s)
  case Nil
  show ?case by (simp add: bind_io_def ret_def)
next
  case (Cons x xs)
  show ?case by (auto simp: bind_io_def Cons split: prod.splits sum.splits)
qed

text \<open>
  A loop that ran to its end: a property \<open>P done state\<close> of the elements already
  visited and the state, kept by every successful round.
\<close>

lemma for_each_done:
  assumes "for_each f xs s = (Inr u, t)" and "P [] s"
    and "\<And>ys x zs s v t. xs = ys @ x # zs \<Longrightarrow> P ys s \<Longrightarrow> f x s = (Inr v, t) \<Longrightarrow> P (ys @ [x]) t"
  shows "P xs t"
proof -
  have "for_each f zs s' = (Inr u, t) \<Longrightarrow> P ys s' \<Longrightarrow> xs = ys @ zs \<Longrightarrow> P xs t" for ys zs s'
  proof (induction zs arbitrary: ys s')
    case Nil
    then show ?case by simp
  next
    case (Cons z zs)
    from Cons.prems(1) obtain v w where z: "f z s' = (Inr v, w)" and rest: "for_each f zs w = (Inr u, t)"
      by (auto simp: bind_io_Inr)
    from assms(3)[OF _ Cons.prems(2) z, of zs] Cons.prems(3) have "P (ys @ [z]) w" by simp
    from Cons.IH[OF rest this] Cons.prems(3) show ?case by simp
  qed
  from this[of xs s "[]"] assms(1,2) show ?thesis by simp
qed

lemma for_each_first:
  assumes "for_each f xs s = (Inr u, t)" "x \<in> set xs"
  obtains ys zs v s1 s2 where "xs = ys @ x # zs" "for_each f ys s = (Inr (), s1)" "f x s1 = (Inr v, s2)"
    "for_each f zs s2 = (Inr (), t)"
proof -
  from assms(2) obtain ys zs where xs: "xs = ys @ x # zs" by (meson split_list)
  with assms(1) show thesis by (auto simp: for_each_append bind_io_Inr intro!: that)
qed

section \<open>Effects of calls\<close>

text \<open>
  \<open>meets good view m S F\<close>: from a good state, \<open>m\<close> leaves a good state, \<open>S x\<close> relates
  the views before and after when it returns \<open>x\<close>, \<open>F e\<close> when it fails with \<open>e\<close>.
\<close>

definition meets ::
  "('k \<Rightarrow> bool) \<Rightarrow> ('k \<Rightarrow> 'v) \<Rightarrow> ('k, 'a) io \<Rightarrow>
   ('a \<Rightarrow> 'v \<Rightarrow> 'v \<Rightarrow> bool) \<Rightarrow> (err \<Rightarrow> 'v \<Rightarrow> 'v \<Rightarrow> bool) \<Rightarrow> bool" where
  "meets good view m S F \<longleftrightarrow>
     (\<forall>k r k'. good k \<longrightarrow> m k = (r, k') \<longrightarrow>
        good k' \<and> (case r of Inr x \<Rightarrow> S x (view k) (view k') | Inl e \<Rightarrow> F e (view k) (view k')))"

lemma meetsI:
  assumes "\<And>k x k'. good k \<Longrightarrow> m k = (Inr x, k') \<Longrightarrow> good k' \<and> S x (view k) (view k')"
    and "\<And>k e k'. good k \<Longrightarrow> m k = (Inl e, k') \<Longrightarrow> good k' \<and> F e (view k) (view k')"
  shows "meets good view m S F"
  unfolding meets_def
proof (intro allI impI)
  fix k r k'
  assume g: "good k" and m: "m k = (r, k')"
  show "good k' \<and> (case r of Inr x \<Rightarrow> S x (view k) (view k') | Inl e \<Rightarrow> F e (view k) (view k'))"
  proof (cases r)
    case (Inl e)
    with assms(2)[OF g m[unfolded Inl]] show ?thesis by simp
  next
    case (Inr x)
    with assms(1)[OF g m[unfolded Inr]] show ?thesis by simp
  qed
qed

lemma meets_run:
  assumes "meets good view m S F" "m k = (r, k')" "good k"
  shows "good k' \<and> (case r of Inr x \<Rightarrow> S x (view k) (view k') | Inl e \<Rightarrow> F e (view k) (view k'))"
  using assms unfolding meets_def by blast

lemma meets_Inr: "meets good view m S F \<Longrightarrow> m k = (Inr x, k') \<Longrightarrow> good k \<Longrightarrow> good k' \<and> S x (view k) (view k')"
  by (drule (2) meets_run) simp

lemma meets_Inl: "meets good view m S F \<Longrightarrow> m k = (Inl e, k') \<Longrightarrow> good k \<Longrightarrow> good k' \<and> F e (view k) (view k')"
  by (drule (2) meets_run) simp

lemma meets_keeps: "meets good view m S F \<Longrightarrow> keeps good m"
  unfolding meets_def keeps_def by blast

section \<open>Object names\<close>

record nsname =
  nn_Namespace :: string
  nn_Name :: string

lemma run_pair: "fst p = x \<Longrightarrow> p = (x, snd p)"
  by (cases p) simp

section \<open>Strings\<close>

definition HasPrefix :: "string \<Rightarrow> string \<Rightarrow> bool" where
  "HasPrefix s p \<longleftrightarrow> take (length p) s = p"

lemma HasPrefix_iff: "HasPrefix s p \<longleftrightarrow> (\<exists>r. s = p @ r)"
  by (auto simp: HasPrefix_def) (metis append_take_drop_id)

text \<open>\<open>strings.Split(s, sep)\<close> for a separator of one byte.\<close>

fun Split :: "string \<Rightarrow> char \<Rightarrow> string list" where
  "Split [] c = [[]]"
| "Split (x # xs) c =
     (if x = c then [] # Split xs c
      else (case Split xs c of [] \<Rightarrow> [[x]] | y # ys \<Rightarrow> (x # y) # ys))"

lemma Split_not_Nil [simp, go_str]: "Split s c \<noteq> []"
  by (induction s) (auto split: list.splits)

lemma Split_single [go_str]: "c \<notin> set s \<Longrightarrow> Split s c = [s]"
  by (induction s) auto

lemma Split_no_sep [go_str]: "y \<in> set (Split s c) \<Longrightarrow> c \<notin> set y"
  by (induction s arbitrary: y) (auto split: list.splits if_splits)

text \<open>\<open>strconv.Itoa\<close>: the decimal digits, with a minus sign for a negative number.\<close>

fun nat_digits :: "nat \<Rightarrow> string" where
  "nat_digits n = (if n < 10 then [char_of (48 + n)] else nat_digits (n div 10) @ [char_of (48 + n mod 10)])"

declare nat_digits.simps [simp del]

definition Itoa :: "int \<Rightarrow> string" where
  "Itoa i = (if i < 0 then CHR ''-'' # nat_digits (nat (- i)) else nat_digits (nat i))"

text \<open>The same digits computed on \<open>int\<close>, for evaluation.\<close>

function dec_digits :: "int \<Rightarrow> string" where
  "dec_digits i = (if i < 10 then [char_of (48 + i)] else dec_digits (i div 10) @ [char_of (48 + i mod 10)])"
  by auto
termination by (relation "measure nat") auto

declare dec_digits.simps [simp del]

lemma char_of_int: "char_of (int n) = char_of n"
  by simp

lemma nat_digits_dec: "nat_digits n = dec_digits (int n)"
proof (induction n rule: nat_digits.induct)
  case (1 n)
  have c: "char_of (48 + int m) = char_of (48 + m)" for m
    using char_of_int[of "48 + m"] by simp
  show ?case
    using 1 c[of n] c[of "n mod 10"] by (simp add: nat_digits.simps[of n] dec_digits.simps[of "int n"] zdiv_int zmod_int)
qed

lemma Itoa_code [code]: "Itoa i = (if i < 0 then CHR ''-'' # dec_digits (- i) else dec_digits i)"
  by (simp add: Itoa_def nat_digits_dec)

text \<open>The verb \<open>%x\<close> on a byte array: two lower-case digits per byte.\<close>

type_synonym byte = "8 word"

definition hex_digit :: "nat \<Rightarrow> char" where
  "hex_digit n = (if n < 10 then char_of (48 + n) else char_of (87 + n))"

definition hex_byte :: "byte \<Rightarrow> string" where
  "hex_byte b = [hex_digit (unat b div 16), hex_digit (unat b mod 16)]"

definition hex_bytes :: "byte list \<Rightarrow> string" where
  "hex_bytes bs = concat (map hex_byte bs)"

lemma hex_digit_inject: "i < 16 \<Longrightarrow> j < 16 \<Longrightarrow> hex_digit i = hex_digit j \<longleftrightarrow> i = j"
proof -
  assume "i < 16" "j < 16"
  then have i: "i \<in> set [0..<16]" and j: "j \<in> set [0..<16]" by auto
  have "\<forall>i\<in>set [0..<16]. \<forall>j\<in>set [0..<16]. (hex_digit i = hex_digit j) = (i = j)"
    by code_simp
  with i j show ?thesis by blast
qed

lemma unat_byte_less [simp]: "unat (b :: byte) < 256"
proof -
  have "unat b < 2 ^ LENGTH(8)" by (rule unsigned_less)
  then show ?thesis by simp
qed

lemma hex_byte_inject [simp]: "hex_byte a = hex_byte b \<longleftrightarrow> a = b"
proof
  assume h: "hex_byte a = hex_byte b"
  have "unat a div 16 < 16" "unat b div 16 < 16"
    using unat_byte_less[of a] unat_byte_less[of b] by (auto simp del: unat_byte_less)
  with h have "unat a div 16 = unat b div 16" "unat a mod 16 = unat b mod 16"
    by (auto simp: hex_byte_def hex_digit_inject)
  then have "unat a = unat b" by (metis div_mult_mod_eq)
  then show "a = b" by (simp add: word_unat_eq_iff)
qed simp

lemma length_hex_byte [simp]: "length (hex_byte b) = 2"
  by (simp add: hex_byte_def)

lemma length_hex_bytes [simp]: "length (hex_bytes bs) = 2 * length bs"
  by (induction bs) (auto simp: hex_bytes_def)

lemma hex_bytes_inject: "length as = length bs \<Longrightarrow> hex_bytes as = hex_bytes bs \<longleftrightarrow> as = bs"
  by (induction as bs rule: list_induct2) (auto simp: hex_bytes_def hex_byte_def[symmetric])

end
