(* ===== verification/EgressController.thy ===== *)
theory EgressController
  imports Prelude
begin

text \<open>
  The egress controller (\<open>internal/controller/egress_controller.go\<close>) and the API types
  it works on (\<open>api/v1beta1/egress_types.go\<close>): from an \<open>Egress\<close> it makes a service
  account, a cluster role and its binding, a deployment of gateway pods, a service
  and, when asked to, a disruption budget. Objects carry the fields that the sources
  read or write; the other fields of a pod spec or a container are one opaque value.
  The API client is the argument \<open>kb\<close>, a record of its calls over an unknown state;
  \<open>setref\<close> is \<open>ctrl.SetControllerReference\<close> and \<open>selstr\<close> the conversion of a label
  selector to a string.
\<close>

section \<open>Objects\<close>

type_synonym strmap = "string \<Rightarrow> string option"

record object_meta =
  om_Name :: string
  om_Namespace :: string
  om_Labels :: strmap
  om_CreationTimestamp :: "string option"
  om_DeletionTimestamp :: "string option"
  om_OwnerReferences :: "string list"

datatype int_or_string = IntVal int | StrVal string

datatype volume_source = EmptyDir | HostPath string | OtherVolume string

record volume =
  v_Name :: string
  v_Source :: volume_source

record volume_mount =
  vm_MountPath :: string
  vm_Name :: string
  vm_ReadOnly :: bool

datatype env_source = Value string | FieldRef string | OtherSource string

record env_var =
  ev_Name :: string
  ev_From :: env_source

record security_context =
  sc_Privileged :: bool
  sc_ReadOnlyRootFilesystem :: bool
  sc_AddCapabilities :: "string list"

record container_port =
  cp_Name :: string
  cp_Port :: int
  cp_Protocol :: string

record http_probe =
  hp_Path :: string
  hp_Port :: int_or_string
  hp_Scheme :: string

record container =
  c_Name :: string
  c_Image :: string
  c_Env :: "env_var list"
  c_VolumeMounts :: "volume_mount list"
  c_SecurityContext :: "security_context option"
  c_Requests :: strmap
  c_Ports :: "container_port list"
  c_LivenessProbe :: "http_probe option"
  c_ReadinessProbe :: "http_probe option"
  c_Rest :: string

definition zero_container :: container where
  "zero_container =
     \<lparr>c_Name = [], c_Image = [], c_Env = [], c_VolumeMounts = [], c_SecurityContext = None,
      c_Requests = (\<lambda>_. None), c_Ports = [], c_LivenessProbe = None, c_ReadinessProbe = None, c_Rest = []\<rparr>"

record pod_spec =
  ps_ServiceAccountName :: string
  ps_Volumes :: "volume list"
  ps_Containers :: "container list"
  ps_Rest :: string

definition zero_pod_spec :: pod_spec where
  "zero_pod_spec = \<lparr>ps_ServiceAccountName = [], ps_Volumes = [], ps_Containers = [], ps_Rest = []\<rparr>"

record pod_template =
  pt_Labels :: strmap
  pt_Annotations :: strmap
  pt_Spec :: pod_spec

record pdb_spec =
  pb_MinAvailable :: "int_or_string option"
  pb_MaxUnavailable :: "int_or_string option"

text \<open>\<open>EgressSpec\<close>, \<open>EgressPodTemplate\<close>, \<open>Metadata\<close>, \<open>EgressPDBSpec\<close>, \<open>EgressStatus\<close>.\<close>

record egress =
  eg_Meta :: object_meta
  eg_Destinations :: "string list"
  eg_Replicas :: int
  eg_Strategy :: "string option"
  eg_Template :: "pod_template option"
  eg_SessionAffinity :: string
  eg_SessionAffinityConfig :: "string option"
  eg_PodDisruptionBudget :: "pdb_spec option"
  eg_StatusReplicas :: int
  eg_StatusSelector :: string

abbreviation eg_Name :: "egress \<Rightarrow> string" where "eg_Name eg \<equiv> om_Name (eg_Meta eg)"

abbreviation eg_Namespace :: "egress \<Rightarrow> string" where "eg_Namespace eg \<equiv> om_Namespace (eg_Meta eg)"

definition eg_key :: "egress \<Rightarrow> nsname" where
  "eg_key eg = \<lparr>nn_Namespace = eg_Namespace eg, nn_Name = eg_Name eg\<rparr>"

record deployment =
  dep_Meta :: object_meta
  dep_Selector :: "strmap option"
  dep_Replicas :: "int option"
  dep_Strategy :: "string option"
  dep_Template :: pod_template
  dep_AvailableReplicas :: int

record service_port =
  sp_Port :: int
  sp_TargetPort :: int_or_string
  sp_Protocol :: string

record service =
  svc_Meta :: object_meta
  svc_Type :: string
  svc_Selector :: strmap
  svc_Ports :: "service_port list"
  svc_SessionAffinity :: string
  svc_SessionAffinityConfig :: "string option"
  svc_ClusterIP :: string

record pdb =
  pdb_Meta :: object_meta
  pdb_MinAvailable :: "int_or_string option"
  pdb_MaxUnavailable :: "int_or_string option"
  pdb_Selector :: "strmap option"

record policy_rule =
  pr_APIGroups :: "string list"
  pr_Resources :: "string list"
  pr_Verbs :: "string list"

record cluster_role =
  cr_Name :: string
  cr_Rules :: "policy_rule list"

record subject =
  sj_Kind :: string
  sj_Name :: string
  sj_Namespace :: string

record cluster_role_binding =
  crb_Name :: string
  crb_RoleRef :: "string \<times> string \<times> string"
  crb_Subjects :: "subject list"

section \<open>The pod template\<close>

definition appLabels :: "string \<Rightarrow> strmap" where
  "appLabels name =
     [''app.kubernetes.io/name'' \<mapsto> ''pona'', ''app.kubernetes.io/instance'' \<mapsto> name,
      ''app.kubernetes.io/component'' \<mapsto> ''egress'']"

definition egressServiceAccountName :: string where "egressServiceAccountName = ''egress''"

definition egressCRBName :: string where "egressCRBName = ''egress''"

definition egressCRName :: string where "egressCRName = ''egress''"

definition EnvAddresses :: string where "EnvAddresses = ''PONA_POD_ADDRESSES''"

definition EnvPodNamespace :: string where "EnvPodNamespace = ''PONA_POD_NAMESPACE''"

definition EnvEgressName :: string where "EnvEgressName = ''PONA_EGRESS_NAME''"

record reconciler =
  er_Port :: int
  er_DefaultImage :: string

definition addVolumes :: "volume list \<Rightarrow> volume list" where
  "addVolumes vols =
     (let vols = (if \<exists>vol\<in>set vols. v_Name vol = ''run'' then vols
                  else vols @ [\<lparr>v_Name = ''run'', v_Source = EmptyDir\<rparr>]) in
      vols @ [\<lparr>v_Name = ''modules'', v_Source = HostPath ''/lib/modules''\<rparr>])"

definition addVolumeMounts :: "volume_mount list \<Rightarrow> volume_mount list" where
  "addVolumeMounts mounts =
     (let mounts = (if \<exists>m\<in>set mounts. vm_Name m = ''run'' then mounts
                    else mounts @ [\<lparr>vm_MountPath = ''/run'', vm_Name = ''run'', vm_ReadOnly = False\<rparr>]) in
      mounts @ [\<lparr>vm_MountPath = ''/lib/modules'', vm_Name = ''modules'', vm_ReadOnly = True\<rparr>])"

text \<open>
  \<open>for i := range xs { if !P(xs[i]) { continue }; p = &xs[i] }\<close>: the pointer after the
  loop is the last element with \<open>P\<close>, or what it was before.
\<close>

definition last_index :: "('a \<Rightarrow> bool) \<Rightarrow> 'a list \<Rightarrow> nat option \<Rightarrow> nat option" where
  "last_index P xs p = fold (\<lambda>i acc. if P (xs ! i) then Some i else acc) [0..<length xs] p"

definition pick_container :: "container list \<Rightarrow> container list \<times> nat" where
  "pick_container cs =
     (let p = last_index (\<lambda>c. c_Name c = ''egress'') cs None;
          (cs, p) = (case p of None \<Rightarrow> (zero_container # cs, Some 0) | Some i \<Rightarrow> (cs, Some i));
          p = last_index (\<lambda>c. c_Name c \<noteq> ''egress'') cs p in
      case p of None \<Rightarrow> (zero_container # cs, 0) | Some i \<Rightarrow> (cs, i))"

definition egress_container :: "reconciler \<Rightarrow> egress \<Rightarrow> container \<Rightarrow> container" where
  "egress_container r eg c =
     c\<lparr>c_Name := ''egress'',
       c_Image := (if c_Image c = [] then er_DefaultImage r else c_Image c),
       c_Env := c_Env c @
         [\<lparr>ev_Name = EnvPodNamespace, ev_From = Value (eg_Namespace eg)\<rparr>,
          \<lparr>ev_Name = EnvEgressName, ev_From = Value (eg_Name eg)\<rparr>,
          \<lparr>ev_Name = EnvAddresses, ev_From = FieldRef ''status.podIPs''\<rparr>],
       c_VolumeMounts := addVolumeMounts (c_VolumeMounts c),
       c_SecurityContext := Some \<lparr>sc_Privileged = True, sc_ReadOnlyRootFilesystem = True, sc_AddCapabilities = [''NET_ADMIN'']\<rparr>,
       c_Requests := (\<lambda>k. case c_Requests c k of Some q \<Rightarrow> Some q
          | None \<Rightarrow> if k = ''cpu'' then Some ''100m'' else if k = ''memory'' then Some ''200Mi'' else None),
       c_Ports := [\<lparr>cp_Name = ''metrics'', cp_Port = 8080, cp_Protocol = ''TCP''\<rparr>,
                   \<lparr>cp_Name = ''health'', cp_Port = 8081, cp_Protocol = ''TCP''\<rparr>],
       c_LivenessProbe := Some \<lparr>hp_Path = ''/livez'', hp_Port = StrVal ''livez'', hp_Scheme = ''HTTP''\<rparr>,
       c_ReadinessProbe := Some \<lparr>hp_Path = ''/readyz'', hp_Port = StrVal ''health'', hp_Scheme = ''HTTP''\<rparr>\<rparr>"

definition reconcilePodTemplate :: "reconciler \<Rightarrow> egress \<Rightarrow> deployment \<Rightarrow> deployment" where
  "reconcilePodTemplate r eg deploy =
     (let target = dep_Template deploy;
          podSpec = (case eg_Template eg of None \<Rightarrow> zero_pod_spec | Some d \<Rightarrow> pt_Spec d);
          annotations = (case eg_Template eg of None \<Rightarrow> pt_Annotations target
                         | Some d \<Rightarrow> pt_Annotations target ++ pt_Annotations d);
          labels = (case eg_Template eg of None \<Rightarrow> Map.empty | Some d \<Rightarrow> pt_Labels d) ++ appLabels (eg_Name eg);
          (containers, i) = pick_container (ps_Containers podSpec) in
      deploy\<lparr>dep_Template :=
        \<lparr>pt_Labels = labels, pt_Annotations = annotations,
         pt_Spec = podSpec\<lparr>ps_ServiceAccountName := egressServiceAccountName,
           ps_Volumes := addVolumes (ps_Volumes podSpec),
           ps_Containers := containers[i := egress_container r eg (containers ! i)]\<rparr>\<rparr>\<rparr>)"

section \<open>Objects for an egress\<close>

definition with_labels :: "strmap \<Rightarrow> object_meta \<Rightarrow> object_meta" where
  "with_labels ls m = m\<lparr>om_Labels := om_Labels m ++ ls\<rparr>"

text \<open>The owner reference is set only on an object that does not exist yet.\<close>

definition own_new :: "(egress \<Rightarrow> object_meta \<Rightarrow> err + object_meta) \<Rightarrow> egress \<Rightarrow> object_meta \<Rightarrow> err + object_meta" where
  "own_new setref eg m = (if om_CreationTimestamp m = None then setref eg m else Inr m)"

definition mutate_deployment ::
  "reconciler \<Rightarrow> (egress \<Rightarrow> object_meta \<Rightarrow> err + object_meta) \<Rightarrow> egress \<Rightarrow> deployment \<Rightarrow> err + deployment" where
  "mutate_deployment r setref eg dep =
     (if om_DeletionTimestamp (dep_Meta dep) \<noteq> None then Inr dep
      else
        let labels = appLabels (eg_Name eg); m = with_labels labels (dep_Meta dep) in
        case own_new setref eg m of
          Inl e \<Rightarrow> Inl e
        | Inr m' \<Rightarrow>
            Inr (reconcilePodTemplate r eg
              (dep\<lparr>dep_Meta := m',
                   dep_Selector := (if om_CreationTimestamp m = None then Some labels else dep_Selector dep),
                   dep_Replicas := (if dep_Replicas dep = None \<or> dep_Replicas dep \<noteq> Some (eg_Replicas eg)
                                    then Some (eg_Replicas eg) else dep_Replicas dep),
                   dep_Strategy := (case eg_Strategy eg of None \<Rightarrow> dep_Strategy dep | Some s \<Rightarrow> Some s)\<rparr>)))"

definition mutate_service ::
  "reconciler \<Rightarrow> (egress \<Rightarrow> object_meta \<Rightarrow> err + object_meta) \<Rightarrow> egress \<Rightarrow> service \<Rightarrow> err + service" where
  "mutate_service r setref eg svc =
     (if om_DeletionTimestamp (svc_Meta svc) \<noteq> None then Inr svc
      else
        let labels = appLabels (eg_Name eg); m = with_labels labels (svc_Meta svc) in
        case own_new setref eg m of
          Inl e \<Rightarrow> Inl e
        | Inr m' \<Rightarrow>
            Inr (svc\<lparr>svc_Meta := m', svc_Type := ''ClusterIP'', svc_Selector := labels,
                     svc_Ports := [\<lparr>sp_Port = er_Port r, sp_TargetPort = IntVal (er_Port r), sp_Protocol = ''UDP''\<rparr>],
                     svc_SessionAffinity := eg_SessionAffinity eg,
                     svc_SessionAffinityConfig := (case eg_SessionAffinityConfig eg of
                         None \<Rightarrow> svc_SessionAffinityConfig svc | Some c \<Rightarrow> Some c)\<rparr>))"

definition mutate_pdb ::
  "(egress \<Rightarrow> object_meta \<Rightarrow> err + object_meta) \<Rightarrow> egress \<Rightarrow> pdb_spec \<Rightarrow> pdb \<Rightarrow> err + pdb" where
  "mutate_pdb setref eg spec p =
     (if om_DeletionTimestamp (pdb_Meta p) \<noteq> None then Inr p
      else
        case own_new setref eg (with_labels (appLabels (eg_Name eg)) (pdb_Meta p)) of
          Inl e \<Rightarrow> Inl e
        | Inr m' \<Rightarrow>
            Inr (p\<lparr>pdb_Meta := m',
                   pdb_MinAvailable := (case pb_MinAvailable spec of None \<Rightarrow> pdb_MinAvailable p | Some x \<Rightarrow> Some x),
                   pdb_MaxUnavailable := (case pb_MaxUnavailable spec of None \<Rightarrow> pdb_MaxUnavailable p | Some x \<Rightarrow> Some x),
                   pdb_Selector := Some (appLabels (eg_Name eg))\<rparr>))"

text \<open>The order in which the map is visited is lost in the sort.\<close>

definition getNamespaces :: "egress list \<Rightarrow> string list" where
  "getNamespaces egresses = sort (remdups (map eg_Namespace egresses))"

section \<open>The reconciler\<close>

text \<open>
  The calls of the API client. \<open>CreateOrUpdate\<close> of controller-runtime takes the key
  of the object and the function that mutates it.
\<close>

record 'k kube =
  kb_GetEgress :: "nsname \<Rightarrow> ('k, egress) io"
  kb_ListEgress :: "('k, egress list) io"
  kb_UpdateEgressStatus :: "egress \<Rightarrow> ('k, unit) io"
  kb_GetServiceAccount :: "nsname \<Rightarrow> ('k, nsname) io"
  kb_CreateServiceAccount :: "nsname \<Rightarrow> ('k, unit) io"
  kb_GetClusterRole :: "string \<Rightarrow> ('k, cluster_role) io"
  kb_CreateClusterRole :: "cluster_role \<Rightarrow> ('k, unit) io"
  kb_GetCRB :: "string \<Rightarrow> ('k, cluster_role_binding) io"
  kb_CreateCRB :: "cluster_role_binding \<Rightarrow> ('k, cluster_role_binding) io"
  kb_PatchCRB :: "cluster_role_binding \<Rightarrow> cluster_role_binding \<Rightarrow> ('k, unit) io"
  kb_GetDeployment :: "nsname \<Rightarrow> ('k, deployment) io"
  kb_CreateOrUpdateDeployment :: "nsname \<Rightarrow> (deployment \<Rightarrow> err + deployment) \<Rightarrow> ('k, unit) io"
  kb_CreateOrUpdateService :: "nsname \<Rightarrow> (service \<Rightarrow> err + service) \<Rightarrow> ('k, unit) io"
  kb_CreateOrUpdatePDB :: "nsname \<Rightarrow> (pdb \<Rightarrow> err + pdb) \<Rightarrow> ('k, unit) io"

definition reconcileServiceAccount :: "'k kube \<Rightarrow> egress \<Rightarrow> ('k, unit) io" where
  "reconcileServiceAccount kb eg =
     (let key = \<lparr>nn_Namespace = eg_Namespace eg, nn_Name = egressServiceAccountName\<rparr> in
      catch (kb_GetServiceAccount kb key) (\<lambda>q. case q of
        Inl e \<Rightarrow> if IsNotFound e then kb_CreateServiceAccount kb key else throw e
      | Inr _ \<Rightarrow> ret ()))"

definition egress_role :: cluster_role where
  "egress_role = \<lparr>cr_Name = egressCRName,
     cr_Rules = [\<lparr>pr_APIGroups = [[]], pr_Resources = [''pods''], pr_Verbs = [''get'', ''list'', ''watch'']\<rparr>]\<rparr>"

definition reconcileCR :: "'k kube \<Rightarrow> ('k, unit) io" where
  "reconcileCR kb =
     catch (kb_GetClusterRole kb egressCRName) (\<lambda>q. case q of
       Inl e \<Rightarrow> if IsNotFound e then kb_CreateClusterRole kb egress_role else throw e
     | Inr _ \<Rightarrow> ret ())"

definition new_crb :: cluster_role_binding where
  "new_crb = \<lparr>crb_Name = egressCRBName, crb_RoleRef = (''rbac.authorization.k8s.io'', ''ClusterRole'', egressCRName),
     crb_Subjects = []\<rparr>"

definition egress_subject :: "string \<Rightarrow> subject" where
  "egress_subject n = \<lparr>sj_Kind = ''ServiceAccount'', sj_Name = egressServiceAccountName, sj_Namespace = n\<rparr>"

definition reconcileCRB :: "'k kube \<Rightarrow> ('k, unit) io" where
  "reconcileCRB kb =
     bind_io
       (catch (kb_GetCRB kb egressCRBName) (\<lambda>q. case q of
          Inl e \<Rightarrow>
            if IsNotFound e then on_err (Errorw ''failed to create CRB resource'') (kb_CreateCRB kb new_crb)
            else throw (Errorw ''unable to get CRB'' e)
        | Inr crb \<Rightarrow> ret crb)) (\<lambda>crb.
     bind_io (on_err (Errorw ''unable to list Egress'') (kb_ListEgress kb)) (\<lambda>egresses.
     on_err (Errorw ''failed to patch crb'')
       (kb_PatchCRB kb (crb\<lparr>crb_Subjects := map egress_subject (getNamespaces egresses)\<rparr>) crb)))"

definition reconcileDeployment ::
  "'k kube \<Rightarrow> reconciler \<Rightarrow> (egress \<Rightarrow> object_meta \<Rightarrow> err + object_meta) \<Rightarrow> egress \<Rightarrow> ('k, unit) io" where
  "reconcileDeployment kb r setref eg =
     on_err (Errorw ''failed to create or update deployment'')
       (kb_CreateOrUpdateDeployment kb (eg_key eg) (mutate_deployment r setref eg))"

definition reconcileService ::
  "'k kube \<Rightarrow> reconciler \<Rightarrow> (egress \<Rightarrow> object_meta \<Rightarrow> err + object_meta) \<Rightarrow> egress \<Rightarrow> ('k, unit) io" where
  "reconcileService kb r setref eg = kb_CreateOrUpdateService kb (eg_key eg) (mutate_service r setref eg)"

definition reconcilePDB ::
  "'k kube \<Rightarrow> (egress \<Rightarrow> object_meta \<Rightarrow> err + object_meta) \<Rightarrow> egress \<Rightarrow> ('k, unit) io" where
  "reconcilePDB kb setref eg =
     (case eg_PodDisruptionBudget eg of
        None \<Rightarrow> ret ()
      | Some spec \<Rightarrow>
          on_err (Errorw ''failed to create or update PDB'')
            (kb_CreateOrUpdatePDB kb (eg_key eg) (mutate_pdb setref eg spec)))"

definition updateStatus :: "'k kube \<Rightarrow> (strmap option \<Rightarrow> err + string) \<Rightarrow> egress \<Rightarrow> ('k, unit) io" where
  "updateStatus kb selstr eg =
     bind_io (on_err (Errorw ''failed to get deployment for updateStatus'') (kb_GetDeployment kb (eg_key eg))) (\<lambda>dep.
     case selstr (dep_Selector dep) of
       Inl e \<Rightarrow> throw (Errorw ''failed to convert labelSelector'' e)
     | Inr sel \<Rightarrow>
         if eg_StatusSelector eg = sel \<and> eg_StatusReplicas eg = dep_AvailableReplicas dep then ret ()
         else kb_UpdateEgressStatus kb (eg\<lparr>eg_StatusSelector := sel, eg_StatusReplicas := dep_AvailableReplicas dep\<rparr>))"

definition egress_stages ::
  "'k kube \<Rightarrow> reconciler \<Rightarrow> (egress \<Rightarrow> object_meta \<Rightarrow> err + object_meta) \<Rightarrow> egress \<Rightarrow> ('k, unit) io" where
  "egress_stages kb r setref eg =
     bind_io (reconcileServiceAccount kb eg) (\<lambda>_.
     bind_io (reconcileCR kb) (\<lambda>_.
     bind_io (reconcileCRB kb) (\<lambda>_.
     bind_io (reconcileDeployment kb r setref eg) (\<lambda>_.
     bind_io (reconcileService kb r setref eg) (\<lambda>_.
     reconcilePDB kb setref eg)))))"

definition egress_Reconcile ::
  "'k kube \<Rightarrow> reconciler \<Rightarrow> (egress \<Rightarrow> object_meta \<Rightarrow> err + object_meta) \<Rightarrow> (strmap option \<Rightarrow> err + string) \<Rightarrow>
   nsname \<Rightarrow> ('k, unit) io" where
  "egress_Reconcile kb r setref selstr req =
     catch (kb_GetEgress kb req) (\<lambda>q. case q of
       Inl e \<Rightarrow> if IsNotFound e then ret () else throw e
     | Inr eg \<Rightarrow>
         if om_DeletionTimestamp (eg_Meta eg) \<noteq> None then ret ()
         else with_defer (updateStatus kb selstr eg) (egress_stages kb r setref eg))"

section \<open>The template, container by container\<close>

lemma last_index_snoc:
  "last_index P (xs @ [x]) p = (if P x then Some (length xs) else last_index P xs p)"
proof -
  have "fold (\<lambda>i acc. if P ((xs @ [x]) ! i) then Some i else acc) [0..<length xs] p =
      fold (\<lambda>i acc. if P (xs ! i) then Some i else acc) [0..<length xs] p"
    by (rule fold_cong) (auto simp: nth_append)
  then show ?thesis by (simp add: last_index_def nth_append)
qed

lemma last_index_Nil [simp]: "last_index P [] p = p"
  by (simp add: last_index_def)

lemma last_index_None: "\<forall>x\<in>set xs. \<not> P x \<Longrightarrow> last_index P xs p = p"
  by (induction xs rule: rev_induct) (auto simp: last_index_snoc)

lemma last_index_Some:
  assumes "\<exists>x\<in>set xs. P x"
  shows "\<exists>i < length xs. last_index P xs p = Some i \<and> P (xs ! i) \<and> (\<forall>j. i < j \<longrightarrow> j < length xs \<longrightarrow> \<not> P (xs ! j))"
  using assms
proof (induction xs rule: rev_induct)
  case (snoc x xs)
  show ?case
  proof (cases "P x")
    case True
    then show ?thesis by (auto simp: last_index_snoc nth_append)
  next
    case False
    with snoc obtain i where i: "i < length xs" "last_index P xs p = Some i" "P (xs ! i)"
      "\<forall>j. i < j \<longrightarrow> j < length xs \<longrightarrow> \<not> P (xs ! j)" by auto
    moreover from False i(4) have "\<not> P ((xs @ [x]) ! j)" if "i < j" "j < length (xs @ [x])" for j
      using that by (cases "j = length xs") (auto simp: nth_append)
    ultimately show ?thesis using False by (auto simp: last_index_snoc nth_append intro!: exI[of _ i])
  qed
qed simp

text \<open>Which container is configured as the gateway's.\<close>

lemma last_index_all: "xs \<noteq> [] \<Longrightarrow> \<forall>x\<in>set xs. P x \<Longrightarrow> last_index P xs p = Some (length xs - 1)"
  by (cases xs rule: rev_cases) (auto simp: last_index_snoc)

lemma zero_container_name [simp]: "c_Name zero_container = []"
  by (simp add: zero_container_def)

lemma pick_none:
  assumes "\<forall>c\<in>set cs. c_Name c \<noteq> ''egress''"
  shows "pick_container cs = (zero_container # cs, length cs)"
proof -
  have "last_index (\<lambda>c. c_Name c \<noteq> ''egress'') (zero_container # cs) (Some 0) = Some (length cs)"
    using assms by (subst last_index_all) simp_all
  with assms show ?thesis by (simp add: pick_container_def last_index_None)
qed

lemma pick_all:
  assumes "cs \<noteq> []" "\<forall>c\<in>set cs. c_Name c = ''egress''"
  shows "pick_container cs = (cs, length cs - 1)"
  using assms by (simp add: pick_container_def last_index_None last_index_all)

lemma pick_mixed:
  assumes "\<exists>c\<in>set cs. c_Name c = ''egress''" "\<exists>c\<in>set cs. c_Name c \<noteq> ''egress''"
  shows "\<exists>i < length cs. pick_container cs = (cs, i) \<and> c_Name (cs ! i) \<noteq> ''egress'' \<and>
    (\<forall>j. i < j \<longrightarrow> j < length cs \<longrightarrow> c_Name (cs ! j) = ''egress'')"
proof -
  from last_index_Some[OF assms(1), of None] obtain i where "last_index (\<lambda>c. c_Name c = ''egress'') cs None = Some i" by blast
  moreover from last_index_Some[OF assms(2), of "Some i"] obtain j where "j < length cs"
    "last_index (\<lambda>c. c_Name c \<noteq> ''egress'') cs (Some i) = Some j" "c_Name (cs ! j) \<noteq> ''egress''"
    "\<forall>k. j < k \<longrightarrow> k < length cs \<longrightarrow> c_Name (cs ! k) = ''egress''" by blast
  ultimately show ?thesis by (auto simp: pick_container_def)
qed

lemma pick_bound: "pick_container cs = (cs', i) \<Longrightarrow> i < length cs'"
  using pick_none[of cs] pick_all[of cs] pick_mixed[of cs] by (cases "cs = []") fastforce+

text \<open>Containers named \<open>egress\<close> among those of a template.\<close>

definition named_egress :: "container list \<Rightarrow> nat" where
  "named_egress cs = length (filter (\<lambda>c. c_Name c = ''egress'') cs)"

definition template_spec :: "egress \<Rightarrow> pod_spec" where
  "template_spec eg = (case eg_Template eg of None \<Rightarrow> zero_pod_spec | Some d \<Rightarrow> pt_Spec d)"

abbreviation out_spec :: "reconciler \<Rightarrow> egress \<Rightarrow> deployment \<Rightarrow> pod_spec" where
  "out_spec r eg dep \<equiv> pt_Spec (dep_Template (reconcilePodTemplate r eg dep))"

lemma out_containers:
  "ps_Containers (out_spec r eg dep) =
     (case pick_container (ps_Containers (template_spec eg)) of (cs, i) \<Rightarrow> cs[i := egress_container r eg (cs ! i)])"
  by (auto simp: reconcilePodTemplate_def template_spec_def Let_def split: prod.splits)

lemma out_fields:
  "ps_ServiceAccountName (out_spec r eg dep) = egressServiceAccountName"
  "ps_Volumes (out_spec r eg dep) = addVolumes (ps_Volumes (template_spec eg))"
  "pt_Labels (dep_Template (reconcilePodTemplate r eg dep)) =
     (case eg_Template eg of None \<Rightarrow> Map.empty | Some d \<Rightarrow> pt_Labels d) ++ appLabels (eg_Name eg)"
  "dep_Meta (reconcilePodTemplate r eg dep) = dep_Meta dep" "dep_Selector (reconcilePodTemplate r eg dep) = dep_Selector dep"
  "dep_Replicas (reconcilePodTemplate r eg dep) = dep_Replicas dep" "dep_Strategy (reconcilePodTemplate r eg dep) = dep_Strategy dep"
  by (auto simp: reconcilePodTemplate_def template_spec_def Let_def split: prod.splits)

lemma egress_container_name [simp]: "c_Name (egress_container r eg c) = ''egress''"
  by (simp add: egress_container_def)

lemma out_egress:
  obtains c where "egress_container r eg c \<in> set (ps_Containers (out_spec r eg dep))"
proof -
  obtain cs i where p: "pick_container (ps_Containers (template_spec eg)) = (cs, i)" by fastforce
  from pick_bound[OF p] have "egress_container r eg (cs ! i) \<in> set (cs[i := egress_container r eg (cs ! i)])"
    by (simp add: set_update_memI)
  with that p show thesis by (simp add: out_containers)
qed

lemma named_update:
  "i < length cs \<Longrightarrow> c_Name (cs ! i) \<noteq> ''egress'' \<Longrightarrow> c_Name c = ''egress'' \<Longrightarrow> named_egress (cs[i := c]) = Suc (named_egress cs)"
proof (induction cs arbitrary: i)
  case (Cons x xs)
  then show ?case by (cases i) (auto simp: named_egress_def)
qed simp

lemma named_update_same:
  "i < length cs \<Longrightarrow> c_Name (cs ! i) = ''egress'' \<Longrightarrow> c_Name c = ''egress'' \<Longrightarrow> named_egress (cs[i := c]) = named_egress cs"
proof (induction cs arbitrary: i)
  case (Cons x xs)
  then show ?case by (cases i) (auto simp: named_egress_def)
qed simp

lemma named_pos: "named_egress cs > 0 \<longleftrightarrow> (\<exists>c\<in>set cs. c_Name c = ''egress'')"
  by (auto simp: named_egress_def filter_empty_conv)

text \<open>A probe that names its port needs a port of that name in its container.\<close>

definition port_declared :: "container \<Rightarrow> http_probe \<Rightarrow> bool" where
  "port_declared c pr = (case hp_Port pr of IntVal _ \<Rightarrow> True | StrVal n \<Rightarrow> n \<in> cp_Name ` set (c_Ports c))"

section \<open>Repetition\<close>

lemma addVolumes_has: "\<exists>v\<in>set (addVolumes vs). v_Name v = ''run''" "\<exists>v\<in>set (addVolumes vs). v_Name v = ''modules''"
  by (auto simp: addVolumes_def Let_def)

lemma map_add_twice [simp]: "m ++ n ++ n = m ++ (n :: strmap)"
  by (metis map_add_assoc map_add_subsumed1 map_le_refl)

lemma reconcilePodTemplate_twice:
  "reconcilePodTemplate r eg (reconcilePodTemplate r eg dep) = reconcilePodTemplate r eg dep"
  by (auto simp: reconcilePodTemplate_def Let_def split: prod.splits option.splits)

lemma reconcilePodTemplate_cong:
  "dep_Template d = dep_Template d' \<Longrightarrow> dep_Template (reconcilePodTemplate r eg d) = dep_Template (reconcilePodTemplate r eg d')"
  by (auto simp: reconcilePodTemplate_def Let_def split: prod.splits)

lemma with_labels_twice [simp]: "with_labels ls (with_labels ls m) = with_labels ls m"
  by (simp add: with_labels_def)

lemma with_labels_times [simp]:
  "om_CreationTimestamp (with_labels ls m) = om_CreationTimestamp m" "om_DeletionTimestamp (with_labels ls m) = om_DeletionTimestamp m"
  by (simp_all add: with_labels_def)

text \<open>On an object that exists the mutation is a function of the fields alone.\<close>

lemma mutate_deployment_created:
  assumes "om_CreationTimestamp (dep_Meta dep) \<noteq> None" "om_DeletionTimestamp (dep_Meta dep) = None"
  shows "mutate_deployment r setref eg dep = Inr (reconcilePodTemplate r eg
    (dep\<lparr>dep_Meta := with_labels (appLabels (eg_Name eg)) (dep_Meta dep), dep_Replicas := Some (eg_Replicas eg),
         dep_Strategy := (case eg_Strategy eg of None \<Rightarrow> dep_Strategy dep | Some s \<Rightarrow> Some s)\<rparr>))"
  using assms by (cases dep) (auto simp: mutate_deployment_def own_new_def Let_def)

lemma dep_update_id:
  "dep_Meta d = m \<Longrightarrow> dep_Replicas d = n \<Longrightarrow> dep_Strategy d = s \<Longrightarrow> d\<lparr>dep_Meta := m, dep_Replicas := n, dep_Strategy := s\<rparr> = d"
  by (cases d) auto

lemma mutate_deployment_twice:
  assumes c: "om_CreationTimestamp (dep_Meta dep) \<noteq> None" and m: "mutate_deployment r setref eg dep = Inr d"
  shows "mutate_deployment r setref eg d = Inr d"
proof (cases "om_DeletionTimestamp (dep_Meta dep) = None")
  case False
  with m show ?thesis by (auto simp: mutate_deployment_def)
next
  case True
  let ?L = "appLabels (eg_Name eg)"
  let ?x = "dep\<lparr>dep_Meta := with_labels ?L (dep_Meta dep), dep_Replicas := Some (eg_Replicas eg),
         dep_Strategy := (case eg_Strategy eg of None \<Rightarrow> dep_Strategy dep | Some s \<Rightarrow> Some s)\<rparr>"
  from m have d: "d = reconcilePodTemplate r eg ?x" unfolding mutate_deployment_created[OF c True] by simp
  then have f: "dep_Meta d = with_labels ?L (dep_Meta dep)" "dep_Replicas d = Some (eg_Replicas eg)"
    "dep_Strategy d = (case eg_Strategy eg of None \<Rightarrow> dep_Strategy dep | Some s \<Rightarrow> Some s)" by (simp_all add: out_fields)
  have "d\<lparr>dep_Meta := with_labels ?L (dep_Meta d), dep_Replicas := Some (eg_Replicas eg),
      dep_Strategy := (case eg_Strategy eg of None \<Rightarrow> dep_Strategy d | Some s \<Rightarrow> Some s)\<rparr> = d"
    by (rule dep_update_id) (simp_all add: f split: option.splits)
  moreover have "reconcilePodTemplate r eg d = d" unfolding d by (rule reconcilePodTemplate_twice)
  ultimately show ?thesis using mutate_deployment_created[of d r setref eg] c True by (simp add: f)
qed

lemma mutate_service_twice:
  assumes "om_CreationTimestamp (svc_Meta svc) \<noteq> None" "mutate_service r setref eg svc = Inr s"
  shows "mutate_service r setref eg s = Inr s"
  using assms by (cases svc) (auto simp: mutate_service_def own_new_def Let_def split: if_splits option.splits)

lemma mutate_pdb_twice:
  assumes "om_CreationTimestamp (pdb_Meta p) \<noteq> None" "mutate_pdb setref eg spec p = Inr q"
  shows "mutate_pdb setref eg spec q = Inr q"
  using assms by (cases p) (auto simp: mutate_pdb_def own_new_def split: if_splits option.splits)

section \<open>Properties of the objects\<close>

definition demo_egress :: "container list \<Rightarrow> egress" where
  "demo_egress cs =
     \<lparr>eg_Meta = \<lparr>om_Name = ''egress-a'', om_Namespace = ''internet'', om_Labels = Map.empty, om_CreationTimestamp = Some ''t0'',
        om_DeletionTimestamp = None, om_OwnerReferences = []\<rparr>,
      eg_Destinations = [''0.0.0.0/0''], eg_Replicas = 2, eg_Strategy = None,
      eg_Template = Some \<lparr>pt_Labels = Map.empty, pt_Annotations = Map.empty, pt_Spec = zero_pod_spec\<lparr>ps_Containers := cs\<rparr>\<rparr>,
      eg_SessionAffinity = ''None'', eg_SessionAffinityConfig = None, eg_PodDisruptionBudget = None,
      eg_StatusReplicas = 0, eg_StatusSelector = []\<rparr>"

text \<open>
  C9. Whatever the template of the egress, the pod template that the controller makes
  runs under the egress's service account, carries the labels that the service and
  the deployment select by, declares the volumes \<open>run\<close> and \<open>modules\<close>, and has a
  container named \<open>egress\<close> that is privileged, mounts both, and is told the name and
  the namespace of its egress and its own addresses; its image is the default one
  only if the template names none.
\<close>

theorem reconcilePodTemplate_serves:
  "\<exists>c0 c. c = egress_container r eg c0 \<and> c \<in> set (ps_Containers (out_spec r eg dep)) \<and> c_Name c = ''egress'' \<and>
     c_Image c = (if c_Image c0 = [] then er_DefaultImage r else c_Image c0) \<and>
     \<lparr>ev_Name = EnvPodNamespace, ev_From = Value (eg_Namespace eg)\<rparr> \<in> set (c_Env c) \<and>
     \<lparr>ev_Name = EnvEgressName, ev_From = Value (eg_Name eg)\<rparr> \<in> set (c_Env c) \<and>
     \<lparr>ev_Name = EnvAddresses, ev_From = FieldRef ''status.podIPs''\<rparr> \<in> set (c_Env c) \<and>
     map_option sc_Privileged (c_SecurityContext c) = Some True \<and>
     (\<exists>m\<in>set (c_VolumeMounts c). vm_Name m = ''run'') \<and> (\<exists>m\<in>set (c_VolumeMounts c). vm_Name m = ''modules'') \<and>
     (\<exists>v\<in>set (ps_Volumes (out_spec r eg dep)). v_Name v = ''run'') \<and>
     (\<exists>v\<in>set (ps_Volumes (out_spec r eg dep)). v_Name v = ''modules'') \<and>
     ps_ServiceAccountName (out_spec r eg dep) = egressServiceAccountName \<and>
     appLabels (eg_Name eg) \<subseteq>\<^sub>m pt_Labels (dep_Template (reconcilePodTemplate r eg dep))"
proof -
  obtain c0 where c0: "egress_container r eg c0 \<in> set (ps_Containers (out_spec r eg dep))" by (rule out_egress)
  have "\<exists>m\<in>set (addVolumeMounts ms). vm_Name m = ''run''" "\<exists>m\<in>set (addVolumeMounts ms). vm_Name m = ''modules''" for ms
    by (auto simp: addVolumeMounts_def Let_def)
  with c0 show ?thesis
    by (intro exI[of _ c0] exI[of _ "egress_container r eg c0"])
      (simp add: egress_container_def out_fields addVolumes_has map_le_map_add)
qed

text \<open>
  C36. Which container becomes the gateway's, in every case. With no containers in the
  template, a new one. With all of them named \<open>egress\<close>, the last one. With a container
  named \<open>egress\<close> and another one, the last of those with another name: it is renamed and
  configured, so two containers have the name \<open>egress\<close>, and the one the user wrote is left as
  it was. With only other containers, the last of them is renamed and configured, and a
  container without a name or an image is put in front. All other containers stay as they
  are.
\<close>

theorem reconcilePodTemplate_containers:
  "let cs = ps_Containers (template_spec eg); out = ps_Containers (out_spec r eg dep) in
   if cs = [] then out = [egress_container r eg zero_container]
   else if \<forall>c\<in>set cs. c_Name c = ''egress'' then out = cs[length cs - 1 := egress_container r eg (last cs)]
   else if \<exists>c\<in>set cs. c_Name c = ''egress'' then
     (\<exists>i < length cs. c_Name (cs ! i) \<noteq> ''egress'' \<and> (\<forall>j. i < j \<longrightarrow> j < length cs \<longrightarrow> c_Name (cs ! j) = ''egress'') \<and>
        out = cs[i := egress_container r eg (cs ! i)]) \<and>
     named_egress out = Suc (named_egress cs) \<and> named_egress out \<ge> 2 \<and>
     (\<forall>i < length cs. c_Name (cs ! i) = ''egress'' \<longrightarrow> out ! i = cs ! i)
   else out = zero_container # cs[length cs - 1 := egress_container r eg (last cs)]"
proof -
  let ?cs = "ps_Containers (template_spec eg)"
  consider "?cs = []" | "?cs \<noteq> []" "\<forall>c\<in>set ?cs. c_Name c = ''egress''"
    | "\<exists>c\<in>set ?cs. c_Name c = ''egress''" "\<exists>c\<in>set ?cs. c_Name c \<noteq> ''egress''" | "?cs \<noteq> []" "\<forall>c\<in>set ?cs. c_Name c \<noteq> ''egress''"
    by blast
  then show ?thesis
  proof cases
    case 1
    then show ?thesis using pick_none[of ?cs] by (simp add: out_containers)
  next
    case 2
    then show ?thesis by (simp add: out_containers pick_all last_conv_nth Let_def)
  next
    case 3
    from pick_mixed[OF 3] obtain i where i: "i < length ?cs" "pick_container ?cs = (?cs, i)" "c_Name (?cs ! i) \<noteq> ''egress''"
      "\<forall>j. i < j \<longrightarrow> j < length ?cs \<longrightarrow> c_Name (?cs ! j) = ''egress''" by blast
    then have out: "ps_Containers (out_spec r eg dep) = ?cs[i := egress_container r eg (?cs ! i)]" by (simp add: out_containers)
    from named_update[OF i(1,3)] have "named_egress (ps_Containers (out_spec r eg dep)) = Suc (named_egress ?cs)" by (simp add: out)
    moreover have "named_egress ?cs > 0" using 3(1) by (simp add: named_pos)
    moreover have "\<forall>j < length ?cs. c_Name (?cs ! j) = ''egress'' \<longrightarrow> ps_Containers (out_spec r eg dep) ! j = ?cs ! j"
      using i by (auto simp: out nth_list_update)
    moreover have "?cs \<noteq> []" "\<not> (\<forall>c\<in>set ?cs. c_Name c = ''egress'')" using 3 by auto
    ultimately show ?thesis using 3(1) i out unfolding Let_def by auto
  next
    case 4
    then have "\<not> (\<forall>c\<in>set ?cs. c_Name c = ''egress'')" "\<not> (\<exists>c\<in>set ?cs. c_Name c = ''egress'')" by (cases ?cs; auto)+
    moreover have "ps_Containers (out_spec r eg dep) = zero_container # ?cs[length ?cs - 1 := egress_container r eg (last ?cs)]"
      using 4 pick_none[OF 4(2)] by (cases ?cs rule: rev_cases) (simp_all add: out_containers nth_Cons' list_update_append nth_append)
    ultimately show ?thesis using 4(1) by (simp add: Let_def)
  qed
qed

definition demo_dep :: deployment where
  "demo_dep =
     \<lparr>dep_Meta = \<lparr>om_Name = ''egress-a'', om_Namespace = ''internet'', om_Labels = Map.empty, om_CreationTimestamp = Some ''t0'',
        om_DeletionTimestamp = None, om_OwnerReferences = []\<rparr>,
      dep_Selector = Some (appLabels ''egress-a''), dep_Replicas = Some 1, dep_Strategy = None,
      dep_Template = \<lparr>pt_Labels = Map.empty, pt_Annotations = Map.empty, pt_Spec = zero_pod_spec\<rparr>, dep_AvailableReplicas = 1\<rparr>"

theorem reconcilePodTemplate_containers_witness:
  "named_egress (ps_Containers (out_spec \<lparr>er_Port = 5555, er_DefaultImage = ''nat-gateway:1''\<rparr>
     (demo_egress [zero_container\<lparr>c_Name := ''egress''\<rparr>, zero_container\<lparr>c_Name := ''sidecar''\<rparr>]) demo_dep)) = 2 \<and>
   ps_Containers (out_spec \<lparr>er_Port = 5555, er_DefaultImage = ''nat-gateway:1''\<rparr>
     (demo_egress [zero_container\<lparr>c_Name := ''egress''\<rparr>, zero_container\<lparr>c_Name := ''sidecar''\<rparr>]) demo_dep) ! 0 = zero_container\<lparr>c_Name := ''egress''\<rparr>"
  using reconcilePodTemplate_containers[of "demo_egress [zero_container\<lparr>c_Name := ''egress''\<rparr>, zero_container\<lparr>c_Name := ''sidecar''\<rparr>]"
      "\<lparr>er_Port = 5555, er_DefaultImage = ''nat-gateway:1''\<rparr>" demo_dep]
  by (simp add: template_spec_def demo_egress_def zero_pod_spec_def named_egress_def[of "[_, _]"] Let_def)

text \<open>
  Reconciling again changes nothing: on a deployment, service or disruption budget
  that exists, the mutation applied to its own result returns that result, so once an
  object is as the egress asks, the controller leaves it alone. The environment of the
  gateway container, its volumes and mounts do not pile up.
\<close>

lemma mutations_idempotent:
  "(om_CreationTimestamp (dep_Meta dep) \<noteq> None \<longrightarrow> mutate_deployment r setref eg dep = Inr d \<longrightarrow>
      mutate_deployment r setref eg d = Inr d) \<and>
   (om_CreationTimestamp (svc_Meta svc) \<noteq> None \<longrightarrow> mutate_service r setref eg svc = Inr s \<longrightarrow>
      mutate_service r setref eg s = Inr s) \<and>
   (om_CreationTimestamp (pdb_Meta p) \<noteq> None \<longrightarrow> mutate_pdb setref eg spec p = Inr q \<longrightarrow>
      mutate_pdb setref eg spec q = Inr q)"
  using mutate_deployment_twice mutate_service_twice mutate_pdb_twice by blast

text \<open>
  The probes of the gateway container: the readiness probe's port is one the
  container declares, the liveness probe's is not, so no liveness probe of a gateway
  pod can be resolved to a port.
\<close>

lemma liveness_port_undeclared:
  "map_option (port_declared (egress_container r eg c)) (c_ReadinessProbe (egress_container r eg c)) = Some True \<and>
   map_option (port_declared (egress_container r eg c)) (c_LivenessProbe (egress_container r eg c)) = Some False"
  by (simp add: egress_container_def port_declared_def)

text \<open>
  The namespaces that get the role binding: sorted, each once, exactly those with
  an egress, and the same whatever the order the egresses are listed in.
\<close>

lemma getNamespaces_canonical:
  "sorted (getNamespaces es) \<and> distinct (getNamespaces es) \<and> set (getNamespaces es) = eg_Namespace ` set es \<and>
   (mset es = mset es' \<longrightarrow> getNamespaces es = getNamespaces es')"
proof -
  have "getNamespaces es = getNamespaces es'" if "mset es = mset es'"
    unfolding getNamespaces_def
    by (rule sorted_distinct_set_unique) (use mset_eq_setD[OF that] in auto)
  then show ?thesis by (simp add: getNamespaces_def)
qed

end
