(* ===== verification/EgressReconcile.thy ===== *)
theory EgressReconcile
  imports EgressController
begin

text \<open>
  What a successful \<open>Reconcile\<close> of the egress controller leaves in the cluster. The
  API server is not part of the repository: the locale \<open>kube_laws\<close> states what its
  calls do to a view of the stored objects, for a controller that is the only writer
  while it runs. The server fills in defaults (the record \<open>defaults\<close>), also in the pod
  template, and may refuse an object. The last section has an API server in memory that
  fills in defaults, refuses invalid objects and keeps the laws.
\<close>

section \<open>The stored objects\<close>

record cluster =
  cl_egress :: "nsname \<Rightarrow> egress option"
  cl_sa :: "nsname \<Rightarrow> bool"
  cl_cr :: "string \<Rightarrow> cluster_role option"
  cl_crb :: "string \<Rightarrow> cluster_role_binding option"
  cl_dep :: "nsname \<Rightarrow> deployment option"
  cl_svc :: "nsname \<Rightarrow> service option"
  cl_pdb :: "nsname \<Rightarrow> pdb option"

definition blank_meta :: "nsname \<Rightarrow> object_meta" where
  "blank_meta key = \<lparr>om_Name = nn_Name key, om_Namespace = nn_Namespace key, om_Labels = Map.empty,
     om_CreationTimestamp = None, om_DeletionTimestamp = None, om_OwnerReferences = []\<rparr>"

definition blank_deployment :: "nsname \<Rightarrow> deployment" where
  "blank_deployment key = \<lparr>dep_Meta = blank_meta key, dep_Selector = None, dep_Replicas = None, dep_Strategy = None,
     dep_Template = \<lparr>pt_Labels = Map.empty, pt_Annotations = Map.empty, pt_Spec = zero_pod_spec\<rparr>, dep_AvailableReplicas = 0\<rparr>"

definition blank_service :: "nsname \<Rightarrow> service" where
  "blank_service key = \<lparr>svc_Meta = blank_meta key, svc_Type = [], svc_Selector = Map.empty, svc_Ports = [],
     svc_SessionAffinity = [], svc_SessionAffinityConfig = None, svc_ClusterIP = []\<rparr>"

definition blank_pdb :: "nsname \<Rightarrow> pdb" where
  "blank_pdb key = \<lparr>pdb_Meta = blank_meta key, pdb_MinAvailable = None, pdb_MaxUnavailable = None, pdb_Selector = None\<rparr>"

text \<open>
  What the server fills in while it stores an object: the fields of a pod template, of a
  strategy and of a session affinity that were left open. Which values these are is the
  server's matter; that they fill in, and that filled in once is filled in for good, is
  what \<open>lawful_defaults\<close> says. Names, images, environment, mounts, security context,
  labels, annotations and the service account are not defaulted; requests are only added;
  nothing is said of the other fields of a container or pod.
\<close>

record defaults =
  df_template :: "pod_template \<Rightarrow> pod_template"
  df_strategy :: "string option \<Rightarrow> string option"
  df_affinity :: "string \<times> string option \<Rightarrow> string \<times> string option"

definition filled_env :: "env_var \<Rightarrow> env_var \<Rightarrow> bool" where
  "filled_env e e' \<longleftrightarrow> ev_Name e' = ev_Name e \<and> (case ev_From e of OtherSource _ \<Rightarrow> True | x \<Rightarrow> ev_From e' = x)"

definition filled_container :: "container \<Rightarrow> container \<Rightarrow> bool" where
  "filled_container c c' \<longleftrightarrow> c_Name c' = c_Name c \<and> c_Image c' = c_Image c \<and> list_all2 filled_env (c_Env c) (c_Env c') \<and>
     c_VolumeMounts c' = c_VolumeMounts c \<and> c_SecurityContext c' = c_SecurityContext c \<and> c_Requests c \<subseteq>\<^sub>m c_Requests c'"

definition filled_template :: "pod_template \<Rightarrow> pod_template \<Rightarrow> bool" where
  "filled_template t t' \<longleftrightarrow> pt_Labels t' = pt_Labels t \<and> pt_Annotations t' = pt_Annotations t \<and>
     ps_ServiceAccountName (pt_Spec t') = ps_ServiceAccountName (pt_Spec t) \<and>
     map v_Name (ps_Volumes (pt_Spec t')) = map v_Name (ps_Volumes (pt_Spec t)) \<and>
     list_all2 filled_container (ps_Containers (pt_Spec t)) (ps_Containers (pt_Spec t'))"

definition lawful_defaults :: "defaults \<Rightarrow> bool" where
  "lawful_defaults df \<longleftrightarrow>
     (\<forall>t. filled_template t (df_template df t) \<and> df_template df (df_template df t) = df_template df t) \<and>
     (\<forall>x. df_strategy df (df_strategy df x) = df_strategy df x) \<and>
     (\<forall>a c. df_affinity df (df_affinity df (a, c)) = df_affinity df (a, c) \<and> df_affinity df (a, snd (df_affinity df (a, c))) = df_affinity df (a, c))"

text \<open>
  What is stored for an object that is sent: the creation time is set once, the defaults
  are filled in, and a service without an address gets one.
\<close>

definition timed :: "object_meta \<Rightarrow> object_meta \<Rightarrow> bool" where
  "timed m m' \<longleftrightarrow> (\<exists>t. m' = m\<lparr>om_CreationTimestamp := Some t\<rparr> \<and> (\<forall>t'. om_CreationTimestamp m = Some t' \<longrightarrow> t' = t))"

definition stored_dep :: "defaults \<Rightarrow> deployment \<Rightarrow> deployment \<Rightarrow> bool" where
  "stored_dep df d s \<longleftrightarrow> (\<exists>m. timed (dep_Meta d) m \<and>
     s = d\<lparr>dep_Meta := m, dep_Strategy := df_strategy df (dep_Strategy d), dep_Template := df_template df (dep_Template d)\<rparr>)"

definition stored_svc :: "defaults \<Rightarrow> service \<Rightarrow> service \<Rightarrow> bool" where
  "stored_svc df d s \<longleftrightarrow> (\<exists>m ip. timed (svc_Meta d) m \<and> ip \<noteq> [] \<and> (svc_ClusterIP d \<noteq> [] \<longrightarrow> ip = svc_ClusterIP d) \<and>
     s = d\<lparr>svc_Meta := m, svc_SessionAffinity := fst (df_affinity df (svc_SessionAffinity d, svc_SessionAffinityConfig d)),
       svc_SessionAffinityConfig := snd (df_affinity df (svc_SessionAffinity d, svc_SessionAffinityConfig d)), svc_ClusterIP := ip\<rparr>)"

definition stored_pdb :: "pdb \<Rightarrow> pdb \<Rightarrow> bool" where
  "stored_pdb d s \<longleftrightarrow> (\<exists>m. timed (pdb_Meta d) m \<and> s = d\<lparr>pdb_Meta := m\<rparr>)"

lemma timed_fields:
  "timed m m' \<Longrightarrow> om_CreationTimestamp m' \<noteq> None" "timed m m' \<Longrightarrow> om_Labels m' = om_Labels m"
  "timed m m' \<Longrightarrow> om_DeletionTimestamp m' = om_DeletionTimestamp m" "timed m m' \<Longrightarrow> om_OwnerReferences m' = om_OwnerReferences m"
  by (auto simp: timed_def)

lemma timed_self: "om_CreationTimestamp m \<noteq> None \<Longrightarrow> timed m m' \<longleftrightarrow> m' = m"
  by (cases m) (auto simp: timed_def)

text \<open>For an object with a creation time, and a service with an address, the result is determined.\<close>

lemma stored_unique:
  "om_CreationTimestamp (dep_Meta d) \<noteq> None \<Longrightarrow> stored_dep df d s \<Longrightarrow> stored_dep df d s' \<Longrightarrow> s' = s"
  "om_CreationTimestamp (svc_Meta v) \<noteq> None \<Longrightarrow> svc_ClusterIP v \<noteq> [] \<Longrightarrow> stored_svc df v x \<Longrightarrow> stored_svc df v x' \<Longrightarrow> x' = x"
  "om_CreationTimestamp (pdb_Meta p) \<noteq> None \<Longrightarrow> stored_pdb p y \<Longrightarrow> stored_pdb p y' \<Longrightarrow> y' = y"
  by (auto simp: stored_dep_def stored_svc_def stored_pdb_def timed_self)

definition old_or :: "'a \<Rightarrow> 'a option \<Rightarrow> 'a" where
  "old_or b m = (case m of None \<Rightarrow> b | Some x \<Rightarrow> x)"

section \<open>The interface\<close>

definition get_ok :: "('b \<Rightarrow> 'v option) \<Rightarrow> 'b \<Rightarrow> 'v \<Rightarrow> bool" where
  "get_ok m key x \<longleftrightarrow> m key = Some x"

definition same :: "err \<Rightarrow> cluster \<Rightarrow> cluster \<Rightarrow> bool" where
  "same e K K' \<longleftrightarrow> K' = K"

locale kube_laws =
  fixes kb :: "'k kube" and good :: "'k \<Rightarrow> bool" and view :: "'k \<Rightarrow> cluster" and df :: defaults
  assumes defaulting: "lawful_defaults df"
    and GetEgress: "meets good view (kb_GetEgress kb key)
      (\<lambda>x K K'. K' = K \<and> get_ok (cl_egress K) key x \<and> eg_key x = key)
      (\<lambda>e K K'. K' = K \<and> (IsNotFound e \<longrightarrow> cl_egress K key = None))"
    and ListEgress: "meets good view (kb_ListEgress kb) (\<lambda>es K K'. K' = K \<and> set es = ran (cl_egress K)) same"
    and UpdateEgressStatus: "meets good view (kb_UpdateEgressStatus kb eg)
      (\<lambda>_ K K'. \<exists>m. K' = K\<lparr>cl_egress := m\<rparr>) (\<lambda>_ K K'. \<exists>m. K' = K\<lparr>cl_egress := m\<rparr>)"
    and GetServiceAccount: "meets good view (kb_GetServiceAccount kb key) (\<lambda>_ K K'. K' = K \<and> cl_sa K key)
      (\<lambda>e K K'. K' = K \<and> (IsNotFound e \<longrightarrow> \<not> cl_sa K key))"
    and CreateServiceAccount: "meets good view (kb_CreateServiceAccount kb key)
      (\<lambda>_ K K'. K' = K\<lparr>cl_sa := (cl_sa K)(key := True)\<rparr>) (\<lambda>_ K K'. \<exists>m. K' = K\<lparr>cl_sa := m\<rparr>)"
    and GetClusterRole: "meets good view (kb_GetClusterRole kb n) (\<lambda>x K K'. K' = K \<and> get_ok (cl_cr K) n x)
      (\<lambda>e K K'. K' = K \<and> (IsNotFound e \<longrightarrow> cl_cr K n = None))"
    and CreateClusterRole: "meets good view (kb_CreateClusterRole kb cr)
      (\<lambda>_ K K'. K' = K\<lparr>cl_cr := (cl_cr K)(cr_Name cr \<mapsto> cr)\<rparr>) (\<lambda>_ K K'. \<exists>m. K' = K\<lparr>cl_cr := m\<rparr>)"
    and GetCRB: "meets good view (kb_GetCRB kb n) (\<lambda>x K K'. K' = K \<and> get_ok (cl_crb K) n x \<and> crb_Name x = n)
      (\<lambda>e K K'. K' = K \<and> (IsNotFound e \<longrightarrow> cl_crb K n = None))"
    and CreateCRB: "meets good view (kb_CreateCRB kb crb)
      (\<lambda>x K K'. x = crb \<and> K' = K\<lparr>cl_crb := (cl_crb K)(crb_Name crb \<mapsto> crb)\<rparr>) (\<lambda>_ K K'. \<exists>m. K' = K\<lparr>cl_crb := m\<rparr>)"
    and PatchCRB: "meets good view (kb_PatchCRB kb crb old)
      (\<lambda>_ K K'. get_ok (cl_crb K) (crb_Name old) old \<longrightarrow> K' = K\<lparr>cl_crb := (cl_crb K)(crb_Name crb \<mapsto> crb)\<rparr>)
      (\<lambda>_ K K'. \<exists>m. K' = K\<lparr>cl_crb := m\<rparr>)"
    and GetDeployment: "meets good view (kb_GetDeployment kb key) (\<lambda>x K K'. K' = K \<and> get_ok (cl_dep K) key x) same"
    and CreateOrUpdateDeployment: "meets good view (kb_CreateOrUpdateDeployment kb key fd)
      (\<lambda>_ K K'. \<exists>d s. fd (old_or (blank_deployment key) (cl_dep K key)) = Inr d \<and> stored_dep df d s \<and>
         K' = K\<lparr>cl_dep := (cl_dep K)(key \<mapsto> s)\<rparr>) (\<lambda>_ K K'. \<exists>m. K' = K\<lparr>cl_dep := m\<rparr>)"
    and CreateOrUpdateService: "meets good view (kb_CreateOrUpdateService kb key fs)
      (\<lambda>_ K K'. \<exists>d s. fs (old_or (blank_service key) (cl_svc K key)) = Inr d \<and> stored_svc df d s \<and>
         K' = K\<lparr>cl_svc := (cl_svc K)(key \<mapsto> s)\<rparr>) (\<lambda>_ K K'. \<exists>m. K' = K\<lparr>cl_svc := m\<rparr>)"
    and CreateOrUpdatePDB: "meets good view (kb_CreateOrUpdatePDB kb key fp)
      (\<lambda>_ K K'. \<exists>d s. fp (old_or (blank_pdb key) (cl_pdb K key)) = Inr d \<and> stored_pdb d s \<and>
         K' = K\<lparr>cl_pdb := (cl_pdb K)(key \<mapsto> s)\<rparr>) (\<lambda>_ K K'. \<exists>m. K' = K\<lparr>cl_pdb := m\<rparr>)"

section \<open>What an egress asks for\<close>

definition keeps_meta :: "(egress \<Rightarrow> object_meta \<Rightarrow> err + object_meta) \<Rightarrow> bool" where
  "keeps_meta setref \<longleftrightarrow> (\<forall>eg m m'. setref eg m = Inr m' \<longrightarrow>
     om_Labels m' = om_Labels m \<and> om_DeletionTimestamp m' = om_DeletionTimestamp m)"

text \<open>
  The owner references of a new object are those that \<open>SetControllerReference\<close> gives it;
  those of an object that exists stay.
\<close>

definition owned :: "(egress \<Rightarrow> object_meta \<Rightarrow> err + object_meta) \<Rightarrow> egress \<Rightarrow> object_meta \<Rightarrow> object_meta \<Rightarrow> bool" where
  "owned setref eg old m \<longleftrightarrow>
     (if om_CreationTimestamp old = None
      then \<exists>x. setref eg (with_labels (appLabels (eg_Name eg)) old) = Inr x \<and> om_OwnerReferences m = om_OwnerReferences x
      else om_OwnerReferences m = om_OwnerReferences old)"

text \<open>
  The pods of a template run the gateway: under the service account, with the labels that
  the service selects by, and with a privileged container \<open>egress\<close> that is told the egress
  and its own addresses.
\<close>

definition runs_gateway :: "egress \<Rightarrow> pod_template \<Rightarrow> bool" where
  "runs_gateway eg t \<longleftrightarrow> ps_ServiceAccountName (pt_Spec t) = ''egress'' \<and> appLabels (eg_Name eg) \<subseteq>\<^sub>m pt_Labels t \<and>
     (\<exists>c\<in>set (ps_Containers (pt_Spec t)). c_Name c = ''egress'' \<and> map_option sc_Privileged (c_SecurityContext c) = Some True \<and>
        {\<lparr>ev_Name = ''PONA_POD_NAMESPACE'', ev_From = Value (eg_Namespace eg)\<rparr>, \<lparr>ev_Name = ''PONA_EGRESS_NAME'', ev_From = Value (eg_Name eg)\<rparr>,
         \<lparr>ev_Name = ''PONA_POD_ADDRESSES'', ev_From = FieldRef ''status.podIPs''\<rparr>} \<subseteq> set (c_Env c))"

text \<open>
  The objects \<open>s\<close> that an egress wants, where \<open>old\<close> is the one there was or, for a new one,
  the blank object of that name. An object that is being deleted is sent back as it is.
\<close>

definition wanted_deployment ::
  "defaults \<Rightarrow> reconciler \<Rightarrow> (egress \<Rightarrow> object_meta \<Rightarrow> err + object_meta) \<Rightarrow> egress \<Rightarrow> deployment \<Rightarrow> deployment \<Rightarrow> bool" where
  "wanted_deployment df r setref eg old s \<longleftrightarrow>
     (if om_DeletionTimestamp (dep_Meta old) \<noteq> None then stored_dep df old s
      else dep_Replicas s = Some (eg_Replicas eg) \<and> appLabels (eg_Name eg) \<subseteq>\<^sub>m om_Labels (dep_Meta s) \<and>
        dep_Selector s = (if om_CreationTimestamp (dep_Meta old) = None then Some (appLabels (eg_Name eg)) else dep_Selector old) \<and>
        dep_Template s = df_template df (dep_Template (reconcilePodTemplate r eg old)) \<and> runs_gateway eg (dep_Template s) \<and>
        dep_Strategy s = df_strategy df (if eg_Strategy eg = None then dep_Strategy old else eg_Strategy eg) \<and>
        owned setref eg (dep_Meta old) (dep_Meta s))"

definition wanted_service ::
  "defaults \<Rightarrow> reconciler \<Rightarrow> (egress \<Rightarrow> object_meta \<Rightarrow> err + object_meta) \<Rightarrow> egress \<Rightarrow> service \<Rightarrow> service \<Rightarrow> bool" where
  "wanted_service df r setref eg old s \<longleftrightarrow>
     (if om_DeletionTimestamp (svc_Meta old) \<noteq> None then stored_svc df old s
      else svc_Type s = ''ClusterIP'' \<and> svc_Selector s = appLabels (eg_Name eg) \<and> svc_ClusterIP s \<noteq> [] \<and>
        svc_Ports s = [\<lparr>sp_Port = er_Port r, sp_TargetPort = IntVal (er_Port r), sp_Protocol = ''UDP''\<rparr>] \<and>
        (svc_SessionAffinity s, svc_SessionAffinityConfig s) =
          df_affinity df (eg_SessionAffinity eg, if eg_SessionAffinityConfig eg = None then svc_SessionAffinityConfig old else eg_SessionAffinityConfig eg) \<and>
        appLabels (eg_Name eg) \<subseteq>\<^sub>m om_Labels (svc_Meta s) \<and> owned setref eg (svc_Meta old) (svc_Meta s))"

definition wanted_pdb ::
  "(egress \<Rightarrow> object_meta \<Rightarrow> err + object_meta) \<Rightarrow> egress \<Rightarrow> pdb_spec \<Rightarrow> pdb \<Rightarrow> pdb \<Rightarrow> bool" where
  "wanted_pdb setref eg spec old s \<longleftrightarrow>
     (if om_DeletionTimestamp (pdb_Meta old) \<noteq> None then stored_pdb old s
      else pdb_Selector s = Some (appLabels (eg_Name eg)) \<and>
        pdb_MinAvailable s = (if pb_MinAvailable spec = None then pdb_MinAvailable old else pb_MinAvailable spec) \<and>
        pdb_MaxUnavailable s = (if pb_MaxUnavailable spec = None then pdb_MaxUnavailable old else pb_MaxUnavailable spec) \<and>
        appLabels (eg_Name eg) \<subseteq>\<^sub>m om_Labels (pdb_Meta s) \<and> owned setref eg (pdb_Meta old) (pdb_Meta s))"

text \<open>What the mutation makes of the metadata.\<close>

lemma own_new_fields:
  assumes "keeps_meta setref" "own_new setref eg (with_labels L old) = Inr m"
  shows "om_Labels m = om_Labels old ++ L" "om_DeletionTimestamp m = om_DeletionTimestamp old"
    "om_CreationTimestamp old \<noteq> None \<Longrightarrow> m = with_labels L old"
  using assms by (auto simp: own_new_def keeps_meta_def with_labels_def split: if_splits)

lemma own_new_owned:
  assumes "own_new setref eg (with_labels (appLabels (eg_Name eg)) old) = Inr m" "timed m m'"
  shows "owned setref eg old m'"
  using assms timed_fields(4)[OF assms(2)] by (auto simp: own_new_def owned_def with_labels_def split: if_splits)

lemma list_all2_member: "list_all2 P xs ys \<Longrightarrow> x \<in> set xs \<Longrightarrow> \<exists>y\<in>set ys. P x y"
  by (metis in_set_conv_nth list_all2_conv_all_nth)

lemma filled_egress:
  assumes "filled_template (dep_Template (reconcilePodTemplate r eg d)) t"
  shows "runs_gateway eg t"
proof -
  obtain c0 where "egress_container r eg c0 \<in> set (ps_Containers (out_spec r eg d))" by (rule out_egress)
  with assms obtain c where c: "c \<in> set (ps_Containers (pt_Spec t))" "filled_container (egress_container r eg c0) c"
    unfolding filled_template_def by (meson list_all2_member)
  have "e \<in> set (c_Env c)" if "e \<in> set (c_Env (egress_container r eg c0))" "\<forall>x. ev_From e \<noteq> OtherSource x" for e
  proof -
    from c(2) that(1) obtain e' where "e' \<in> set (c_Env c)" "filled_env e e'"
      unfolding filled_container_def by (meson list_all2_member)
    with that(2) show ?thesis by (cases e; cases e'; cases "ev_From e") (auto simp: filled_env_def)
  qed
  then have "{\<lparr>ev_Name = EnvPodNamespace, ev_From = Value (eg_Namespace eg)\<rparr>, \<lparr>ev_Name = EnvEgressName, ev_From = Value (eg_Name eg)\<rparr>,
         \<lparr>ev_Name = EnvAddresses, ev_From = FieldRef ''status.podIPs''\<rparr>} \<subseteq> set (c_Env c)"
    by (simp add: egress_container_def)
  moreover have "c_Name c = ''egress''" "map_option sc_Privileged (c_SecurityContext c) = Some True"
    using c(2) by (simp_all add: filled_container_def) (simp add: egress_container_def)
  moreover have "ps_ServiceAccountName (pt_Spec t) = ''egress''" "appLabels (eg_Name eg) \<subseteq>\<^sub>m pt_Labels t"
    using assms by (auto simp: filled_template_def out_fields egressServiceAccountName_def map_le_map_add)
  ultimately show ?thesis using c(1) unfolding runs_gateway_def EnvPodNamespace_def EnvEgressName_def EnvAddresses_def by blast
qed

text \<open>The result of the mutation, field by field.\<close>

lemma mutate_deployment_fields:
  assumes "mutate_deployment r setref eg old = Inr d" "om_DeletionTimestamp (dep_Meta old) = None"
  obtains m where "own_new setref eg (with_labels (appLabels (eg_Name eg)) (dep_Meta old)) = Inr m"
    "d = old\<lparr>dep_Meta := m, dep_Selector := (if om_CreationTimestamp (dep_Meta old) = None then Some (appLabels (eg_Name eg)) else dep_Selector old),
       dep_Replicas := Some (eg_Replicas eg), dep_Strategy := (if eg_Strategy eg = None then dep_Strategy old else eg_Strategy eg),
       dep_Template := dep_Template (reconcilePodTemplate r eg old)\<rparr>"
  using assms
  by (cases old)
    (auto simp: mutate_deployment_def reconcilePodTemplate_def Let_def split: sum.splits prod.splits option.splits if_splits)

lemma mutate_deployment_wanted:
  assumes "lawful_defaults df" "keeps_meta setref" "mutate_deployment r setref eg old = Inr d" "stored_dep df d s"
  shows "wanted_deployment df r setref eg old s"
proof (cases "om_DeletionTimestamp (dep_Meta old) = None")
  case False
  with assms(3,4) show ?thesis by (auto simp: mutate_deployment_def wanted_deployment_def)
next
  case True
  from mutate_deployment_fields[OF assms(3) True] obtain m where m: "own_new setref eg (with_labels (appLabels (eg_Name eg)) (dep_Meta old)) = Inr m"
    and d: "d = old\<lparr>dep_Meta := m, dep_Selector := (if om_CreationTimestamp (dep_Meta old) = None then Some (appLabels (eg_Name eg)) else dep_Selector old),
       dep_Replicas := Some (eg_Replicas eg), dep_Strategy := (if eg_Strategy eg = None then dep_Strategy old else eg_Strategy eg),
       dep_Template := dep_Template (reconcilePodTemplate r eg old)\<rparr>" .
  from assms(4) obtain m' where m': "timed m m'" and s: "s = d\<lparr>dep_Meta := m', dep_Strategy := df_strategy df (dep_Strategy d),
      dep_Template := df_template df (dep_Template d)\<rparr>" by (auto simp: stored_dep_def d)
  have "filled_template (dep_Template (reconcilePodTemplate r eg old)) (df_template df (dep_Template (reconcilePodTemplate r eg old)))"
    using assms(1) by (simp add: lawful_defaults_def)
  from filled_egress[OF this] own_new_owned[OF m m'] own_new_fields(1)[OF assms(2) m] timed_fields(2)[OF m'] True show ?thesis
    by (simp add: wanted_deployment_def s d map_le_map_add)
qed

text \<open>
  Once stored, an object stays as it is: what the mutation makes of it is stored as the
  same object again, although the code first resets the fields that the server filled in.
\<close>

lemma reconcilePodTemplate_again:
  assumes "pt_Annotations (dep_Template y) = pt_Annotations (dep_Template (reconcilePodTemplate r eg x))"
  shows "dep_Template (reconcilePodTemplate r eg y) = dep_Template (reconcilePodTemplate r eg x)"
  using assms by (auto simp: reconcilePodTemplate_def Let_def split: prod.splits option.splits)

lemma mutate_deployment_settles:
  assumes df: "lawful_defaults df" and k: "keeps_meta setref" and c: "mutate_deployment r setref eg old = Inr d" and st: "stored_dep df d s"
  shows "\<exists>d'. mutate_deployment r setref eg s = Inr d' \<and> stored_dep df d' s \<and> om_CreationTimestamp (dep_Meta d') \<noteq> None"
proof (cases "om_DeletionTimestamp (dep_Meta old) = None")
  case False
  with c st timed_fields[of "dep_Meta old"] df show ?thesis
    by (auto simp: mutate_deployment_def stored_dep_def timed_self lawful_defaults_def)
next
  case True
  let ?L = "appLabels (eg_Name eg)"
  from mutate_deployment_fields[OF c True] obtain m where m: "own_new setref eg (with_labels ?L (dep_Meta old)) = Inr m"
    and d: "d = old\<lparr>dep_Meta := m, dep_Selector := (if om_CreationTimestamp (dep_Meta old) = None then Some ?L else dep_Selector old),
       dep_Replicas := Some (eg_Replicas eg), dep_Strategy := (if eg_Strategy eg = None then dep_Strategy old else eg_Strategy eg),
       dep_Template := dep_Template (reconcilePodTemplate r eg old)\<rparr>" .
  let ?T = "dep_Template (reconcilePodTemplate r eg old)"
  from st obtain m' where m': "timed m m'" and s: "s = d\<lparr>dep_Meta := m', dep_Strategy := df_strategy df (dep_Strategy d), dep_Template := df_template df ?T\<rparr>"
    by (auto simp: stored_dep_def d)
  note f = timed_fields[OF m'] own_new_fields(1,2)[OF k m]
  have meta: "with_labels ?L m' = m'" by (cases m') (use f in \<open>simp add: with_labels_def\<close>)
  have "pt_Annotations (dep_Template s) = pt_Annotations ?T" using df by (simp add: s lawful_defaults_def filled_template_def)
  from reconcilePodTemplate_again[OF this] have T: "dep_Template (reconcilePodTemplate r eg s) = ?T" .
  have "mutate_deployment r setref eg s = Inr (reconcilePodTemplate r eg (s\<lparr>dep_Meta := with_labels ?L (dep_Meta s),
      dep_Replicas := Some (eg_Replicas eg), dep_Strategy := (case eg_Strategy eg of None \<Rightarrow> dep_Strategy s | Some s \<Rightarrow> Some s)\<rparr>))"
    using f True by (intro mutate_deployment_created) (simp_all add: s)
  then obtain d' where d': "mutate_deployment r setref eg s = Inr d'" by blast
  have sm: "dep_Meta s = m'" "om_DeletionTimestamp (dep_Meta s) = None" using f True by (simp_all add: s)
  from mutate_deployment_fields[OF d' sm(2), unfolded sm(1) T] obtain m2 where m2: "own_new setref eg (with_labels ?L m') = Inr m2"
    and d2: "d' = s\<lparr>dep_Meta := m2, dep_Selector := (if om_CreationTimestamp m' = None then Some ?L else dep_Selector s), dep_Replicas := Some (eg_Replicas eg),
       dep_Strategy := (if eg_Strategy eg = None then dep_Strategy s else eg_Strategy eg), dep_Template := ?T\<rparr>" .
  have "m2 = m'" using own_new_fields(3)[OF k m2] f(1) meta by simp
  moreover from f(1) obtain y where "om_CreationTimestamp m' = Some y" by blast
  ultimately have "stored_dep df d' s" unfolding stored_dep_def
    by (intro exI[of _ m'] conjI) (use df in \<open>simp_all add: d2 timed_self, simp add: s d lawful_defaults_def\<close>)
  moreover have "dep_Meta d' = m'" by (simp add: d2 \<open>m2 = m'\<close>)
  ultimately show ?thesis using d' f(1) by blast
qed

lemma mutate_service_fields:
  assumes "mutate_service r setref eg old = Inr d" "om_DeletionTimestamp (svc_Meta old) = None"
  obtains m where "own_new setref eg (with_labels (appLabels (eg_Name eg)) (svc_Meta old)) = Inr m"
    "d = old\<lparr>svc_Meta := m, svc_Type := ''ClusterIP'', svc_Selector := appLabels (eg_Name eg),
       svc_Ports := [\<lparr>sp_Port = er_Port r, sp_TargetPort = IntVal (er_Port r), sp_Protocol = ''UDP''\<rparr>],
       svc_SessionAffinity := eg_SessionAffinity eg,
       svc_SessionAffinityConfig := (if eg_SessionAffinityConfig eg = None then svc_SessionAffinityConfig old else eg_SessionAffinityConfig eg)\<rparr>"
  using assms by (auto simp: mutate_service_def Let_def split: sum.splits option.splits)

lemma mutate_service_wanted:
  assumes "keeps_meta setref" "mutate_service r setref eg old = Inr d" "stored_svc df d s"
  shows "wanted_service df r setref eg old s"
proof (cases "om_DeletionTimestamp (svc_Meta old) = None")
  case False
  with assms(2,3) show ?thesis by (auto simp: mutate_service_def wanted_service_def)
next
  case True
  from mutate_service_fields[OF assms(2) True] obtain m where m: "own_new setref eg (with_labels (appLabels (eg_Name eg)) (svc_Meta old)) = Inr m"
    and d: "d = old\<lparr>svc_Meta := m, svc_Type := ''ClusterIP'', svc_Selector := appLabels (eg_Name eg),
       svc_Ports := [\<lparr>sp_Port = er_Port r, sp_TargetPort = IntVal (er_Port r), sp_Protocol = ''UDP''\<rparr>],
       svc_SessionAffinity := eg_SessionAffinity eg,
       svc_SessionAffinityConfig := (if eg_SessionAffinityConfig eg = None then svc_SessionAffinityConfig old else eg_SessionAffinityConfig eg)\<rparr>" .
  from assms(3) obtain m' ip where m': "timed m m'" "ip \<noteq> []"
    and s: "s = d\<lparr>svc_Meta := m', svc_SessionAffinity := fst (df_affinity df (svc_SessionAffinity d, svc_SessionAffinityConfig d)),
       svc_SessionAffinityConfig := snd (df_affinity df (svc_SessionAffinity d, svc_SessionAffinityConfig d)), svc_ClusterIP := ip\<rparr>"
    by (auto simp: stored_svc_def d)
  from own_new_owned[OF m m'(1)] own_new_fields(1)[OF assms(1) m] timed_fields(2)[OF m'(1)] True m'(2) show ?thesis
    by (simp add: wanted_service_def s d map_le_map_add)
qed

lemma mutate_service_settles:
  assumes df: "lawful_defaults df" and k: "keeps_meta setref" and c: "mutate_service r setref eg old = Inr d" and st: "stored_svc df d s"
  shows "\<exists>d'. mutate_service r setref eg s = Inr d' \<and> stored_svc df d' s \<and> om_CreationTimestamp (svc_Meta d') \<noteq> None \<and> svc_ClusterIP d' \<noteq> []"
proof (cases "om_DeletionTimestamp (svc_Meta old) = None")
  case False
  with c st timed_fields[of "svc_Meta old"] df show ?thesis
    by (auto simp: mutate_service_def stored_svc_def timed_self lawful_defaults_def prod_eq_iff)
next
  case True
  let ?L = "appLabels (eg_Name eg)"
  from mutate_service_fields[OF c True] obtain m where m: "own_new setref eg (with_labels ?L (svc_Meta old)) = Inr m"
    and d: "d = old\<lparr>svc_Meta := m, svc_Type := ''ClusterIP'', svc_Selector := ?L,
       svc_Ports := [\<lparr>sp_Port = er_Port r, sp_TargetPort = IntVal (er_Port r), sp_Protocol = ''UDP''\<rparr>],
       svc_SessionAffinity := eg_SessionAffinity eg,
       svc_SessionAffinityConfig := (if eg_SessionAffinityConfig eg = None then svc_SessionAffinityConfig old else eg_SessionAffinityConfig eg)\<rparr>" .
  let ?p = "df_affinity df (svc_SessionAffinity d, svc_SessionAffinityConfig d)"
  from st obtain m' ip where m': "timed m m'" "ip \<noteq> []"
    and s: "s = d\<lparr>svc_Meta := m', svc_SessionAffinity := fst ?p, svc_SessionAffinityConfig := snd ?p, svc_ClusterIP := ip\<rparr>"
    by (auto simp: stored_svc_def d)
  note f = timed_fields[OF m'(1)] own_new_fields(1,2)[OF k m]
  have meta: "with_labels ?L m' = m'" by (cases m') (use f in \<open>simp add: with_labels_def\<close>)
  have "own_new setref eg (with_labels ?L (svc_Meta s)) = Inr m'" using f(1) by (auto simp: s own_new_def meta)
  moreover have "om_DeletionTimestamp (svc_Meta s) = None" using f True by (simp add: s)
  ultimately obtain d' where d': "mutate_service r setref eg s = Inr d'" by (simp add: mutate_service_def Let_def)
  from mutate_service_fields[OF this] \<open>om_DeletionTimestamp (svc_Meta s) = None\<close> \<open>own_new setref eg (with_labels ?L (svc_Meta s)) = Inr m'\<close>
  have d2: "d' = s\<lparr>svc_Meta := m', svc_Type := ''ClusterIP'', svc_Selector := ?L,
       svc_Ports := [\<lparr>sp_Port = er_Port r, sp_TargetPort = IntVal (er_Port r), sp_Protocol = ''UDP''\<rparr>],
       svc_SessionAffinity := eg_SessionAffinity eg,
       svc_SessionAffinityConfig := (if eg_SessionAffinityConfig eg = None then svc_SessionAffinityConfig s else eg_SessionAffinityConfig eg)\<rparr>"
    by (metis Inr_inject)
  have "df_affinity df (svc_SessionAffinity d', svc_SessionAffinityConfig d') = ?p"
    using df by (simp add: d2 s d lawful_defaults_def)
  then have "stored_svc df d' s" unfolding stored_svc_def
    by (intro exI[of _ m'] exI[of _ ip] conjI) (use f(1) m'(2) in \<open>simp_all add: d2 timed_self s d\<close>)
  with d' f(1) m'(2) show ?thesis by (simp add: d2 s)
qed

lemma mutate_pdb_fields:
  assumes "mutate_pdb setref eg spec old = Inr d" "om_DeletionTimestamp (pdb_Meta old) = None"
  obtains m where "own_new setref eg (with_labels (appLabels (eg_Name eg)) (pdb_Meta old)) = Inr m"
    "d = old\<lparr>pdb_Meta := m, pdb_MinAvailable := (if pb_MinAvailable spec = None then pdb_MinAvailable old else pb_MinAvailable spec),
       pdb_MaxUnavailable := (if pb_MaxUnavailable spec = None then pdb_MaxUnavailable old else pb_MaxUnavailable spec),
       pdb_Selector := Some (appLabels (eg_Name eg))\<rparr>"
  using assms by (auto simp: mutate_pdb_def split: sum.splits option.splits)

lemma mutate_pdb_wanted:
  assumes "keeps_meta setref" "mutate_pdb setref eg spec old = Inr d" "stored_pdb d s"
  shows "wanted_pdb setref eg spec old s"
proof (cases "om_DeletionTimestamp (pdb_Meta old) = None")
  case False
  with assms(2,3) show ?thesis by (auto simp: mutate_pdb_def wanted_pdb_def)
next
  case True
  from mutate_pdb_fields[OF assms(2) True] obtain m where m: "own_new setref eg (with_labels (appLabels (eg_Name eg)) (pdb_Meta old)) = Inr m"
    and d: "d = old\<lparr>pdb_Meta := m, pdb_MinAvailable := (if pb_MinAvailable spec = None then pdb_MinAvailable old else pb_MinAvailable spec),
       pdb_MaxUnavailable := (if pb_MaxUnavailable spec = None then pdb_MaxUnavailable old else pb_MaxUnavailable spec),
       pdb_Selector := Some (appLabels (eg_Name eg))\<rparr>" .
  from assms(3) obtain m' where m': "timed m m'" and s: "s = d\<lparr>pdb_Meta := m'\<rparr>" by (auto simp: stored_pdb_def d)
  from own_new_owned[OF m m'] own_new_fields(1)[OF assms(1) m] timed_fields(2)[OF m'] True show ?thesis
    by (simp add: wanted_pdb_def s d map_le_map_add)
qed

lemma mutate_pdb_settles:
  assumes k: "keeps_meta setref" and c: "mutate_pdb setref eg spec old = Inr d" and st: "stored_pdb d s"
  shows "\<exists>d'. mutate_pdb setref eg spec s = Inr d' \<and> stored_pdb d' s \<and> om_CreationTimestamp (pdb_Meta d') \<noteq> None"
proof (cases "om_DeletionTimestamp (pdb_Meta old) = None")
  case False
  with c st timed_fields[of "pdb_Meta old"] show ?thesis by (auto simp: mutate_pdb_def stored_pdb_def timed_self)
next
  case True
  let ?L = "appLabels (eg_Name eg)"
  from mutate_pdb_fields[OF c True] obtain m where m: "own_new setref eg (with_labels ?L (pdb_Meta old)) = Inr m"
    and d: "d = old\<lparr>pdb_Meta := m, pdb_MinAvailable := (if pb_MinAvailable spec = None then pdb_MinAvailable old else pb_MinAvailable spec),
       pdb_MaxUnavailable := (if pb_MaxUnavailable spec = None then pdb_MaxUnavailable old else pb_MaxUnavailable spec), pdb_Selector := Some ?L\<rparr>" .
  from st obtain m' where m': "timed m m'" and s: "s = d\<lparr>pdb_Meta := m'\<rparr>" by (auto simp: stored_pdb_def d)
  note f = timed_fields[OF m'] own_new_fields(1,2)[OF k m]
  have meta: "with_labels ?L m' = m'" by (cases m') (use f in \<open>simp add: with_labels_def\<close>)
  have "mutate_pdb setref eg spec s = Inr s"
    using f True by (cases old) (auto simp: mutate_pdb_def own_new_def s d meta split: option.splits)
  moreover have "stored_pdb s s" "om_CreationTimestamp (pdb_Meta s) \<noteq> None" using f(1) by (auto simp: stored_pdb_def s timed_self)
  ultimately show ?thesis by blast
qed

section \<open>The stages\<close>

definition sa_key :: "egress \<Rightarrow> nsname" where
  "sa_key eg = \<lparr>nn_Namespace = eg_Namespace eg, nn_Name = egressServiceAccountName\<rparr>"

text \<open>
  The role: where there was none, the one that may read pods; otherwise the one there was.
\<close>

definition role_ready :: "cluster \<Rightarrow> cluster \<Rightarrow> bool" where
  "role_ready K K' \<longleftrightarrow>
     cl_cr K' ''egress'' = (case cl_cr K ''egress'' of Some cr \<Rightarrow> Some cr
       | None \<Rightarrow> Some \<lparr>cr_Name = ''egress'',
           cr_Rules = [\<lparr>pr_APIGroups = [[]], pr_Resources = [''pods''], pr_Verbs = [''get'', ''list'', ''watch'']\<rparr>]\<rparr>)"

text \<open>
  The binding: its subjects are the service accounts \<open>egress\<close> of the namespaces \<open>N\<close> and no
  others, in the order of the names; a new one refers to the cluster role, and one there was
  keeps its reference.
\<close>

definition binding_ready :: "string set \<Rightarrow> cluster \<Rightarrow> cluster \<Rightarrow> bool" where
  "binding_ready N K K' \<longleftrightarrow> (\<exists>b ns. cl_crb K' ''egress'' = Some b \<and> crb_Name b = ''egress'' \<and>
     crb_RoleRef b = (case cl_crb K ''egress'' of Some b0 \<Rightarrow> crb_RoleRef b0 | None \<Rightarrow> (''rbac.authorization.k8s.io'', ''ClusterRole'', ''egress'')) \<and>
     crb_Subjects b = map (\<lambda>n. \<lparr>sj_Kind = ''ServiceAccount'', sj_Name = ''egress'', sj_Namespace = n\<rparr>) ns \<and>
     sorted ns \<and> distinct ns \<and> set ns = N)"

text \<open>The same of the binding's subjects alone.\<close>

definition bound_exactly :: "string set \<Rightarrow> cluster \<Rightarrow> bool" where
  "bound_exactly N K \<longleftrightarrow> (\<exists>b ns. cl_crb K egressCRBName = Some b \<and> crb_Name b = egressCRBName \<and>
     crb_Subjects b = map egress_subject ns \<and> sorted ns \<and> distinct ns \<and> set ns = N)"

lemma binding_bound: "binding_ready N K K' \<Longrightarrow> bound_exactly N K'"
proof -
  have "egress_subject = (\<lambda>n. \<lparr>sj_Kind = ''ServiceAccount'', sj_Name = ''egress'', sj_Namespace = n\<rparr>)"
    by (simp add: fun_eq_iff egress_subject_def egressServiceAccountName_def)
  then show "binding_ready N K K' \<Longrightarrow> bound_exactly N K'" by (auto simp: binding_ready_def bound_exactly_def egressCRBName_def)
qed

text \<open>
  A cluster in which nothing is left to do for an egress: what the mutations make of the
  objects there are is stored as these objects.
\<close>

definition settled ::
  "defaults \<Rightarrow> reconciler \<Rightarrow> (egress \<Rightarrow> object_meta \<Rightarrow> err + object_meta) \<Rightarrow> egress \<Rightarrow> string set \<Rightarrow> cluster \<Rightarrow> bool" where
  "settled df r setref eg N K \<longleftrightarrow> cl_sa K (sa_key eg) \<and> cl_cr K egressCRName \<noteq> None \<and> bound_exactly N K \<and>
     (\<exists>s d. cl_dep K (eg_key eg) = Some s \<and> mutate_deployment r setref eg s = Inr d \<and> stored_dep df d s \<and>
        om_CreationTimestamp (dep_Meta d) \<noteq> None) \<and>
     (\<exists>s d. cl_svc K (eg_key eg) = Some s \<and> mutate_service r setref eg s = Inr d \<and> stored_svc df d s \<and>
        om_CreationTimestamp (svc_Meta d) \<noteq> None \<and> svc_ClusterIP d \<noteq> []) \<and>
     (\<forall>spec. eg_PodDisruptionBudget eg = Some spec \<longrightarrow>
        (\<exists>s d. cl_pdb K (eg_key eg) = Some s \<and> mutate_pdb setref eg spec s = Inr d \<and> stored_pdb d s \<and> om_CreationTimestamp (pdb_Meta d) \<noteq> None))"

abbreviation old_dep :: "cluster \<Rightarrow> nsname \<Rightarrow> deployment" where
  "old_dep K key \<equiv> old_or (blank_deployment key) (cl_dep K key)"

abbreviation old_svc :: "cluster \<Rightarrow> nsname \<Rightarrow> service" where
  "old_svc K key \<equiv> old_or (blank_service key) (cl_svc K key)"

abbreviation old_pdb :: "cluster \<Rightarrow> nsname \<Rightarrow> pdb" where
  "old_pdb K key \<equiv> old_or (blank_pdb key) (cl_pdb K key)"

context kube_laws
begin

lemma sa_stage:
  assumes g: "good k" and c: "reconcileServiceAccount kb eg k = (Inr u, k')"
  shows "good k' \<and> (\<exists>m. view k' = (view k)\<lparr>cl_sa := m\<rparr> \<and> m (sa_key eg))"
proof -
  from c consider x where "kb_GetServiceAccount kb (sa_key eg) k = (Inr x, k')"
    | e t where "kb_GetServiceAccount kb (sa_key eg) k = (Inl e, t)" "kb_CreateServiceAccount kb (sa_key eg) t = (Inr u, k')"
    by (auto simp: reconcileServiceAccount_def sa_key_def[symmetric] Let_def catch_cases split: if_splits)
  then show ?thesis
  proof cases
    case (1 x)
    from meets_Inr[OF GetServiceAccount this g] show ?thesis by (auto intro!: exI[of _ "cl_sa (view k)"])
  next
    case (2 e t)
    from meets_Inl[OF GetServiceAccount 2(1) g] have t: "good t" "view t = view k" by auto
    from meets_Inr[OF CreateServiceAccount 2(2) t(1)] t(2) show ?thesis by auto
  qed
qed

lemma cr_stage:
  assumes g: "good k" and c: "reconcileCR kb k = (Inr u, k')"
  shows "good k' \<and> (\<exists>m. view k' = (view k)\<lparr>cl_cr := m\<rparr>) \<and> cl_cr (view k') egressCRName \<noteq> None \<and> role_ready (view k) (view k')"
proof -
  from c consider x where "kb_GetClusterRole kb egressCRName k = (Inr x, k')"
    | e t where "kb_GetClusterRole kb egressCRName k = (Inl e, t)" "IsNotFound e" "kb_CreateClusterRole kb egress_role t = (Inr u, k')"
    by (auto simp: reconcileCR_def catch_cases split: if_splits)
  then show ?thesis
  proof cases
    case (1 x)
    from meets_Inr[OF GetClusterRole this g] show ?thesis
      by (auto simp: get_ok_def role_ready_def egressCRName_def intro!: exI[of _ "cl_cr (view k)"])
  next
    case (2 e t)
    from meets_Inl[OF GetClusterRole 2(1) g] 2(2) have t: "good t" "view t = view k" "cl_cr (view k) egressCRName = None" by auto
    from meets_Inr[OF CreateClusterRole 2(3) t(1)] t(2,3) show ?thesis by (auto simp: egress_role_def role_ready_def egressCRName_def)
  qed
qed

lemma crb_stage:
  assumes g: "good k" and c: "reconcileCRB kb k = (Inr u, k')"
  shows "good k' \<and> (\<exists>m. view k' = (view k)\<lparr>cl_crb := m\<rparr>) \<and>
    binding_ready (eg_Namespace ` ran (cl_egress (view k))) (view k) (view k')"
proof -
  from c obtain crb t es t1 where q: "catch (kb_GetCRB kb egressCRBName) (\<lambda>q. case q of
          Inl e \<Rightarrow> if IsNotFound e then on_err (Errorw ''failed to create CRB resource'') (kb_CreateCRB kb new_crb)
            else throw (Errorw ''unable to get CRB'' e)
        | Inr crb \<Rightarrow> ret crb) k = (Inr crb, t)"
    and l: "kb_ListEgress kb t = (Inr es, t1)"
    and p: "kb_PatchCRB kb (crb\<lparr>crb_Subjects := map egress_subject (getNamespaces es)\<rparr>) crb t1 = (Inr u, k')"
    unfolding reconcileCRB_def bind_io_Inr on_err_Inr by blast
  from q consider "kb_GetCRB kb egressCRBName k = (Inr crb, t)"
    | e s where "kb_GetCRB kb egressCRBName k = (Inl e, s)" "IsNotFound e" "kb_CreateCRB kb new_crb s = (Inr crb, t)"
    by (auto simp: catch_cases on_err_Inr split: if_splits)
  then have t: "good t \<and> (\<exists>m. view t = (view k)\<lparr>cl_crb := m\<rparr>) \<and> get_ok (cl_crb (view t)) egressCRBName crb \<and> crb_Name crb = egressCRBName \<and>
    crb_RoleRef crb = (case cl_crb (view k) egressCRBName of Some b0 \<Rightarrow> crb_RoleRef b0 | None \<Rightarrow> (''rbac.authorization.k8s.io'', ''ClusterRole'', ''egress''))"
  proof cases
    case 1
    from meets_Inr[OF GetCRB this g] show ?thesis by (auto simp: get_ok_def intro!: exI[of _ "cl_crb (view k)"])
  next
    case (2 e s)
    from meets_Inl[OF GetCRB 2(1) g] 2(2) have s: "good s" "view s = view k" "cl_crb (view k) egressCRBName = None" by auto
    from meets_Inr[OF CreateCRB 2(3) s(1)] s(2,3) show ?thesis by (auto simp: new_crb_def get_ok_def egressCRName_def)
  qed
  then obtain m where tm: "good t" "view t = (view k)\<lparr>cl_crb := m\<rparr>" "get_ok (cl_crb (view t)) egressCRBName crb" "crb_Name crb = egressCRBName"
    and ref: "crb_RoleRef crb = (case cl_crb (view k) egressCRBName of Some b0 \<Rightarrow> crb_RoleRef b0 | None \<Rightarrow> (''rbac.authorization.k8s.io'', ''ClusterRole'', ''egress''))"
    by blast
  have eg: "cl_egress (view t) = cl_egress (view k)" by (simp add: tm(2))
  from meets_Inr[OF ListEgress l tm(1)] have t1: "good t1" "view t1 = view t" "set es = ran (cl_egress (view k))" by (simp_all add: eg)
  let ?b = "crb\<lparr>crb_Subjects := map egress_subject (getNamespaces es)\<rparr>"
  from meets_Inr[OF PatchCRB p t1(1)] tm(3,4) t1(2)
  have k': "good k'" "view k' = (view t)\<lparr>cl_crb := (cl_crb (view t))(egressCRBName \<mapsto> ?b)\<rparr>" by simp_all
  have "binding_ready (eg_Namespace ` ran (cl_egress (view k))) (view k) (view k')" unfolding binding_ready_def
    using tm(4) t1(3) ref
    by (intro exI[of _ ?b] exI[of _ "getNamespaces es"])
      (simp add: k'(2) getNamespaces_def egressCRBName_def egress_subject_def egressServiceAccountName_def)
  moreover have "view k' = (view k)\<lparr>cl_crb := (cl_crb (view t))(egressCRBName \<mapsto> ?b)\<rparr>" by (simp add: k'(2) tm(2))
  ultimately show ?thesis using k'(1) by blast
qed

lemma dep_stage:
  assumes g: "good k" and r: "keeps_meta setref" and c: "reconcileDeployment kb r setref eg k = (Inr u, k')"
  shows "good k' \<and> (\<exists>s. view k' = (view k)\<lparr>cl_dep := (cl_dep (view k))(eg_key eg \<mapsto> s)\<rparr> \<and>
    wanted_deployment df r setref eg (old_dep (view k) (eg_key eg)) s \<and>
    (\<exists>d. mutate_deployment r setref eg s = Inr d \<and> stored_dep df d s \<and> om_CreationTimestamp (dep_Meta d) \<noteq> None))"
  using meets_Inr[OF CreateOrUpdateDeployment c[unfolded reconcileDeployment_def on_err_Inr] g]
    mutate_deployment_wanted[OF defaulting r] mutate_deployment_settles[OF defaulting r] by blast

lemma svc_stage:
  assumes g: "good k" and r: "keeps_meta setref" and c: "reconcileService kb r setref eg k = (Inr u, k')"
  shows "good k' \<and> (\<exists>s. view k' = (view k)\<lparr>cl_svc := (cl_svc (view k))(eg_key eg \<mapsto> s)\<rparr> \<and>
    wanted_service df r setref eg (old_svc (view k) (eg_key eg)) s \<and>
    (\<exists>d. mutate_service r setref eg s = Inr d \<and> stored_svc df d s \<and> om_CreationTimestamp (svc_Meta d) \<noteq> None \<and> svc_ClusterIP d \<noteq> []))"
  using meets_Inr[OF CreateOrUpdateService c[unfolded reconcileService_def] g] mutate_service_wanted[OF r]
    mutate_service_settles[OF defaulting r] by blast

lemma pdb_stage:
  assumes g: "good k" and r: "keeps_meta setref" and c: "reconcilePDB kb setref eg k = (Inr u, k')"
  shows "good k' \<and> (\<exists>m. view k' = (view k)\<lparr>cl_pdb := m\<rparr>) \<and>
    (\<forall>spec. eg_PodDisruptionBudget eg = Some spec \<longrightarrow>
      (\<exists>s. cl_pdb (view k') (eg_key eg) = Some s \<and> wanted_pdb setref eg spec (old_pdb (view k) (eg_key eg)) s \<and>
        (\<exists>d. mutate_pdb setref eg spec s = Inr d \<and> stored_pdb d s \<and> om_CreationTimestamp (pdb_Meta d) \<noteq> None)))"
proof (cases "eg_PodDisruptionBudget eg")
  case None
  with c g show ?thesis by (auto simp: reconcilePDB_def intro!: exI[of _ "cl_pdb (view k)"])
next
  case (Some spec)
  with c have "kb_CreateOrUpdatePDB kb (eg_key eg) (mutate_pdb setref eg spec) k = (Inr u, k')"
    by (simp add: reconcilePDB_def on_err_Inr)
  from meets_Inr[OF CreateOrUpdatePDB this g] obtain d s where k': "good k'" and d: "mutate_pdb setref eg spec (old_pdb (view k) (eg_key eg)) = Inr d" "stored_pdb d s"
    and v: "view k' = (view k)\<lparr>cl_pdb := (cl_pdb (view k))(eg_key eg \<mapsto> s)\<rparr>" by blast
  from mutate_pdb_wanted[OF r d] mutate_pdb_settles[OF r d] k' Some show ?thesis by (auto simp: v)
qed

lemma status_keeps:
  assumes g: "good k" and c: "updateStatus kb selstr eg k = (q, k')"
  shows "good k' \<and> (\<exists>m. view k' = (view k)\<lparr>cl_egress := m\<rparr>)"
proof -
  obtain d t where d: "kb_GetDeployment kb (eg_key eg) k = (d, t)" by fastforce
  from meets_run[OF GetDeployment this g] have t: "good t" "view t = view k" by (auto simp: same_def split: sum.splits)
  then have base: "good t \<and> (\<exists>m. view t = (view k)\<lparr>cl_egress := m\<rparr>)" by (auto intro!: exI[of _ "cl_egress (view k)"])
  have up: "kb_UpdateEgressStatus kb e t = (p, k') \<Longrightarrow> good k' \<and> (\<exists>m. view k' = (view k)\<lparr>cl_egress := m\<rparr>)" for e p
    using meets_run[OF UpdateEgressStatus _ t(1), of e p k'] t(2) by (auto split: sum.splits)
  from c d consider "k' = t" | e p where "kb_UpdateEgressStatus kb e t = (p, k')"
    by (auto simp: updateStatus_def bind_io_def on_err_def throw_def ret_def split: sum.splits prod.splits if_splits)
  then show ?thesis using base up by cases auto
qed

lemma Reconcile_returns:
  assumes g: "good k" and r: "keeps_meta setref" and eg: "cl_egress (view k) req = Some eg" "om_DeletionTimestamp (eg_Meta eg) = None"
    and c: "egress_Reconcile kb r setref selstr req k = (Inr u, k')"
  shows "good k' \<and> eg_key eg = req \<and> cl_sa (view k') (sa_key eg) \<and> role_ready (view k) (view k') \<and>
    binding_ready (eg_Namespace ` ran (cl_egress (view k))) (view k) (view k') \<and>
    (\<exists>s. cl_dep (view k') req = Some s \<and> wanted_deployment df r setref eg (old_dep (view k) req) s) \<and>
    (\<exists>s. cl_svc (view k') req = Some s \<and> wanted_service df r setref eg (old_svc (view k) req) s) \<and>
    (\<forall>spec. eg_PodDisruptionBudget eg = Some spec \<longrightarrow>
       (\<exists>s. cl_pdb (view k') req = Some s \<and> wanted_pdb setref eg spec (old_pdb (view k) req) s)) \<and>
    settled df r setref eg (eg_Namespace ` ran (cl_egress (view k))) (view k')"
proof -
  obtain q k0 where get: "kb_GetEgress kb req k = (q, k0)" by fastforce
  from meets_run[OF GetEgress get g] eg have k0: "good k0" "view k0 = view k" by (auto split: sum.splits)
  have q: "q = Inr eg \<and> eg_key eg = req"
  proof (cases q)
    case (Inl e)
    with meets_Inl[OF GetEgress get[unfolded Inl] g] eg(1) c get show ?thesis
      by (auto simp: egress_Reconcile_def catch_eq split: if_splits)
  next
    case (Inr x)
    with meets_Inr[OF GetEgress get[unfolded Inr] g] eg(1) show ?thesis by (auto simp: get_ok_def)
  qed
  with c get eg(2) have "with_defer (updateStatus kb selstr eg) (egress_stages kb r setref eg) k0 = (Inr u, k')"
    by (auto simp: egress_Reconcile_def catch_eq)
  then obtain k7 d where st: "egress_stages kb r setref eg k0 = (Inr u, k7)" and d: "updateStatus kb selstr eg k7 = (d, k')"
    by (auto simp: with_defer_def split: prod.splits) (metis prod.collapse)
  from st obtain a b cc e f k1 k2 k3 k4 k5 where s1: "reconcileServiceAccount kb eg k0 = (Inr a, k1)" and s2: "reconcileCR kb k1 = (Inr b, k2)"
    and s3: "reconcileCRB kb k2 = (Inr cc, k3)" and s4: "reconcileDeployment kb r setref eg k3 = (Inr e, k4)"
    and s5: "reconcileService kb r setref eg k4 = (Inr f, k5)" and s6: "reconcilePDB kb setref eg k5 = (Inr u, k7)"
    unfolding egress_stages_def bind_io_Inr by blast
  from sa_stage[OF k0(1) s1] obtain m1 where k1: "good k1" "view k1 = (view k)\<lparr>cl_sa := m1\<rparr>" "m1 (sa_key eg)" using k0(2) by auto
  from cr_stage[OF k1(1) s2] obtain m2 where k2: "good k2" "view k2 = (view k1)\<lparr>cl_cr := m2\<rparr>" "m2 egressCRName \<noteq> None"
    "role_ready (view k1) (view k2)" by auto
  from crb_stage[OF k2(1) s3] obtain m3 where k3: "good k3" "view k3 = (view k2)\<lparr>cl_crb := m3\<rparr>"
    "binding_ready (eg_Namespace ` ran (cl_egress (view k2))) (view k2) (view k3)" by auto
  from dep_stage[OF k3(1) r s4] obtain x dx where k4: "good k4" "view k4 = (view k3)\<lparr>cl_dep := (cl_dep (view k3))(eg_key eg \<mapsto> x)\<rparr>"
    "wanted_deployment df r setref eg (old_dep (view k3) (eg_key eg)) x"
    and x: "mutate_deployment r setref eg x = Inr dx" "stored_dep df dx x" "om_CreationTimestamp (dep_Meta dx) \<noteq> None" by blast
  from svc_stage[OF k4(1) r s5] obtain y dy where k5: "good k5" "view k5 = (view k4)\<lparr>cl_svc := (cl_svc (view k4))(eg_key eg \<mapsto> y)\<rparr>"
    "wanted_service df r setref eg (old_svc (view k4) (eg_key eg)) y"
    and y: "mutate_service r setref eg y = Inr dy" "stored_svc df dy y" "om_CreationTimestamp (svc_Meta dy) \<noteq> None" "svc_ClusterIP dy \<noteq> []" by blast
  from pdb_stage[OF k5(1) r s6] obtain m6 where k7: "good k7" "view k7 = (view k5)\<lparr>cl_pdb := m6\<rparr>"
    and p: "\<forall>spec. eg_PodDisruptionBudget eg = Some spec \<longrightarrow>
      (\<exists>s. cl_pdb (view k7) (eg_key eg) = Some s \<and> wanted_pdb setref eg spec (old_pdb (view k5) (eg_key eg)) s \<and>
        (\<exists>d. mutate_pdb setref eg spec s = Inr d \<and> stored_pdb d s \<and> om_CreationTimestamp (pdb_Meta d) \<noteq> None))" by blast
  from status_keeps[OF k7(1) d] obtain m8 where k': "good k'" "view k' = (view k7)\<lparr>cl_egress := m8\<rparr>" by auto
  let ?N = "eg_Namespace ` ran (cl_egress (view k))"
  note v = k'(2) k7(2) k5(2) k4(2) k3(2) k2(2) k1(2)
  have same: "cl_dep (view k3) = cl_dep (view k)" "cl_svc (view k4) = cl_svc (view k)" "cl_pdb (view k5) = cl_pdb (view k)" by (simp_all add: v)
  have role: "role_ready (view k) (view k')" using k2(4) by (simp add: role_ready_def v)
  have bind: "binding_ready ?N (view k) (view k')" using k3(3) by (simp add: binding_ready_def v)
  have sa: "cl_sa (view k') (sa_key eg)" "cl_cr (view k') egressCRName \<noteq> None" using k1(3) k2(3) by (simp_all add: v)
  have dep: "cl_dep (view k') (eg_key eg) = Some x" "wanted_deployment df r setref eg (old_dep (view k) (eg_key eg)) x"
    using k4(3) by (simp_all add: same) (simp add: v)
  have svc: "cl_svc (view k') (eg_key eg) = Some y" "wanted_service df r setref eg (old_svc (view k) (eg_key eg)) y"
    using k5(3) by (simp_all add: same) (simp add: v)
  have pdb: "cl_pdb (view k') = cl_pdb (view k7)" by (simp add: k'(2))
  have pw: "\<exists>s. cl_pdb (view k') (eg_key eg) = Some s \<and> wanted_pdb setref eg spec (old_pdb (view k) (eg_key eg)) s"
    if "eg_PodDisruptionBudget eg = Some spec" for spec using p that unfolding same pdb by blast
  have ps: "\<exists>s d. cl_pdb (view k') (eg_key eg) = Some s \<and> mutate_pdb setref eg spec s = Inr d \<and> stored_pdb d s \<and> om_CreationTimestamp (pdb_Meta d) \<noteq> None"
    if "eg_PodDisruptionBudget eg = Some spec" for spec using p that unfolding pdb by blast
  have "settled df r setref eg ?N (view k')" unfolding settled_def
    using sa binding_bound[OF bind] dep(1) x svc(1) y ps by blast
  with k'(1) q sa role bind dep svc pw show ?thesis by auto
qed

text \<open>Whatever a stage returns, it writes objects of one kind only.\<close>

lemma sa_only:
  assumes g: "good k" and c: "reconcileServiceAccount kb eg k = (q, k')"
  shows "good k' \<and> (\<exists>m. view k' = (view k)\<lparr>cl_sa := m\<rparr>)"
proof -
  obtain p t where get: "kb_GetServiceAccount kb (sa_key eg) k = (p, t)" by fastforce
  from meets_run[OF GetServiceAccount get g] have t: "good t" "view t = view k" by (auto simp: same_def split: sum.splits)
  from c get consider "k' = t" | z where "kb_CreateServiceAccount kb (sa_key eg) t = (z, k')"
    by (auto simp: reconcileServiceAccount_def sa_key_def[symmetric] Let_def catch_eq on_err_def split: if_splits sum.splits prod.splits)
  then show ?thesis
  proof cases
    case 1
    with t show ?thesis by (auto intro!: exI[of _ "cl_sa (view k)"])
  next
    case (2 z)
    from meets_run[OF CreateServiceAccount 2 t(1)] t(2) show ?thesis by (auto split: sum.splits)
  qed
qed

lemma cr_only:
  assumes g: "good k" and c: "reconcileCR kb k = (q, k')"
  shows "good k' \<and> (\<exists>m. view k' = (view k)\<lparr>cl_cr := m\<rparr>)"
proof -
  obtain p t where get: "kb_GetClusterRole kb egressCRName k = (p, t)" by fastforce
  from meets_run[OF GetClusterRole get g] have t: "good t" "view t = view k" by (auto simp: same_def split: sum.splits)
  from c get consider "k' = t" | z where "kb_CreateClusterRole kb egress_role t = (z, k')"
    by (auto simp: reconcileCR_def catch_eq on_err_def split: if_splits sum.splits prod.splits)
  then show ?thesis
  proof cases
    case 1
    with t show ?thesis by (auto intro!: exI[of _ "cl_cr (view k)"])
  next
    case (2 z)
    from meets_run[OF CreateClusterRole 2 t(1)] t(2) show ?thesis by (auto split: sum.splits)
  qed
qed

lemma crb_only:
  assumes g: "good k" and c: "reconcileCRB kb k = (Inl e, k')"
  shows "good k' \<and> (\<exists>m. view k' = (view k)\<lparr>cl_crb := m\<rparr>)"
proof -
  obtain p t where get: "catch (kb_GetCRB kb egressCRBName) (\<lambda>q. case q of
          Inl e \<Rightarrow> if IsNotFound e then on_err (Errorw ''failed to create CRB resource'') (kb_CreateCRB kb new_crb)
            else throw (Errorw ''unable to get CRB'' e)
        | Inr crb \<Rightarrow> ret crb) k = (p, t)" by fastforce
  then obtain p0 t0 where get0: "kb_GetCRB kb egressCRBName k = (p0, t0)"
    and "t = t0 \<or> (\<exists>z. kb_CreateCRB kb new_crb t0 = (z, t))"
    by (auto simp: catch_cases dest: on_err_run split: if_splits)
  moreover from meets_run[OF GetCRB get0 g] have "good t0" "view t0 = view k" by (auto simp: same_def split: sum.splits)
  moreover have "view k = (view k)\<lparr>cl_crb := cl_crb (view k)\<rparr>" by simp
  moreover have "good t \<and> (\<exists>m. view t = (view t0)\<lparr>cl_crb := m\<rparr>)" if "kb_CreateCRB kb new_crb t0 = (z, t)" "good t0" for z
    using meets_run[OF CreateCRB that] by (auto split: sum.splits)
  ultimately have t: "good t \<and> (\<exists>m. view t = (view k)\<lparr>cl_crb := m\<rparr>)" by metis
  from c get consider "k' = t" | x where "kb_ListEgress kb t = (Inl x, k')"
    | es t1 crb' crb x where "kb_ListEgress kb t = (Inr es, t1)" "kb_PatchCRB kb crb' crb t1 = (Inl x, k')"
    by (auto simp only: reconcileCRB_def bind_io_Inl on_err_Inl on_err_Inr prod.inject)
  then show ?thesis
  proof cases
    case 1
    with t show ?thesis by simp
  next
    case (2 x)
    from meets_Inl[OF ListEgress 2] t show ?thesis by (auto simp: same_def)
  next
    case (3 es t1 crb' crb x)
    from meets_Inr[OF ListEgress 3(1)] t have "good t1" "view t1 = view t" by auto
    with meets_Inl[OF PatchCRB 3(2)] t show ?thesis by auto
  qed
qed

lemma dep_only:
  assumes g: "good k" and c: "reconcileDeployment kb r setref eg k = (q, k')"
  shows "good k' \<and> (\<exists>m. view k' = (view k)\<lparr>cl_dep := m\<rparr>)"
proof -
  from c obtain z where "kb_CreateOrUpdateDeployment kb (eg_key eg) (mutate_deployment r setref eg) k = (z, k')"
    by (auto simp: reconcileDeployment_def on_err_def split: sum.splits prod.splits)
  from meets_run[OF CreateOrUpdateDeployment this g] show ?thesis by (auto split: sum.splits)
qed

lemma svc_only:
  assumes g: "good k" and c: "reconcileService kb r setref eg k = (q, k')"
  shows "good k' \<and> (\<exists>m. view k' = (view k)\<lparr>cl_svc := m\<rparr>)"
  using meets_run[OF CreateOrUpdateService c[unfolded reconcileService_def] g] by (auto split: sum.splits)

lemma pdb_only:
  assumes g: "good k" and c: "reconcilePDB kb setref eg k = (q, k')"
  shows "good k' \<and> (\<exists>m. view k' = (view k)\<lparr>cl_pdb := m\<rparr>)"
proof (cases "eg_PodDisruptionBudget eg")
  case None
  with c g show ?thesis by (auto simp: reconcilePDB_def intro!: exI[of _ "cl_pdb (view k)"])
next
  case (Some spec)
  with c obtain z where "kb_CreateOrUpdatePDB kb (eg_key eg) (mutate_pdb setref eg spec) k = (z, k')"
    by (auto simp: reconcilePDB_def on_err_def split: sum.splits prod.splits)
  from meets_run[OF CreateOrUpdatePDB this g] show ?thesis by (auto split: sum.splits)
qed

text \<open>
  The order of the stages: no deployment is written before the pods' permissions are
  in place, no service before the deployment, no disruption budget before the service.
\<close>

lemma workload_order:
  assumes g: "good k" and r: "keeps_meta setref"
    and c: "bind_io (reconcileDeployment kb r setref eg) (\<lambda>_. bind_io (reconcileService kb r setref eg) (\<lambda>_. reconcilePDB kb setref eg)) k = (q, k')"
  shows "good k' \<and> (\<exists>d s p. view k' = (view k)\<lparr>cl_dep := d, cl_svc := s, cl_pdb := p\<rparr> \<and>
    (s \<noteq> cl_svc (view k) \<or> p \<noteq> cl_pdb (view k) \<longrightarrow> (\<exists>x. d (eg_key eg) = Some x \<and> wanted_deployment df r setref eg (old_dep (view k) (eg_key eg)) x)) \<and>
    (p \<noteq> cl_pdb (view k) \<longrightarrow> (\<exists>x. s (eg_key eg) = Some x \<and> wanted_service df r setref eg (old_svc (view k) (eg_key eg)) x)))"
  using c
proof (cases rule: bind_io_state)
  case (err e)
  from dep_only[OF g err(1)] show ?thesis
    by (auto intro!: exI[of _ "cl_svc (view k)"] exI[of _ "cl_pdb (view k)"])
next
  case (ok u t)
  from dep_stage[OF g r ok(1)] obtain x where t: "good t" "view t = (view k)\<lparr>cl_dep := (cl_dep (view k))(eg_key eg \<mapsto> x)\<rparr>"
    "wanted_deployment df r setref eg (old_dep (view k) (eg_key eg)) x" by blast
  from ok(2) show ?thesis
  proof (cases rule: bind_io_state)
    case (err e)
    from svc_only[OF t(1) err(1)] t(2,3) show ?thesis
      by (auto intro!: exI[of _ "(cl_dep (view k))(eg_key eg \<mapsto> x)"] exI[of _ "cl_pdb (view k)"])
  next
    case (ok v w)
    from svc_stage[OF t(1) r ok(1)] obtain y where w: "good w" "view w = (view t)\<lparr>cl_svc := (cl_svc (view t))(eg_key eg \<mapsto> y)\<rparr>"
      "wanted_service df r setref eg (old_svc (view t) (eg_key eg)) y" by blast
    from pdb_only[OF w(1) ok(2)] t(2,3) w(2,3) show ?thesis
      by (auto intro!: exI[of _ "(cl_dep (view k))(eg_key eg \<mapsto> x)"] exI[of _ "(cl_svc (view k))(eg_key eg \<mapsto> y)"])
  qed
qed

lemma stages_order:
  assumes g: "good k" and r: "keeps_meta setref" and c: "egress_stages kb r setref eg k = (q, k')"
  shows "good k' \<and>
    (cl_dep (view k') \<noteq> cl_dep (view k) \<or> cl_svc (view k') \<noteq> cl_svc (view k) \<or> cl_pdb (view k') \<noteq> cl_pdb (view k) \<longrightarrow>
       cl_sa (view k') (sa_key eg) \<and> role_ready (view k) (view k') \<and>
       binding_ready (eg_Namespace ` ran (cl_egress (view k))) (view k) (view k')) \<and>
    (cl_svc (view k') \<noteq> cl_svc (view k) \<or> cl_pdb (view k') \<noteq> cl_pdb (view k) \<longrightarrow>
       (\<exists>x. cl_dep (view k') (eg_key eg) = Some x \<and> wanted_deployment df r setref eg (old_dep (view k) (eg_key eg)) x)) \<and>
    (cl_pdb (view k') \<noteq> cl_pdb (view k) \<longrightarrow> (\<exists>x. cl_svc (view k') (eg_key eg) = Some x \<and> wanted_service df r setref eg (old_svc (view k) (eg_key eg)) x))"
  using c unfolding egress_stages_def
proof (cases rule: bind_io_state)
  case (err e)
  from sa_only[OF g err(1)] show ?thesis by auto
next
  case (ok u1 k1)
  from sa_stage[OF g ok(1)] obtain m1 where k1: "good k1" "view k1 = (view k)\<lparr>cl_sa := m1\<rparr>" "m1 (sa_key eg)" by auto
  from ok(2) show ?thesis
  proof (cases rule: bind_io_state)
    case (err e)
    from cr_only[OF k1(1) err(1)] k1 show ?thesis by auto
  next
    case (ok u2 k2)
    from cr_stage[OF k1(1) ok(1)] obtain m2 where k2: "good k2" "view k2 = (view k1)\<lparr>cl_cr := m2\<rparr>" "role_ready (view k1) (view k2)" by auto
    from ok(2) show ?thesis
    proof (cases rule: bind_io_state)
      case (err e)
      from crb_only[OF k2(1) err(1)] k1 k2 show ?thesis by auto
    next
      case (ok u3 k3)
      from crb_stage[OF k2(1) ok(1)] obtain m3 where k3: "good k3" "view k3 = (view k2)\<lparr>cl_crb := m3\<rparr>"
        "binding_ready (eg_Namespace ` ran (cl_egress (view k2))) (view k2) (view k3)" by auto
      have vs: "cl_dep (view k3) = cl_dep (view k)" "cl_svc (view k3) = cl_svc (view k)" "cl_pdb (view k3) = cl_pdb (view k)" by (simp_all add: k3(2) k2(2) k1(2))
      from workload_order[OF k3(1) r ok(2)] obtain d s p where k': "good k'" "view k' = (view k3)\<lparr>cl_dep := d, cl_svc := s, cl_pdb := p\<rparr>"
        and o: "s \<noteq> cl_svc (view k3) \<or> p \<noteq> cl_pdb (view k3) \<longrightarrow> (\<exists>x. d (eg_key eg) = Some x \<and> wanted_deployment df r setref eg (old_dep (view k3) (eg_key eg)) x)"
          "p \<noteq> cl_pdb (view k3) \<longrightarrow> (\<exists>x. s (eg_key eg) = Some x \<and> wanted_service df r setref eg (old_svc (view k3) (eg_key eg)) x)" by blast
      have "binding_ready (eg_Namespace ` ran (cl_egress (view k))) (view k) (view k')"
        using k3(3) by (simp add: binding_ready_def k'(2) k3(2) k2(2) k1(2))
      moreover have "role_ready (view k) (view k')" using k2(3) by (simp add: role_ready_def k'(2) k3(2) k2(2) k1(2))
      ultimately show ?thesis using k' o k3(2) k2(2) k1(2,3) by (simp add: vs)
    qed
  qed
qed

lemma Reconcile_order:
  assumes g: "good k" and r: "keeps_meta setref" and eg: "cl_egress (view k) req = Some eg" "om_DeletionTimestamp (eg_Meta eg) = None"
    and c: "egress_Reconcile kb r setref selstr req k = (q, k')"
  shows "(cl_dep (view k') \<noteq> cl_dep (view k) \<or> cl_svc (view k') \<noteq> cl_svc (view k) \<or> cl_pdb (view k') \<noteq> cl_pdb (view k) \<longrightarrow>
       cl_sa (view k') (sa_key eg) \<and> role_ready (view k) (view k') \<and>
       binding_ready (eg_Namespace ` ran (cl_egress (view k))) (view k) (view k')) \<and>
    (cl_svc (view k') \<noteq> cl_svc (view k) \<or> cl_pdb (view k') \<noteq> cl_pdb (view k) \<longrightarrow>
       (\<exists>x. cl_dep (view k') req = Some x \<and> wanted_deployment df r setref eg (old_dep (view k) req) x)) \<and>
    (cl_pdb (view k') \<noteq> cl_pdb (view k) \<longrightarrow> (\<exists>x. cl_svc (view k') req = Some x \<and> wanted_service df r setref eg (old_svc (view k) req) x))"
proof -
  obtain p k0 where get: "kb_GetEgress kb req k = (p, k0)" by fastforce
  show ?thesis
  proof (cases p)
    case (Inl e)
    with meets_Inl[OF GetEgress get[unfolded Inl] g] c get have "view k' = view k"
      by (auto simp: egress_Reconcile_def catch_eq split: if_splits)
    then show ?thesis by simp
  next
    case (Inr x)
    with meets_Inr[OF GetEgress get[unfolded Inr] g] eg(1) have p: "p = Inr eg" "eg_key eg = req" "good k0" "view k0 = view k"
      by (auto simp: get_ok_def)
    with c get eg(2) have "with_defer (updateStatus kb selstr eg) (egress_stages kb r setref eg) k0 = (q, k')"
      by (auto simp: egress_Reconcile_def catch_eq)
    then obtain k7 d where st: "egress_stages kb r setref eg k0 = (q, k7)" and d: "updateStatus kb selstr eg k7 = (d, k')"
      by (auto simp: with_defer_def split: prod.splits) (metis prod.collapse)
    from stages_order[OF p(3) r st] have "good k7" by simp
    from status_keeps[OF this d] obtain m where k': "view k' = (view k7)\<lparr>cl_egress := m\<rparr>" by auto
    have "role_ready (view k) (view k') = role_ready (view k) (view k7)" "binding_ready N (view k) (view k') = binding_ready N (view k) (view k7)" for N
      by (simp_all add: k' role_ready_def binding_ready_def)
    with stages_order[OF p(3) r st] k' p(2,4) show ?thesis by simp
  qed
qed

lemma Reconcile_nothing:
  assumes g: "good k" and eg: "cl_egress (view k) req = None \<or> (\<exists>eg. cl_egress (view k) req = Some eg \<and> om_DeletionTimestamp (eg_Meta eg) \<noteq> None)"
    and c: "egress_Reconcile kb r setref selstr req k = (q, k')"
  shows "view k' = view k"
proof -
  obtain p k0 where get: "kb_GetEgress kb req k = (p, k0)" by fastforce
  from meets_run[OF GetEgress get g] have k0: "view k0 = view k" "\<And>x. p = Inr x \<Longrightarrow> cl_egress (view k) req = Some x"
    by (auto simp: get_ok_def split: sum.splits)
  from c get eg k0(2) have "k' = k0"
    by (cases p) (auto simp: egress_Reconcile_def catch_eq split: if_splits)
  with k0(1) show ?thesis by simp
qed

end

section \<open>An API server in memory\<close>

record kube_sim =
  ks_egresses :: "egress list"
  ks_sa :: "nsname \<Rightarrow> bool"
  ks_cr :: "string \<Rightarrow> cluster_role option"
  ks_crb :: "string \<Rightarrow> cluster_role_binding option"
  ks_dep :: "nsname \<Rightarrow> deployment option"
  ks_svc :: "nsname \<Rightarrow> service option"
  ks_pdb :: "nsname \<Rightarrow> pdb option"

definition ks_new :: "egress list \<Rightarrow> kube_sim" where
  "ks_new es = \<lparr>ks_egresses = es, ks_sa = (\<lambda>_. False), ks_cr = Map.empty, ks_crb = Map.empty, ks_dep = Map.empty,
     ks_svc = Map.empty, ks_pdb = Map.empty\<rparr>"

definition ks_view :: "kube_sim \<Rightarrow> cluster" where
  "ks_view s = \<lparr>cl_egress = map_of (map (\<lambda>e. (eg_key e, e)) (ks_egresses s)), cl_sa = ks_sa s, cl_cr = ks_cr s, cl_crb = ks_crb s,
     cl_dep = ks_dep s, cl_svc = ks_svc s, cl_pdb = ks_pdb s\<rparr>"

text \<open>
  The defaults of this server stand for those of the API: a restart policy, a place for the
  termination message, a rolling update, and three hours of session affinity for \<open>ClientIP\<close>
  (and none otherwise).
\<close>

definition ks_container :: "container \<Rightarrow> container" where
  "ks_container c = c\<lparr>c_Rest := (if c_Rest c = [] then ''terminationMessagePath: /dev/termination-log'' else c_Rest c)\<rparr>"

definition ks_template :: "pod_template \<Rightarrow> pod_template" where
  "ks_template t = t\<lparr>pt_Spec := (pt_Spec t)\<lparr>ps_Containers := map ks_container (ps_Containers (pt_Spec t)),
     ps_Rest := (if ps_Rest (pt_Spec t) = [] then ''restartPolicy: Always'' else ps_Rest (pt_Spec t))\<rparr>\<rparr>"

definition ks_affinity :: "string \<times> string option \<Rightarrow> string \<times> string option" where
  "ks_affinity p = (if fst p = ''ClientIP'' then (''ClientIP'', Some (case snd p of None \<Rightarrow> ''timeoutSeconds: 10800'' | Some c \<Rightarrow> c)) else (''None'', None))"

definition ks_defaults :: defaults where
  "ks_defaults = \<lparr>df_template = ks_template, df_strategy = (\<lambda>x. Some (case x of None \<Rightarrow> ''RollingUpdate'' | Some s \<Rightarrow> s)), df_affinity = ks_affinity\<rparr>"

text \<open>
  What it refuses: a pod template without containers, with containers that lack a name or
  an image, or with two containers or two volumes of one name.
\<close>

definition ks_valid :: "deployment \<Rightarrow> bool" where
  "ks_valid d = (let sp = pt_Spec (dep_Template d) in ps_Containers sp \<noteq> [] \<and> distinct (map c_Name (ps_Containers sp)) \<and>
     (\<forall>c\<in>set (ps_Containers sp). c_Name c \<noteq> [] \<and> c_Image c \<noteq> []) \<and> distinct (map v_Name (ps_Volumes sp)))"

definition ks_good :: "kube_sim \<Rightarrow> bool" where
  "ks_good s \<longleftrightarrow> distinct (map eg_key (ks_egresses s)) \<and> (\<forall>n x. ks_crb s n = Some x \<longrightarrow> crb_Name x = n) \<and>
     (\<forall>key d. ks_dep s key = Some d \<longrightarrow> ks_valid d)"

definition ks_get :: "'a option \<Rightarrow> (kube_sim, 'a) io" where
  "ks_get m s = (case m of None \<Rightarrow> (Inl ApiNotFound, s) | Some x \<Rightarrow> (Inr x, s))"

definition stamp :: "object_meta \<Rightarrow> object_meta" where
  "stamp m = (case om_CreationTimestamp m of None \<Rightarrow> m\<lparr>om_CreationTimestamp := Some ''now''\<rparr> | Some _ \<Rightarrow> m)"

definition cluster_ip :: "string \<Rightarrow> string" where
  "cluster_ip ip = (if ip = [] then ''10.96.0.10'' else ip)"

definition ks_keep_dep :: "deployment \<Rightarrow> deployment" where
  "ks_keep_dep d = d\<lparr>dep_Meta := stamp (dep_Meta d), dep_Strategy := df_strategy ks_defaults (dep_Strategy d),
     dep_Template := df_template ks_defaults (dep_Template d)\<rparr>"

definition ks_keep_svc :: "service \<Rightarrow> service" where
  "ks_keep_svc d = (let p = df_affinity ks_defaults (svc_SessionAffinity d, svc_SessionAffinityConfig d) in
     d\<lparr>svc_Meta := stamp (svc_Meta d), svc_SessionAffinity := fst p, svc_SessionAffinityConfig := snd p, svc_ClusterIP := cluster_ip (svc_ClusterIP d)\<rparr>)"

definition ks_status :: "egress \<Rightarrow> egress \<Rightarrow> egress" where
  "ks_status e x = (if eg_key x = eg_key e
     then x\<lparr>eg_StatusReplicas := eg_StatusReplicas e, eg_StatusSelector := eg_StatusSelector e\<rparr> else x)"

definition ks_kube :: "kube_sim kube" where
  "ks_kube =
     \<lparr>kb_GetEgress = (\<lambda>key s. ks_get (find (\<lambda>e. eg_key e = key) (ks_egresses s)) s),
      kb_ListEgress = (\<lambda>s. (Inr (ks_egresses s), s)),
      kb_UpdateEgressStatus = (\<lambda>e s. (Inr (), s\<lparr>ks_egresses := map (ks_status e) (ks_egresses s)\<rparr>)),
      kb_GetServiceAccount = (\<lambda>key s. ks_get (if ks_sa s key then Some key else None) s),
      kb_CreateServiceAccount = (\<lambda>key s. (Inr (), s\<lparr>ks_sa := (ks_sa s)(key := True)\<rparr>)),
      kb_GetClusterRole = (\<lambda>n s. ks_get (ks_cr s n) s),
      kb_CreateClusterRole = (\<lambda>cr s. (Inr (), s\<lparr>ks_cr := (ks_cr s)(cr_Name cr \<mapsto> cr)\<rparr>)),
      kb_GetCRB = (\<lambda>n s. ks_get (ks_crb s n) s),
      kb_CreateCRB = (\<lambda>b s. (Inr b, s\<lparr>ks_crb := (ks_crb s)(crb_Name b \<mapsto> b)\<rparr>)),
      kb_PatchCRB = (\<lambda>b old s. (Inr (), s\<lparr>ks_crb := (ks_crb s)(crb_Name b \<mapsto> b)\<rparr>)),
      kb_GetDeployment = (\<lambda>key s. ks_get (ks_dep s key) s),
      kb_CreateOrUpdateDeployment = (\<lambda>key f s. case f (old_or (blank_deployment key) (ks_dep s key)) of
         Inl e \<Rightarrow> (Inl e, s) | Inr d \<Rightarrow> if \<not> ks_valid d then (Inl (LibErr ''invalid''), s) else (Inr (), s\<lparr>ks_dep := (ks_dep s)(key \<mapsto> ks_keep_dep d)\<rparr>)),
      kb_CreateOrUpdateService = (\<lambda>key f s. case f (old_or (blank_service key) (ks_svc s key)) of
         Inl e \<Rightarrow> (Inl e, s) | Inr d \<Rightarrow> (Inr (), s\<lparr>ks_svc := (ks_svc s)(key \<mapsto> ks_keep_svc d)\<rparr>)),
      kb_CreateOrUpdatePDB = (\<lambda>key f s. case f (old_or (blank_pdb key) (ks_pdb s key)) of
         Inl e \<Rightarrow> (Inl e, s) | Inr d \<Rightarrow> (Inr (), s\<lparr>ks_pdb := (ks_pdb s)(key \<mapsto> d\<lparr>pdb_Meta := stamp (pdb_Meta d)\<rparr>)\<rparr>))\<rparr>"

lemma ks_find: "find (\<lambda>e. eg_key e = key) es = map_of (map (\<lambda>e. (eg_key e, e)) es) key"
  by (induction es) auto

lemma ks_status_key [simp]: "eg_key (ks_status e x) = eg_key x"
  by (simp add: ks_status_def eg_key_def)

lemma ran_map_of_keys: "distinct (map eg_key es) \<Longrightarrow> ran (map_of (map (\<lambda>e. (eg_key e, e)) es)) = set es"
  by (subst ran_distinct) (auto simp: comp_def image_image)

lemma stamp_timed: "timed m (stamp m)"
  by (cases m; cases "om_CreationTimestamp m") (auto simp: stamp_def timed_def)

lemma cluster_ip_set [simp]: "cluster_ip ip \<noteq> []" "ip \<noteq> [] \<Longrightarrow> cluster_ip ip = ip"
  by (simp_all add: cluster_ip_def)

lemma ks_stored:
  "stored_dep ks_defaults d (ks_keep_dep d)" "stored_svc ks_defaults v (ks_keep_svc v)" "stored_pdb p (p\<lparr>pdb_Meta := stamp (pdb_Meta p)\<rparr>)"
  unfolding stored_dep_def stored_svc_def stored_pdb_def ks_keep_dep_def ks_keep_svc_def Let_def
  using stamp_timed cluster_ip_set by blast+

lemma ks_filled: "filled_template t (ks_template t)"
proof -
  have "filled_env e e" for e by (cases "ev_From e") (simp_all add: filled_env_def)
  then have "filled_container c (ks_container c)" for c by (simp add: filled_container_def ks_container_def list_all2_same)
  then show ?thesis by (simp add: filled_template_def ks_template_def list_all2_map2 list_all2_same)
qed

lemma ks_lawful: "lawful_defaults ks_defaults"
proof -
  have "ks_container (ks_container c) = ks_container c" for c by (simp add: ks_container_def)
  then have "ks_template (ks_template t) = ks_template t" for t by (simp add: ks_template_def)
  moreover have "ks_affinity (ks_affinity p) = ks_affinity p" "ks_affinity (a, snd (ks_affinity (a, c))) = ks_affinity (a, c)" for p a c
    by (auto simp: ks_affinity_def)
  ultimately show ?thesis using ks_filled by (simp add: lawful_defaults_def ks_defaults_def)
qed

lemma ks_valid_keep [simp]: "ks_valid (ks_keep_dep d) = ks_valid d"
proof -
  have "c_Name (ks_container c) = c_Name c" "c_Image (ks_container c) = c_Image c" for c by (simp_all add: ks_container_def)
  then show ?thesis by (simp add: ks_valid_def ks_keep_dep_def ks_defaults_def ks_template_def Let_def comp_def)
qed

lemmas ks_defs = ks_kube_def ks_get_def ks_view_def ks_good_def same_def get_ok_def

lemma ks_key: "map_of (map (\<lambda>e. (eg_key e, e)) es) key = Some x \<Longrightarrow> eg_key x = key"
  by (auto dest!: map_of_SomeD)

interpretation ks: kube_laws ks_kube ks_good ks_view ks_defaults
proof (unfold_locales, goal_cases)
  case 1
  show ?case by (rule ks_lawful)
next
  case (2 key)
  show ?case by (rule meetsI) (auto simp: ks_defs ks_find split: option.splits dest: ks_key)
next
  case 3
  show ?case by (rule meetsI) (auto simp: ks_defs ran_map_of_keys)
next
  case (4 eg)
  show ?case by (rule meetsI) (auto simp: ks_defs comp_def)
next
  case (13 key fd)
  show ?case
    by (rule meetsI) (auto simp: ks_defs split: sum.splits if_splits intro!: exI[of _ "ks_keep_dep _"] ks_stored)
next
  case (14 key fs)
  show ?case
    by (rule meetsI) (auto simp: ks_defs split: sum.splits if_splits intro!: exI[of _ "ks_keep_svc _"] ks_stored)
next
  case (15 key fp)
  show ?case
    by (rule meetsI) (auto simp: ks_defs split: sum.splits if_splits intro!: exI[of _ "_\<lparr>pdb_Meta := stamp _\<rparr>"] ks_stored)
qed (rule meetsI; auto simp: ks_defs split: option.splits if_splits)+

section \<open>Properties\<close>

definition demo_key :: nsname where
  "demo_key = \<lparr>nn_Namespace = ''internet'', nn_Name = ''egress-a''\<rparr>"

definition demo_cluster :: kube_sim where
  "demo_cluster = ks_new [demo_egress []]"

abbreviation "demo_setref \<equiv> (\<lambda>(eg :: egress) m. Inr (m\<lparr>om_OwnerReferences := [om_Name (eg_Meta eg)]\<rparr>) :: err + object_meta)"
abbreviation "demo_selstr \<equiv> (\<lambda>_ :: strmap option. Inr ''app=pona'' :: err + string)"
abbreviation "demo_r \<equiv> \<lparr>er_Port = 5555, er_DefaultImage = ''nat-gateway:1''\<rparr>"

lemma demo_cluster_facts:
  "ks_good demo_cluster" "cl_egress (ks_view demo_cluster) demo_key = Some (demo_egress [])"
  "om_DeletionTimestamp (eg_Meta (demo_egress [])) = None" "keeps_meta demo_setref"
  by (simp_all add: demo_cluster_def ks_new_def ks_good_def ks_view_def demo_key_def eg_key_def demo_egress_def keeps_meta_def)

lemma demo_egress_Reconcile: "fst (egress_Reconcile ks_kube demo_r demo_setref demo_selstr demo_key demo_cluster) = Inr ()"
  by code_simp

text \<open>
  C10. A successful \<open>Reconcile\<close> of a live egress leaves everything it asks for in the
  cluster, on a server that fills in defaults: the service account in its namespace; the
  cluster role, which may get, list and watch pods where it is new; a binding whose subjects
  are the service accounts of exactly the namespaces that have an egress, and which refers
  to that role where it is new; the deployment with the wanted replicas, labels, strategy,
  pod template (that of \<open>reconcilePodTemplate\<close>, with the defaults) and, where it is new,
  selector; the service that selects its pods, on the tunnel port, with the session affinity
  and its configuration; and the disruption budget, if the egress has one. A new object has
  the owner references that \<open>SetControllerReference\<close> gives it, and one that exists keeps
  its own. An object that is being deleted is sent back as it was.
\<close>

theorem egress_Reconcile_complete:
  assumes "kube_laws kb good view df" "good k" "keeps_meta setref"
    and "cl_egress (view k) req = Some eg" "om_DeletionTimestamp (eg_Meta eg) = None"
    and "egress_Reconcile kb r setref selstr req k = (Inr u, k')"
  shows "cl_sa (view k') (sa_key eg) \<and> role_ready (view k) (view k') \<and>
    binding_ready (eg_Namespace ` ran (cl_egress (view k))) (view k) (view k') \<and>
    (\<exists>s. cl_dep (view k') req = Some s \<and> wanted_deployment df r setref eg (old_dep (view k) req) s) \<and>
    (\<exists>s. cl_svc (view k') req = Some s \<and> wanted_service df r setref eg (old_svc (view k) req) s) \<and>
    (\<forall>spec. eg_PodDisruptionBudget eg = Some spec \<longrightarrow>
       (\<exists>s. cl_pdb (view k') req = Some s \<and> wanted_pdb setref eg spec (old_pdb (view k) req) s))"
  using kube_laws.Reconcile_returns[OF assms] by blast

theorem egress_Reconcile_complete_witness:
  "\<exists>k' s. egress_Reconcile ks_kube demo_r demo_setref demo_selstr demo_key demo_cluster = (Inr (), k') \<and> role_ready (ks_view demo_cluster) (ks_view k') \<and>
     cl_dep (ks_view k') demo_key = Some s \<and> wanted_deployment ks_defaults demo_r demo_setref (demo_egress []) (blank_deployment demo_key) s \<and>
     om_OwnerReferences (dep_Meta s) = [''egress-a''] \<and> runs_gateway (demo_egress []) (dep_Template s)"
proof -
  note run = run_pair[OF demo_egress_Reconcile]
  have old: "old_dep (ks_view demo_cluster) demo_key = blank_deployment demo_key" by (simp add: demo_cluster_def ks_new_def ks_view_def old_or_def)
  from egress_Reconcile_complete[OF ks.kube_laws_axioms demo_cluster_facts(1,4,2,3) run] obtain s where
    s: "cl_dep (ks_view (snd (egress_Reconcile ks_kube demo_r demo_setref demo_selstr demo_key demo_cluster))) demo_key = Some s"
      "wanted_deployment ks_defaults demo_r demo_setref (demo_egress []) (blank_deployment demo_key) s"
    and r: "role_ready (ks_view demo_cluster) (ks_view (snd (egress_Reconcile ks_kube demo_r demo_setref demo_selstr demo_key demo_cluster)))"
    unfolding old by blast
  have new: "om_DeletionTimestamp (dep_Meta (blank_deployment demo_key)) = None" "om_CreationTimestamp (dep_Meta (blank_deployment demo_key)) = None"
    by (simp_all add: blank_deployment_def blank_meta_def)
  from s(2) new(1) have runs: "runs_gateway (demo_egress []) (dep_Template s)"
    and "owned demo_setref (demo_egress []) (dep_Meta (blank_deployment demo_key)) (dep_Meta s)"
    unfolding wanted_deployment_def by auto
  then have "om_OwnerReferences (dep_Meta s) = [''egress-a'']" using new(2) by (simp add: owned_def) (simp add: demo_egress_def)
  with run s r runs show ?thesis by blast
qed

text \<open>
  C12. For an egress that does not exist or is being deleted, \<open>Reconcile\<close> changes
  nothing in the cluster, whatever it returns.
\<close>

theorem egress_Reconcile_gone:
  assumes "kube_laws kb good view df" "good k"
    and "cl_egress (view k) req = None \<or> (\<exists>eg. cl_egress (view k) req = Some eg \<and> om_DeletionTimestamp (eg_Meta eg) \<noteq> None)"
    and "egress_Reconcile kb r setref selstr req k = (q, k')"
  shows "view k' = view k"
  by (rule kube_laws.Reconcile_nothing[OF assms])

theorem egress_Reconcile_gone_witness:
  "\<exists>k'. egress_Reconcile ks_kube demo_r demo_setref demo_selstr demo_key (ks_new []) = (Inr (), k') \<and> ks_view k' = ks_view (ks_new [])"
proof -
  have r: "fst (egress_Reconcile ks_kube demo_r demo_setref demo_selstr demo_key (ks_new [])) = Inr ()" by code_simp
  have "ks_good (ks_new [])" "cl_egress (ks_view (ks_new [])) demo_key = None"
    by (simp_all add: ks_good_def ks_new_def ks_view_def)
  with egress_Reconcile_gone[OF ks.kube_laws_axioms _ _ run_pair[OF r]] run_pair[OF r] show ?thesis by blast
qed

text \<open>
  C11. The order of the stages, whatever \<open>Reconcile\<close> returns: it has written no
  deployment, service or disruption budget unless the service account, the cluster
  role and the bindings of all egress namespaces are in place; no service or budget
  unless the deployment is the wanted one; no budget unless the service is.
\<close>

theorem egress_Reconcile_order:
  assumes "kube_laws kb good view df" "good k" "keeps_meta setref"
    and "cl_egress (view k) req = Some eg" "om_DeletionTimestamp (eg_Meta eg) = None"
    and "egress_Reconcile kb r setref selstr req k = (q, k')"
  shows "(cl_dep (view k') \<noteq> cl_dep (view k) \<or> cl_svc (view k') \<noteq> cl_svc (view k) \<or> cl_pdb (view k') \<noteq> cl_pdb (view k) \<longrightarrow>
       cl_sa (view k') (sa_key eg) \<and> role_ready (view k) (view k') \<and>
       binding_ready (eg_Namespace ` ran (cl_egress (view k))) (view k) (view k')) \<and>
    (cl_svc (view k') \<noteq> cl_svc (view k) \<or> cl_pdb (view k') \<noteq> cl_pdb (view k) \<longrightarrow>
       (\<exists>x. cl_dep (view k') req = Some x \<and> wanted_deployment df r setref eg (old_dep (view k) req) x)) \<and>
    (cl_pdb (view k') \<noteq> cl_pdb (view k) \<longrightarrow> (\<exists>x. cl_svc (view k') req = Some x \<and> wanted_service df r setref eg (old_svc (view k) req) x))"
  by (rule kube_laws.Reconcile_order[OF assms])

theorem egress_Reconcile_order_witness:
  "\<exists>k' s. egress_Reconcile ks_kube demo_r demo_setref demo_selstr demo_key demo_cluster = (Inr (), k') \<and>
     cl_svc (ks_view demo_cluster) demo_key = None \<and> cl_svc (ks_view k') demo_key \<noteq> None \<and>
     cl_dep (ks_view k') demo_key = Some s \<and> wanted_deployment ks_defaults demo_r demo_setref (demo_egress []) (old_dep (ks_view demo_cluster) demo_key) s"
proof -
  note run = run_pair[OF demo_egress_Reconcile]
  have a: "cl_svc (ks_view demo_cluster) demo_key = None"
    by (simp add: demo_cluster_def ks_new_def ks_view_def)
  have b: "cl_svc (ks_view (snd (egress_Reconcile ks_kube demo_r demo_setref demo_selstr demo_key demo_cluster))) demo_key \<noteq> None"
    using kube_laws.Reconcile_returns[OF ks.kube_laws_axioms demo_cluster_facts(1,4,2,3) run] by fastforce
  with a have "cl_svc (ks_view (snd (egress_Reconcile ks_kube demo_r demo_setref demo_selstr demo_key demo_cluster))) \<noteq>
      cl_svc (ks_view demo_cluster)" by (rule_tac notI) simp
  with egress_Reconcile_order[OF ks.kube_laws_axioms demo_cluster_facts(1,4,2,3) run] a b run show ?thesis by blast
qed

end
