(* ===== verification/Converge.thy ===== *)
theory Converge
  imports EgressReconcile
begin

text \<open>
  The loop of the egress controller comes to rest. Everything the controller writes
  makes its watches call \<open>Reconcile\<close> again. The code sends a pod template without the
  defaults that the server fills in, so the object it sends is never the stored one; but
  what is stored for it is, and a call after a successful one changes nothing but the
  status of the egress, and nothing at all once the status is up to date. The locale
  \<open>kube_quiet\<close> adds to the laws of the API that the status subresource is just the status.
\<close>

section \<open>The interface\<close>

text \<open>An egress without its status.\<close>

definition bare :: "egress \<Rightarrow> egress" where
  "bare eg = eg\<lparr>eg_StatusReplicas := 0, eg_StatusSelector := []\<rparr>"

definition status_only :: "cluster \<Rightarrow> cluster \<Rightarrow> bool" where
  "status_only K K' \<longleftrightarrow> (\<exists>m. K' = K\<lparr>cl_egress := m\<rparr> \<and> (\<forall>key. map_option bare (m key) = map_option bare (cl_egress K key)))"

locale kube_quiet = kube_laws kb good view df
  for kb :: "'k kube" and good :: "'k \<Rightarrow> bool" and view :: "'k \<Rightarrow> cluster" and df :: defaults +
  assumes status_update: "good k \<Longrightarrow> kb_UpdateEgressStatus kb eg k = (q, k') \<Longrightarrow> status_only (view k) (view k')"

section \<open>The status does not matter\<close>

text \<open>\<open>SetControllerReference\<close> reads the metadata of the owner only.\<close>

definition meta_only :: "(egress \<Rightarrow> object_meta \<Rightarrow> err + object_meta) \<Rightarrow> bool" where
  "meta_only setref \<longleftrightarrow> (\<forall>e e'. eg_Meta e = eg_Meta e' \<longrightarrow> setref e = setref e')"

lemma bare_fields:
  assumes "bare e' = bare e"
  shows "eg_Meta e' = eg_Meta e" "eg_Replicas e' = eg_Replicas e" "eg_Strategy e' = eg_Strategy e" "eg_Template e' = eg_Template e"
    "eg_SessionAffinity e' = eg_SessionAffinity e" "eg_SessionAffinityConfig e' = eg_SessionAffinityConfig e"
    "eg_PodDisruptionBudget e' = eg_PodDisruptionBudget e" "eg_key e' = eg_key e" "sa_key e' = sa_key e"
  using assms by (cases e; cases e'; auto simp: bare_def eg_key_def sa_key_def)+

lemma mutations_bare:
  assumes "bare e' = bare e" "meta_only setref"
  shows "mutate_deployment r setref e' = mutate_deployment r setref e" "mutate_service r setref e' = mutate_service r setref e"
    "mutate_pdb setref e' = mutate_pdb setref e"
proof -
  note f = bare_fields[OF assms(1)]
  have s: "setref e' = setref e" using assms(2) f(1) unfolding meta_only_def by blast
  have t: "reconcilePodTemplate r e' = reconcilePodTemplate r e"
    by (rule ext) (simp only: reconcilePodTemplate_def egress_container_def f)
  show "mutate_deployment r setref e' = mutate_deployment r setref e"
    by (rule ext) (simp only: mutate_deployment_def own_new_def f s t)
  show "mutate_service r setref e' = mutate_service r setref e" "mutate_pdb setref e' = mutate_pdb setref e"
    by (intro ext, simp only: mutate_service_def mutate_pdb_def own_new_def f s)+
qed

lemma settled_bare:
  assumes "bare e' = bare e" "meta_only setref"
  shows "settled df r setref e' N K = settled df r setref e N K"
  unfolding settled_def mutations_bare[OF assms] bare_fields[OF assms(1)] ..

lemma status_only_egress:
  assumes "status_only K K'"
  shows "cl_egress K key = Some eg \<Longrightarrow> \<exists>e. cl_egress K' key = Some e \<and> bare e = bare eg"
    and "eg_Namespace ` ran (cl_egress K') = eg_Namespace ` ran (cl_egress K)"
proof -
  from assms have b: "map_option bare (cl_egress K' key) = map_option bare (cl_egress K key)" for key by (auto simp: status_only_def)
  from b[of key] show "cl_egress K key = Some eg \<Longrightarrow> \<exists>e. cl_egress K' key = Some e \<and> bare e = bare eg" by auto
  have sub: "eg_Namespace ` ran m \<subseteq> eg_Namespace ` ran m'" if "\<And>key. map_option bare (m key) = map_option bare (m' key)" for m m'
  proof
    fix n
    assume "n \<in> eg_Namespace ` ran m"
    then obtain key e where e: "m key = Some e" "n = eg_Namespace e" by (auto simp: ran_def)
    with that[of key] obtain e' where "m' key = Some e'" "bare e' = bare e" by (metis map_option_eq_Some option.simps(9))
    then have "eg_Namespace e' = n" "e' \<in> ran m'" using bare_fields(1)[of e' e] e(2) by (auto intro: ranI)
    then show "n \<in> eg_Namespace ` ran m'" by blast
  qed
  show "eg_Namespace ` ran (cl_egress K') = eg_Namespace ` ran (cl_egress K)" by (intro equalityI sub b b[symmetric])
qed

lemma status_only_refl: "status_only K K"
  unfolding status_only_def by (rule exI[of _ "cl_egress K"]) simp

lemma status_only_settled: "status_only K K' \<Longrightarrow> settled df r setref eg N K' = settled df r setref eg N K"
  by (auto simp: status_only_def settled_def bound_exactly_def)

section \<open>A settled cluster\<close>

text \<open>The status shows what the deployment is.\<close>

definition status_current :: "(strmap option \<Rightarrow> err + string) \<Rightarrow> nsname \<Rightarrow> cluster \<Rightarrow> bool" where
  "status_current selstr req K \<longleftrightarrow> (\<exists>e d. cl_egress K req = Some e \<and> cl_dep K req = Some d \<and>
     selstr (dep_Selector d) = Inr (eg_StatusSelector e) \<and> eg_StatusReplicas e = dep_AvailableReplicas d)"

context kube_quiet
begin

lemma sa_quiet:
  assumes g: "good k" and there: "cl_sa (view k) (sa_key eg)" and c: "reconcileServiceAccount kb eg k = (Inr u, k')"
  shows "good k' \<and> view k' = view k"
proof -
  obtain p t where get: "kb_GetServiceAccount kb (sa_key eg) k = (p, t)" by fastforce
  with c there meets_run[OF GetServiceAccount get g] have "t = k'"
    by (cases p) (auto simp: reconcileServiceAccount_def sa_key_def[symmetric] Let_def catch_eq)
  with meets_run[OF GetServiceAccount get g] show ?thesis by (auto simp: same_def split: sum.splits)
qed

lemma cr_quiet:
  assumes g: "good k" and there: "cl_cr (view k) egressCRName \<noteq> None" and c: "reconcileCR kb k = (Inr u, k')"
  shows "good k' \<and> view k' = view k"
proof -
  obtain p t where get: "kb_GetClusterRole kb egressCRName k = (p, t)" by fastforce
  with c there meets_run[OF GetClusterRole get g] have "t = k'" by (cases p) (auto simp: reconcileCR_def catch_eq)
  with meets_run[OF GetClusterRole get g] show ?thesis by (auto simp: same_def split: sum.splits)
qed

lemma crb_quiet:
  assumes g: "good k" and there: "bound_exactly (eg_Namespace ` ran (cl_egress (view k))) (view k)" and c: "reconcileCRB kb k = (Inr u, k')"
  shows "good k' \<and> view k' = view k"
proof -
  from there obtain b ns where b: "cl_crb (view k) egressCRBName = Some b" "crb_Name b = egressCRBName" "crb_Subjects b = map egress_subject ns"
    and ns: "sorted ns" "distinct ns" "set ns = eg_Namespace ` ran (cl_egress (view k))" by (auto simp: bound_exactly_def)
  obtain p t where get: "kb_GetCRB kb egressCRBName k = (p, t)" by fastforce
  have "\<not> (\<exists>e. p = Inl e)"
  proof
    assume "\<exists>e. p = Inl e"
    then obtain e where e: "kb_GetCRB kb egressCRBName k = (Inl e, t)" using get by auto
    from meets_Inl[OF GetCRB e g] b(1) c e show False by (simp add: reconcileCRB_def catch_eq bind_io_Inr)
  qed
  then obtain crb where p: "p = Inr crb" by (cases p) auto
  from meets_Inr[OF GetCRB get[unfolded p] g] b(1) have t: "good t" "view t = view k" "crb = b" by (auto simp: get_ok_def)
  from c get p obtain es t1 where l: "kb_ListEgress kb t = (Inr es, t1)"
    and pa: "kb_PatchCRB kb (b\<lparr>crb_Subjects := map egress_subject (getNamespaces es)\<rparr>) b t1 = (Inr u, k')"
    by (auto simp: reconcileCRB_def catch_eq bind_io_Inr on_err_Inr t(3))
  from meets_Inr[OF ListEgress l t(1)] have t1: "good t1" "view t1 = view k" "set es = ran (cl_egress (view k))" by (simp_all add: t(2))
  have "getNamespaces es = ns"
    by (rule sorted_distinct_set_unique) (use ns t1(3) in \<open>simp_all add: getNamespaces_def\<close>)
  with b(3) have "b\<lparr>crb_Subjects := map egress_subject (getNamespaces es)\<rparr> = b" by (cases b) simp
  with meets_Inr[OF PatchCRB pa t1(1)] t1(2) b(1,2) show ?thesis by (auto simp: get_ok_def map_upd_triv)
qed

lemma workload_quiet:
  assumes g: "good k" and s: "settled df r setref eg N (view k)"
    and c: "bind_io (reconcileDeployment kb r setref eg) (\<lambda>_. bind_io (reconcileService kb r setref eg) (\<lambda>_. reconcilePDB kb setref eg)) k = (Inr u, k')"
  shows "good k' \<and> view k' = view k"
proof -
  from c obtain a k1 b k2 where d: "kb_CreateOrUpdateDeployment kb (eg_key eg) (mutate_deployment r setref eg) k = (Inr a, k1)"
    and v: "kb_CreateOrUpdateService kb (eg_key eg) (mutate_service r setref eg) k1 = (Inr b, k2)"
    and p: "reconcilePDB kb setref eg k2 = (Inr u, k')"
    by (auto simp: bind_io_Inr reconcileDeployment_def reconcileService_def on_err_Inr)
  from s obtain x xd y yd where x: "cl_dep (view k) (eg_key eg) = Some x" "mutate_deployment r setref eg x = Inr xd" "stored_dep df xd x"
      "om_CreationTimestamp (dep_Meta xd) \<noteq> None"
    and y: "cl_svc (view k) (eg_key eg) = Some y" "mutate_service r setref eg y = Inr yd" "stored_svc df yd y"
      "om_CreationTimestamp (svc_Meta yd) \<noteq> None" "svc_ClusterIP yd \<noteq> []" by (auto simp: settled_def)
  from meets_Inr[OF CreateOrUpdateDeployment d g] x(1,2) obtain x' where "good k1" "stored_dep df xd x'"
    "view k1 = (view k)\<lparr>cl_dep := (cl_dep (view k))(eg_key eg \<mapsto> x')\<rparr>" by (auto simp: old_or_def)
  with stored_unique(1)[OF x(4,3)] x(1) have k1: "good k1" "view k1 = view k" by (auto simp: map_upd_triv)
  from meets_Inr[OF CreateOrUpdateService v k1(1)] y(1,2) obtain y' where "good k2" "stored_svc df yd y'"
    "view k2 = (view k)\<lparr>cl_svc := (cl_svc (view k))(eg_key eg \<mapsto> y')\<rparr>" by (auto simp: old_or_def k1(2))
  with stored_unique(2)[OF y(4,5,3)] y(1) have k2: "good k2" "view k2 = view k" by (auto simp: map_upd_triv)
  show ?thesis
  proof (cases "eg_PodDisruptionBudget eg")
    case None
    with p k2 show ?thesis by (auto simp: reconcilePDB_def)
  next
    case (Some spec)
    with p have q: "kb_CreateOrUpdatePDB kb (eg_key eg) (mutate_pdb setref eg spec) k2 = (Inr u, k')"
      by (simp add: reconcilePDB_def on_err_Inr)
    from s Some obtain z zd where z: "cl_pdb (view k) (eg_key eg) = Some z" "mutate_pdb setref eg spec z = Inr zd" "stored_pdb zd z"
      "om_CreationTimestamp (pdb_Meta zd) \<noteq> None" by (auto simp: settled_def)
    from meets_Inr[OF CreateOrUpdatePDB q k2(1)] z(1,2) obtain z' where "good k'" "stored_pdb zd z'"
      "view k' = (view k)\<lparr>cl_pdb := (cl_pdb (view k))(eg_key eg \<mapsto> z')\<rparr>" by (auto simp: old_or_def k2(2))
    with stored_unique(3)[OF z(4,3)] z(1) show ?thesis by (auto simp: map_upd_triv)
  qed
qed

lemma stages_quiet:
  assumes g: "good k" and s: "settled df r setref eg (eg_Namespace ` ran (cl_egress (view k))) (view k)"
    and c: "egress_stages kb r setref eg k = (Inr u, k')"
  shows "good k' \<and> view k' = view k"
proof -
  from c obtain a b d k1 k2 k3 where s1: "reconcileServiceAccount kb eg k = (Inr a, k1)" and s2: "reconcileCR kb k1 = (Inr b, k2)"
    and s3: "reconcileCRB kb k2 = (Inr d, k3)"
    and s4: "bind_io (reconcileDeployment kb r setref eg) (\<lambda>_. bind_io (reconcileService kb r setref eg) (\<lambda>_. reconcilePDB kb setref eg)) k3 = (Inr u, k')"
    unfolding egress_stages_def bind_io_Inr by blast
  from sa_quiet[OF g _ s1] s have k1: "good k1" "view k1 = view k" by (auto simp: settled_def)
  from cr_quiet[OF k1(1) _ s2] s k1(2) have k2: "good k2" "view k2 = view k" by (auto simp: settled_def)
  from crb_quiet[OF k2(1) _ s3] s k2(2) have k3: "good k3" "view k3 = view k" by (auto simp: settled_def)
  from workload_quiet[OF k3(1) _ s4] s k3(2) show ?thesis by auto
qed

lemma updateStatus_quiet:
  assumes g: "good k" and c: "updateStatus kb selstr eg k = (q, k')"
  shows "status_only (view k) (view k') \<and>
    (cl_egress (view k) (eg_key eg) = Some eg \<longrightarrow> status_current selstr (eg_key eg) (view k) \<longrightarrow> view k' = view k)"
proof -
  obtain d t where d: "kb_GetDeployment kb (eg_key eg) k = (d, t)" by fastforce
  from meets_run[OF GetDeployment this g] have t: "good t" "view t = view k" "\<And>x. d = Inr x \<Longrightarrow> cl_dep (view k) (eg_key eg) = Some x"
    by (auto simp: same_def get_ok_def split: sum.splits)
  show ?thesis
  proof (cases "k' = t")
    case True
    with t(2) status_only_refl show ?thesis by auto
  next
    case False
    with c d obtain dep sel e where dep: "d = Inr dep" "selstr (dep_Selector dep) = Inr sel" "kb_UpdateEgressStatus kb e t = (q, k')"
      "\<not> (eg_StatusSelector eg = sel \<and> eg_StatusReplicas eg = dep_AvailableReplicas dep)"
      by (auto simp: updateStatus_def bind_io_def on_err_def throw_def ret_def split: sum.splits prod.splits if_splits)
    with status_update[OF t(1)] t show ?thesis by (fastforce simp: status_current_def)
  qed
qed

text \<open>In a settled cluster \<open>Reconcile\<close> writes at most the status.\<close>

lemma Reconcile_quiet:
  assumes g: "good k" and eg: "cl_egress (view k) req = Some eg"
    and s: "settled df r setref eg (eg_Namespace ` ran (cl_egress (view k))) (view k)"
    and c: "egress_Reconcile kb r setref selstr req k = (Inr u, k')"
  shows "status_only (view k) (view k') \<and> (status_current selstr req (view k) \<longrightarrow> view k' = view k)"
proof -
  obtain p k0 where get: "kb_GetEgress kb req k = (p, k0)" by fastforce
  from meets_run[OF GetEgress get g] eg have k0: "good k0" "view k0 = view k" "\<And>x. p = Inr x \<Longrightarrow> x = eg \<and> eg_key eg = req"
    by (auto simp: get_ok_def split: sum.splits)
  consider "k' = k0" | "p = Inr eg" "with_defer (updateStatus kb selstr eg) (egress_stages kb r setref eg) k0 = (Inr u, k')"
    using c get k0(3) by (cases p) (auto simp: egress_Reconcile_def catch_eq split: if_splits)
  then show ?thesis
  proof cases
    case 1
    with k0(2) status_only_refl show ?thesis by simp
  next
    case 2
    then obtain k7 d where st: "egress_stages kb r setref eg k0 = (Inr u, k7)" and d: "updateStatus kb selstr eg k7 = (d, k')"
      by (auto simp: with_defer_def split: prod.splits) (metis prod.collapse)
    from stages_quiet[OF k0(1) _ st] s k0(2) have k7: "good k7" "view k7 = view k" by auto
    from updateStatus_quiet[OF k7(1) d] k7(2) k0(3)[OF 2(1)] eg show ?thesis by auto
  qed
qed

text \<open>The stages write no egress, and leave a deployment.\<close>

lemma stages_egress:
  assumes g: "good k" and r: "keeps_meta setref" and c: "egress_stages kb r setref eg k = (Inr u, k')"
  shows "good k' \<and> cl_egress (view k') = cl_egress (view k) \<and> cl_dep (view k') (eg_key eg) \<noteq> None"
proof -
  from c obtain a b d k1 k2 k3 where s1: "reconcileServiceAccount kb eg k = (Inr a, k1)" and s2: "reconcileCR kb k1 = (Inr b, k2)"
    and s3: "reconcileCRB kb k2 = (Inr d, k3)"
    and s4: "bind_io (reconcileDeployment kb r setref eg) (\<lambda>_. bind_io (reconcileService kb r setref eg) (\<lambda>_. reconcilePDB kb setref eg)) k3 = (Inr u, k')"
    unfolding egress_stages_def bind_io_Inr by blast
  from sa_stage[OF g s1] have k1: "good k1" "cl_egress (view k1) = cl_egress (view k)" by auto
  from cr_stage[OF k1(1) s2] k1(2) have k2: "good k2" "cl_egress (view k2) = cl_egress (view k)" by auto
  from crb_stage[OF k2(1) s3] k2(2) have k3: "good k3" "cl_egress (view k3) = cl_egress (view k)" by auto
  from s4 obtain x k4 y k5 where s5: "reconcileDeployment kb r setref eg k3 = (Inr x, k4)" "reconcileService kb r setref eg k4 = (Inr y, k5)"
    "reconcilePDB kb setref eg k5 = (Inr u, k')" unfolding bind_io_Inr by blast
  from dep_stage[OF k3(1) r s5(1)] k3(2) have k4: "good k4" "cl_egress (view k4) = cl_egress (view k)" "cl_dep (view k4) (eg_key eg) \<noteq> None" by auto
  from svc_stage[OF k4(1) r s5(2)] k4 have k5: "good k5" "cl_egress (view k5) = cl_egress (view k)" "cl_dep (view k5) (eg_key eg) \<noteq> None" by auto
  from pdb_stage[OF k5(1) r s5(3)] k5 show ?thesis by auto
qed

text \<open>The first call settles the cluster, but for the status it writes at its end.\<close>

lemma Reconcile_settles:
  assumes g: "good k" and r: "keeps_meta setref" "meta_only setref"
    and eg: "cl_egress (view k) req = Some eg" "om_DeletionTimestamp (eg_Meta eg) = None"
    and c: "egress_Reconcile kb r setref selstr req k = (Inr u, k')"
  shows "good k' \<and> (\<exists>e. cl_egress (view k') req = Some e \<and> bare e = bare eg \<and>
    settled df r setref e (eg_Namespace ` ran (cl_egress (view k'))) (view k'))"
proof -
  obtain p k0 where get: "kb_GetEgress kb req k = (p, k0)" by fastforce
  from meets_run[OF GetEgress get g] eg(1) have k0: "good k0" "view k0 = view k" "\<And>x. p = Inr x \<Longrightarrow> x = eg" "\<And>e. p = Inl e \<Longrightarrow> \<not> IsNotFound e"
    by (auto simp: get_ok_def split: sum.splits)
  with c get eg(2) have "with_defer (updateStatus kb selstr eg) (egress_stages kb r setref eg) k0 = (Inr u, k')"
    by (cases p) (auto simp: egress_Reconcile_def catch_eq)
  then obtain k7 d where st: "egress_stages kb r setref eg k0 = (Inr u, k7)" and d: "updateStatus kb selstr eg k7 = (d, k')"
    by (auto simp: with_defer_def split: prod.splits) (metis prod.collapse)
  from stages_egress[OF k0(1) r(1) st] k0(2) have k7: "good k7" "cl_egress (view k7) = cl_egress (view k)" by auto
  from updateStatus_quiet[OF k7(1) d] have so: "status_only (view k7) (view k')" ..
  note only = status_only_egress(1)[OF so, unfolded k7(2), OF eg(1)] status_only_egress(2)[OF so, unfolded k7(2)]
  from Reconcile_returns[OF g r(1) eg c] have k': "good k'" "settled df r setref eg (eg_Namespace ` ran (cl_egress (view k))) (view k')" by auto
  from only(1) obtain e where e: "cl_egress (view k') req = Some e" "bare e = bare eg" by blast
  with k' settled_bare[OF e(2) r(2)] only(2) show ?thesis by auto
qed

end

section \<open>The API server in memory\<close>

lemma bare_status [simp]: "bare (ks_status e x) = bare x"
  by (simp add: bare_def ks_status_def)

lemma map_of_status:
  "map_option bare (map_of (map (\<lambda>x. (eg_key x, x)) (map (ks_status e) es)) key) = map_option bare (map_of (map (\<lambda>x. (eg_key x, x)) es) key)"
  by (induction es) simp_all

interpretation ksq: kube_quiet ks_kube ks_good ks_view ks_defaults
proof (unfold_locales, goal_cases)
  case (1 k eg q k')
  then have k': "k' = k\<lparr>ks_egresses := map (ks_status eg) (ks_egresses k)\<rparr>" by (simp add: ks_kube_def)
  show ?case unfolding status_only_def k'
    by (rule exI[of _ "map_of (map (\<lambda>x. (eg_key x, x)) (map (ks_status eg) (ks_egresses k)))"])
      (simp add: ks_view_def del: map_map, simp add: map_of_status del: map_map)
qed

end
