(* ===== verification/Total.thy ===== *)
theory Total
  imports Prelude
begin

text \<open>
  Total correctness of effectful code: \<open>returns\<close> states that from a state in which an
  assertion holds of the view there is a result without an error, and another assertion
  holds of it; not "if there is a result" but "there is a result". The rules follow the
  structure of the code.
\<close>

section \<open>Total correctness\<close>

definition succeeds :: "('k \<Rightarrow> bool) \<Rightarrow> ('k \<Rightarrow> 'v) \<Rightarrow> ('v \<Rightarrow> bool) \<Rightarrow> ('k, 'a) io \<Rightarrow> bool" where
  "succeeds good view P m \<longleftrightarrow> (\<forall>k. good k \<longrightarrow> P (view k) \<longrightarrow> (\<exists>x k'. m k = (Inr x, k')))"

definition returns :: "('k \<Rightarrow> bool) \<Rightarrow> ('k \<Rightarrow> 'v) \<Rightarrow> ('v \<Rightarrow> bool) \<Rightarrow> ('k, 'a) io \<Rightarrow> ('a \<Rightarrow> 'v \<Rightarrow> bool) \<Rightarrow> bool" where
  "returns good view P m Q \<longleftrightarrow>
     (\<forall>k. good k \<longrightarrow> P (view k) \<longrightarrow> (\<exists>x k'. m k = (Inr x, k') \<and> good k' \<and> Q x (view k')))"

lemma returns_run:
  assumes "returns good view P m Q" "good k" "P (view k)"
  obtains x k' where "m k = (Inr x, k')" "good k'" "Q x (view k')"
  using assms unfolding returns_def by blast

lemma returns_unit:
  fixes m :: "('k, unit) io"
  assumes "returns good view P m (\<lambda>_. Q)" "good k" "P (view k)"
  obtains k' where "m k = (Inr (), k')" "good k'" "Q (view k')"
proof -
  from assms obtain x k' where "m k = (Inr x, k')" "good k'" "Q (view k')" by (rule returns_run)
  then show thesis by (intro that) simp_all
qed

lemma returns_call:
  assumes "succeeds good view P0 m" "meets good view m S F" "\<And>K. P K \<Longrightarrow> P0 K" "\<And>x K K'. P K \<Longrightarrow> S x K K' \<Longrightarrow> Q x K'"
  shows "returns good view P m Q"
  unfolding returns_def
proof (intro allI impI)
  fix k
  assume k: "good k" "P (view k)"
  with assms(1,3) obtain x k' where r: "m k = (Inr x, k')" unfolding succeeds_def by blast
  from meets_Inr[OF assms(2) r k(1)] assms(4) k(2) r show "\<exists>x k'. m k = (Inr x, k') \<and> good k' \<and> Q x (view k')" by blast
qed

lemma returns_conseq:
  "returns good view P m Q \<Longrightarrow> (\<And>K. P' K \<Longrightarrow> P K) \<Longrightarrow> (\<And>x K. Q x K \<Longrightarrow> Q' x K) \<Longrightarrow> returns good view P' m Q'"
  unfolding returns_def by blast

lemma returns_pre: "returns good view P m Q \<Longrightarrow> (\<And>K. P' K \<Longrightarrow> P K) \<Longrightarrow> returns good view P' m Q"
  by (rule returns_conseq)

lemma returns_ret: "(\<And>K. P K \<Longrightarrow> Q x K) \<Longrightarrow> returns good view P (ret x) Q"
  by (simp add: returns_def)

lemma returns_bind:
  assumes "returns good view P m R" "\<And>x. returns good view (R x) (f x) Q"
  shows "returns good view P (bind_io m f) Q"
  unfolding returns_def
proof (intro allI impI)
  fix k
  assume "good k" "P (view k)"
  with assms(1) obtain x t where m: "m k = (Inr x, t)" and t: "good t" "R x (view t)" by (rule returns_run)
  from assms(2) t obtain y k' where "f x t = (Inr y, k')" "good k'" "Q y (view k')" by (rule returns_run)
  with m show "\<exists>y k'. bind_io m f k = (Inr y, k') \<and> good k' \<and> Q y (view k')" by (auto simp: bind_io_def)
qed

lemma returns_on_err: "returns good view P m Q \<Longrightarrow> returns good view P (on_err g m) Q"
  unfolding returns_def by (metis on_err_Inr)

lemma returns_if: "(b \<Longrightarrow> returns good view P m Q) \<Longrightarrow> (\<not> b \<Longrightarrow> returns good view P n Q) \<Longrightarrow> returns good view P (if b then m else n) Q"
  by simp

lemma returns_fact: "(\<And>K. P K \<Longrightarrow> B) \<Longrightarrow> (B \<Longrightarrow> returns good view P m Q) \<Longrightarrow> returns good view P m Q"
  unfolding returns_def by blast

lemma returns_catch_ok:
  assumes "returns good view P m R" "\<And>x. returns good view (R x) (f (Inr x)) Q"
  shows "returns good view P (catch m f) Q"
  unfolding returns_def
proof (intro allI impI)
  fix k
  assume "good k" "P (view k)"
  with assms(1) obtain x t where m: "m k = (Inr x, t)" and t: "good t" "R x (view t)" by (rule returns_run)
  from assms(2) t obtain y k' where "f (Inr x) t = (Inr y, k')" "good k'" "Q y (view k')" by (rule returns_run)
  with m show "\<exists>y k'. catch m f k = (Inr y, k') \<and> good k' \<and> Q y (view k')" by (auto simp: catch_def)
qed

text \<open>A loop whose assertion depends on what is left to do.\<close>

lemma returns_for_each:
  assumes "\<And>x xs. returns good view (I (x # xs)) (f x) (\<lambda>_. I xs)"
  shows "returns good view (I xs) (for_each f xs) (\<lambda>_. I [])"
proof (induction xs)
  case Nil
  show ?case by (simp add: returns_ret)
next
  case (Cons x xs)
  show ?case unfolding for_each.simps by (rule returns_bind[OF assms Cons.IH])
qed

lemma returns_for_each_in:
  assumes "\<And>x. x \<in> set xs \<Longrightarrow> returns good view P (f x) (\<lambda>_. P)"
  shows "returns good view P (for_each f xs) (\<lambda>_. P)"
  using assms
proof (induction xs)
  case Nil
  show ?case by (simp add: returns_ret)
next
  case (Cons x xs)
  show ?case unfolding for_each.simps by (rule returns_bind, rule Cons.prems, simp, rule Cons.IH, rule Cons.prems, simp)
qed

text \<open>What is known of the results of partial correctness may be added.\<close>

lemma returns_also:
  assumes "returns good view P m Q" "\<And>k x k'. good k \<Longrightarrow> P (view k) \<Longrightarrow> m k = (Inr x, k') \<Longrightarrow> R x (view k')"
  shows "returns good view P m (\<lambda>x K. Q x K \<and> R x K)"
  using assms unfolding returns_def by blast

end
