(* ===== verification/ConvergeLive.thy ===== *)
theory ConvergeLive
  imports Converge Total
begin

text \<open>
  The egress controller makes progress: on an API server that answers (\<open>kube_live\<close>) and
  accepts the objects made for a live egress, a call of \<open>Reconcile\<close> returns, and the
  cluster it leaves is the one the next call leaves too. What the server accepts is a
  parameter: it validates objects, and refuses for one a pod template with two containers
  of the same name.
\<close>

section \<open>The interface\<close>

text \<open>A lookup finds what is there, and fails with the not-found error otherwise.\<close>

definition answers :: "('k \<Rightarrow> bool) \<Rightarrow> ('k \<Rightarrow> 'v) \<Rightarrow> ('k, 'a) io \<Rightarrow> ('v \<Rightarrow> bool) \<Rightarrow> bool" where
  "answers good view m there \<longleftrightarrow>
     (\<forall>k. good k \<longrightarrow> (if there (view k) then \<exists>x k'. m k = (Inr x, k') else \<exists>e k'. m k = (Inl e, k') \<and> IsNotFound e))"

text \<open>The status that an update leaves: that of the object sent, on the object stored.\<close>

definition with_status :: "egress \<Rightarrow> egress \<Rightarrow> egress" where
  "with_status e x = x\<lparr>eg_StatusReplicas := eg_StatusReplicas e, eg_StatusSelector := eg_StatusSelector e\<rparr>"

text \<open>
  What the server accepts: the objects that pass its validation (\<open>acc\<close>, which may compare
  with the one that is there), and one that is stored as the object that is there already.
\<close>

definition accepted :: "('a option \<Rightarrow> 'a \<Rightarrow> bool) \<Rightarrow> ('a \<Rightarrow> 'a \<Rightarrow> bool) \<Rightarrow> 'a option \<Rightarrow> 'a \<Rightarrow> bool" where
  "accepted acc stored old d \<longleftrightarrow> acc old d \<or> (\<exists>s. old = Some s \<and> stored d s)"

definition makes :: "('a option \<Rightarrow> 'a \<Rightarrow> bool) \<Rightarrow> ('a \<Rightarrow> 'a \<Rightarrow> bool) \<Rightarrow> 'a \<Rightarrow> ('a \<Rightarrow> err + 'a) \<Rightarrow> 'a option \<Rightarrow> bool" where
  "makes acc stored blank f old \<longleftrightarrow> (\<exists>d. f (old_or blank old) = Inr d \<and> accepted acc stored old d)"

locale kube_live = kube_quiet kb good view df
  for kb :: "'k kube" and good :: "'k \<Rightarrow> bool" and view :: "'k \<Rightarrow> cluster" and df :: defaults +
  fixes acc_dep :: "deployment option \<Rightarrow> deployment \<Rightarrow> bool" and acc_svc :: "service option \<Rightarrow> service \<Rightarrow> bool"
    and acc_pdb :: "pdb option \<Rightarrow> pdb \<Rightarrow> bool"
  assumes live_GetEgress: "answers good view (kb_GetEgress kb key) (\<lambda>K. cl_egress K key \<noteq> None)"
    and live_ListEgress: "succeeds good view (\<lambda>_. True) (kb_ListEgress kb)"
    and live_status: "good k \<Longrightarrow> cl_egress (view k) (eg_key eg) = Some x \<Longrightarrow>
      \<exists>k'. kb_UpdateEgressStatus kb eg k = (Inr (), k') \<and> view k' = (view k)\<lparr>cl_egress := (cl_egress (view k))(eg_key eg \<mapsto> with_status eg x)\<rparr>"
    and live_GetServiceAccount: "answers good view (kb_GetServiceAccount kb key) (\<lambda>K. cl_sa K key)"
    and live_CreateServiceAccount: "succeeds good view (\<lambda>K. \<not> cl_sa K key) (kb_CreateServiceAccount kb key)"
    and live_GetClusterRole: "answers good view (kb_GetClusterRole kb n) (\<lambda>K. cl_cr K n \<noteq> None)"
    and live_CreateClusterRole: "succeeds good view (\<lambda>K. cl_cr K (cr_Name cr) = None) (kb_CreateClusterRole kb cr)"
    and live_GetCRB: "answers good view (kb_GetCRB kb n) (\<lambda>K. cl_crb K n \<noteq> None)"
    and live_CreateCRB: "succeeds good view (\<lambda>K. cl_crb K (crb_Name crb) = None) (kb_CreateCRB kb crb)"
    and live_PatchCRB: "succeeds good view (\<lambda>K. cl_crb K (crb_Name old) = Some old) (kb_PatchCRB kb crb old)"
    and live_GetDeployment: "answers good view (kb_GetDeployment kb key) (\<lambda>K. cl_dep K key \<noteq> None)"
    and live_Deployment: "succeeds good view (\<lambda>K. makes acc_dep (stored_dep df) (blank_deployment key) fd (cl_dep K key)) (kb_CreateOrUpdateDeployment kb key fd)"
    and live_Service: "succeeds good view (\<lambda>K. makes acc_svc (stored_svc df) (blank_service key) fs (cl_svc K key)) (kb_CreateOrUpdateService kb key fs)"
    and live_PDB: "succeeds good view (\<lambda>K. makes acc_pdb stored_pdb (blank_pdb key) fp (cl_pdb K key)) (kb_CreateOrUpdatePDB kb key fp)"
begin

text \<open>The pattern of the first stages: look up, and create what is not there.\<close>

lemma returns_get_or:
  assumes ans: "answers good view m there" and m: "meets good view m S F"
    and fr: "\<And>x K K'. S x K K' \<Longrightarrow> there K \<Longrightarrow> Q x K'" "\<And>e K K'. F e K K' \<Longrightarrow> K' = K"
    and found: "\<And>x. returns good view (Q x) (f (Inr x)) R"
    and lost: "\<And>e. IsNotFound e \<Longrightarrow> returns good view (\<lambda>K. \<not> there K) (f (Inl e)) R"
  shows "returns good view (\<lambda>_. True) (catch m f) R"
  unfolding returns_def
proof (intro allI impI)
  fix k
  assume g: "good k"
  show "\<exists>x k'. catch m f k = (Inr x, k') \<and> good k' \<and> R x (view k')"
  proof (cases "there (view k)")
    case True
    with ans g obtain x t where t: "m k = (Inr x, t)" unfolding answers_def by metis
    from meets_Inr[OF m t g] fr(1) True have "good t" "Q x (view t)" by blast+
    with returns_run[OF found] t show ?thesis unfolding catch_def by (metis case_prod_conv)
  next
    case False
    with ans g obtain e t where t: "m k = (Inl e, t)" and e: "IsNotFound e" unfolding answers_def by metis
    from meets_Inl[OF m t g] fr(2) have "good t" "view t = view k" by blast+
    with returns_run[OF lost[OF e], of t] False t show ?thesis unfolding catch_def by (metis case_prod_conv)
  qed
qed

lemma sa_live: "returns good view (\<lambda>_. True) (reconcileServiceAccount kb eg) (\<lambda>_ _. True)"
  unfolding reconcileServiceAccount_def Let_def
  by (rule returns_get_or[OF live_GetServiceAccount GetServiceAccount, where Q = "\<lambda>_ _. True"])
    (auto simp: same_def intro: returns_ret returns_call[OF live_CreateServiceAccount CreateServiceAccount])

lemma cr_live: "returns good view (\<lambda>_. True) (reconcileCR kb) (\<lambda>_ _. True)"
  unfolding reconcileCR_def
  by (rule returns_get_or[OF live_GetClusterRole GetClusterRole, where Q = "\<lambda>_ _. True"])
    (auto simp: same_def egress_role_def intro: returns_ret returns_call[OF live_CreateClusterRole CreateClusterRole])

lemma crb_live: "returns good view (\<lambda>_. True) (reconcileCRB kb) (\<lambda>_ _. True)"
proof -
  let ?Q = "\<lambda>crb K. cl_crb K (crb_Name crb) = Some crb"
  have c: "returns good view (\<lambda>K. \<not> cl_crb K egressCRBName \<noteq> None) (kb_CreateCRB kb new_crb) ?Q"
    by (rule returns_call[OF live_CreateCRB CreateCRB]) (auto simp: new_crb_def)
  have g: "returns good view (\<lambda>_. True) (catch (kb_GetCRB kb egressCRBName) (\<lambda>q. case q of
          Inl e \<Rightarrow> if IsNotFound e then on_err (Errorw ''failed to create CRB resource'') (kb_CreateCRB kb new_crb)
            else throw (Errorw ''unable to get CRB'' e)
        | Inr crb \<Rightarrow> ret crb)) ?Q"
    by (rule returns_get_or[OF live_GetCRB GetCRB, where Q = ?Q]) (auto simp: same_def get_ok_def intro: returns_ret returns_on_err c[simplified])
  have l: "returns good view (?Q crb) (kb_ListEgress kb) (\<lambda>_. ?Q crb)" for crb
    by (rule returns_call[OF live_ListEgress ListEgress]) auto
  have p: "returns good view (?Q crb) (kb_PatchCRB kb x crb) (\<lambda>_ _. True)" for x crb
    by (rule returns_call[OF live_PatchCRB PatchCRB]) auto
  show ?thesis unfolding reconcileCRB_def
    by (rule returns_bind[OF g], rule returns_bind[OF returns_on_err[OF l]], rule returns_on_err[OF p])
qed

end

text \<open>The selector can be written as a string.\<close>

definition never_fails :: "('a \<Rightarrow> err + 'b) \<Rightarrow> bool" where
  "never_fails f \<longleftrightarrow> (\<forall>x. \<exists>y. f x = Inr y)"

text \<open>
  The three objects that the mutations make for an egress from those that are there, which
  includes that the owner reference can be set, are accepted by the server.
\<close>

definition acceptable ::
  "(deployment option \<Rightarrow> deployment \<Rightarrow> bool) \<Rightarrow> (service option \<Rightarrow> service \<Rightarrow> bool) \<Rightarrow> (pdb option \<Rightarrow> pdb \<Rightarrow> bool) \<Rightarrow>
   defaults \<Rightarrow> reconciler \<Rightarrow> (egress \<Rightarrow> object_meta \<Rightarrow> err + object_meta) \<Rightarrow> egress \<Rightarrow> cluster \<Rightarrow> bool" where
  "acceptable ad asv ap df r setref eg K \<longleftrightarrow>
     makes ad (stored_dep df) (blank_deployment (eg_key eg)) (mutate_deployment r setref eg) (cl_dep K (eg_key eg)) \<and>
     makes asv (stored_svc df) (blank_service (eg_key eg)) (mutate_service r setref eg) (cl_svc K (eg_key eg)) \<and>
     (\<forall>spec. eg_PodDisruptionBudget eg = Some spec \<longrightarrow>
        makes ap stored_pdb (blank_pdb (eg_key eg)) (mutate_pdb setref eg spec) (cl_pdb K (eg_key eg)))"

text \<open>What is settled is sent again, and accepted as what is there.\<close>

lemma settled_acceptable: "settled df r setref eg N K \<Longrightarrow> acceptable ad asv ap df r setref eg K"
  by (fastforce simp: settled_def acceptable_def makes_def accepted_def old_or_def)

lemma returns_keep:
  assumes "returns good view (\<lambda>_. True) m (\<lambda>_ _. True)" "\<And>k x k'. good k \<Longrightarrow> m k = (Inr x, k') \<Longrightarrow> P (view k) \<Longrightarrow> P (view k')"
  shows "returns good view P m (\<lambda>_. P)"
  using assms unfolding returns_def by blast

context kube_live
begin

abbreviation fits :: "reconciler \<Rightarrow> (egress \<Rightarrow> object_meta \<Rightarrow> err + object_meta) \<Rightarrow> egress \<Rightarrow> cluster \<Rightarrow> bool" where
  "fits r setref eg \<equiv> acceptable acc_dep acc_svc acc_pdb df r setref eg"

lemma stages_live: "returns good view (fits r setref eg) (egress_stages kb r setref eg) (\<lambda>_ _. True)"
proof -
  let ?S = "\<lambda>K. makes acc_svc (stored_svc df) (blank_service (eg_key eg)) (mutate_service r setref eg) (cl_svc K (eg_key eg))"
  let ?P = "\<lambda>K. \<forall>spec. eg_PodDisruptionBudget eg = Some spec \<longrightarrow>
    makes acc_pdb stored_pdb (blank_pdb (eg_key eg)) (mutate_pdb setref eg spec) (cl_pdb K (eg_key eg))"
  have a: "returns good view (fits r setref eg) (reconcileServiceAccount kb eg) (\<lambda>_. fits r setref eg)"
    by (rule returns_keep[OF sa_live]) (auto simp: acceptable_def dest: sa_stage)
  have c: "returns good view (fits r setref eg) (reconcileCR kb) (\<lambda>_. fits r setref eg)"
    by (rule returns_keep[OF cr_live]) (auto simp: acceptable_def dest: cr_stage)
  have b: "returns good view (fits r setref eg) (reconcileCRB kb) (\<lambda>_. fits r setref eg)"
    by (rule returns_keep[OF crb_live]) (auto simp: acceptable_def dest: crb_stage)
  have d: "returns good view (fits r setref eg) (reconcileDeployment kb r setref eg) (\<lambda>_ K. ?S K \<and> ?P K)"
    unfolding reconcileDeployment_def
    by (rule returns_on_err, rule returns_call[OF live_Deployment CreateOrUpdateDeployment]) (auto simp: acceptable_def)
  have s: "returns good view (\<lambda>K. ?S K \<and> ?P K) (reconcileService kb r setref eg) (\<lambda>_. ?P)"
    unfolding reconcileService_def by (rule returns_call[OF live_Service CreateOrUpdateService]) auto
  have "returns good view ?P (kb_CreateOrUpdatePDB kb (eg_key eg) (mutate_pdb setref eg spec)) (\<lambda>_ _. True)"
    if "eg_PodDisruptionBudget eg = Some spec" for spec
    by (rule returns_call[OF live_PDB CreateOrUpdatePDB]) (use that in auto)
  then have p: "returns good view ?P (reconcilePDB kb setref eg) (\<lambda>_ _. True)"
    unfolding reconcilePDB_def by (auto intro: returns_ret returns_on_err split: option.split)
  show ?thesis unfolding egress_stages_def
    by (rule returns_bind[OF a], rule returns_bind[OF c], rule returns_bind[OF b], rule returns_bind[OF d],
        rule returns_bind[OF s], rule p)
qed

text \<open>After the status was written it is current.\<close>

lemma updateStatus_live:
  assumes g: "good k" and eg: "cl_egress (view k) (eg_key eg) = Some eg" and dep: "cl_dep (view k) (eg_key eg) \<noteq> None" and sel: "never_fails selstr"
  shows "\<exists>k'. updateStatus kb selstr eg k = (Inr (), k') \<and> status_current selstr (eg_key eg) (view k')"
proof -
  from live_GetDeployment dep g obtain d t where d: "kb_GetDeployment kb (eg_key eg) k = (Inr d, t)" unfolding answers_def by metis
  from meets_Inr[OF GetDeployment d g] have t: "good t" "view t = view k" "cl_dep (view k) (eg_key eg) = Some d" by (auto simp: get_ok_def)
  from sel obtain s where s: "selstr (dep_Selector d) = Inr s" by (auto simp: never_fails_def)
  show ?thesis
  proof (cases "eg_StatusSelector eg = s \<and> eg_StatusReplicas eg = dep_AvailableReplicas d")
    case True
    with d s t eg show ?thesis by (auto simp: updateStatus_def bind_io_def on_err_def status_current_def ret_def)
  next
    case False
    let ?e = "eg\<lparr>eg_StatusSelector := s, eg_StatusReplicas := dep_AvailableReplicas d\<rparr>"
    have key: "eg_key ?e = eg_key eg" by (simp add: eg_key_def)
    from live_status[OF t(1), of ?e eg] eg t(2) obtain k' where k': "kb_UpdateEgressStatus kb ?e t = (Inr (), k')"
      "view k' = (view k)\<lparr>cl_egress := (cl_egress (view k))(eg_key eg \<mapsto> with_status ?e eg)\<rparr>" by (auto simp: key)
    with False d s t(3) show ?thesis
      by (auto simp: updateStatus_def bind_io_def on_err_def status_current_def with_status_def)
  qed
qed

lemma Reconcile_live:
  assumes g: "good k" and eg: "cl_egress (view k) req = Some eg" "om_DeletionTimestamp (eg_Meta eg) = None"
    and r: "keeps_meta setref" "acceptable acc_dep acc_svc acc_pdb df r setref eg (view k)" "never_fails selstr"
  shows "\<exists>k'. egress_Reconcile kb r setref selstr req k = (Inr (), k') \<and> status_current selstr req (view k')"
proof -
  from live_GetEgress eg(1) g obtain x k0 where get: "kb_GetEgress kb req k = (Inr x, k0)" unfolding answers_def by (metis option.simps(3))
  from meets_Inr[OF GetEgress get g] eg(1) have k0: "good k0" "view k0 = view k" "x = eg" "eg_key eg = req" by (auto simp: get_ok_def)
  from stages_live k0(1) r(2)[folded k0(2)] obtain k7 where st: "egress_stages kb r setref eg k0 = (Inr (), k7)" by (rule returns_unit)
  from stages_egress[OF k0(1) r(1) st] k0(2) have k7: "good k7" "cl_egress (view k7) (eg_key eg) = Some eg" by (auto simp: k0(4) eg)
  have "cl_dep (view k7) (eg_key eg) \<noteq> None" using stages_egress[OF k0(1) r(1) st] by simp
  from updateStatus_live[OF k7 this r(3)] obtain k' where "updateStatus kb selstr eg k7 = (Inr (), k')" "status_current selstr req (view k')"
    by (auto simp: k0(4))
  with get st eg(2) show ?thesis by (simp add: egress_Reconcile_def catch_def k0(3) with_defer_def)
qed

end

section \<open>The API server in memory\<close>

lemma with_status_update:
  assumes "distinct (map eg_key es)" "map_of (map (\<lambda>x. (eg_key x, x)) es) (eg_key e) = Some x"
  shows "map_of (map (\<lambda>x. (eg_key x, x)) (map (ks_status e) es)) = (map_of (map (\<lambda>x. (eg_key x, x)) es))(eg_key e \<mapsto> with_status e x)"
  using assms
proof (induction es)
  case (Cons y es)
  show ?case
  proof (cases "eg_key y = eg_key e")
    case True
    with Cons.prems(1) have "eg_key z \<noteq> eg_key e" if "z \<in> set es" for z using that by (metis distinct.simps(2) image_eqI list.simps(9) list.set_map)
    then have "map (ks_status e) es = es" by (intro map_idI) (simp add: ks_status_def)
    moreover have "ks_status e y = with_status e y" "eg_key (with_status e y) = eg_key e" "y = x"
      using True Cons.prems(2) by (simp_all add: ks_status_def with_status_def eg_key_def)
    ultimately show ?thesis using True by (simp add: fun_eq_iff del: map_map)
  next
    case False
    then have "ks_status e y = y" by (simp add: ks_status_def)
    with False Cons show ?thesis by (auto simp del: map_map)
  qed
qed simp

lemma ks_valid_stored: "stored_dep ks_defaults d s \<Longrightarrow> ks_valid s = ks_valid d"
  using ks_valid_keep[of d] by (auto simp: stored_dep_def ks_keep_dep_def ks_valid_def)

interpretation ksl: kube_live ks_kube ks_good ks_view ks_defaults "\<lambda>_. ks_valid" "\<lambda>_ _. True" "\<lambda>_ _. True"
proof (unfold_locales, goal_cases)
  case (3 k eg x)
  then have "distinct (map eg_key (ks_egresses k))" "map_of (map (\<lambda>x. (eg_key x, x)) (ks_egresses k)) (eg_key eg) = Some x"
    by (simp_all add: ks_good_def ks_view_def)
  from with_status_update[OF this] show ?case by (simp add: ks_kube_def ks_view_def del: map_map)
next
  case (12 key fd)
  have "ks_valid d" if "ks_good k" "accepted (\<lambda>_. ks_valid) (stored_dep ks_defaults) (ks_dep k key) d" for k d
    using that by (auto simp: accepted_def ks_good_def dest: ks_valid_stored)
  then show ?case by (auto simp: succeeds_def makes_def ks_kube_def ks_view_def)
qed (auto simp: answers_def succeeds_def makes_def ks_defs ks_find split: option.splits)

section \<open>Properties\<close>

text \<open>
  C13. The loop of the controller ends. Take a live egress, an API server that answers,
  fills in defaults and has no other writer, and suppose it accepts the deployment, service
  and disruption budget that the controller makes from those that are there. Then
  \<open>Reconcile\<close> returns without an error, and so does the next call, which leaves the
  cluster as the first one left it, the status of the egress included: although the code
  sends the pod template without the defaults each time, what is stored is the same object,
  and the events that the controller's own writes cause die out. Nothing is said of an
  egress whose objects the server refuses, such as a template with a sidecar for which the
  controller makes two containers of the same name.
\<close>

theorem egress_Reconcile_converges:
  assumes "kube_live kb good view df acc_dep acc_svc acc_pdb" "good k" "keeps_meta setref" "meta_only setref" "never_fails selstr"
    and "cl_egress (view k) req = Some eg" "om_DeletionTimestamp (eg_Meta eg) = None"
    and "acceptable acc_dep acc_svc acc_pdb df r setref eg (view k)"
  shows "\<exists>k1 k2. egress_Reconcile kb r setref selstr req k = (Inr (), k1) \<and> egress_Reconcile kb r setref selstr req k1 = (Inr (), k2) \<and>
    settled df r setref eg (eg_Namespace ` ran (cl_egress (view k1))) (view k1) \<and> status_current selstr req (view k1) \<and> view k2 = view k1"
proof -
  have q: "kube_quiet kb good view df" using assms(1) by (simp add: kube_live_def)
  note live = kube_live.Reconcile_live[OF assms(1) _ _ _ assms(3) _ assms(5)]
  from live[OF assms(2,6,7,8)] obtain k1 where r1: "egress_Reconcile kb r setref selstr req k = (Inr (), k1)" and s1: "status_current selstr req (view k1)" by blast
  from kube_quiet.Reconcile_settles[OF q assms(2,3,4,6,7) r1] obtain e where g1: "good k1" and e: "cl_egress (view k1) req = Some e" "bare e = bare eg"
    and st: "settled df r setref e (eg_Namespace ` ran (cl_egress (view k1))) (view k1)" by blast
  have d: "om_DeletionTimestamp (eg_Meta e) = None" using bare_fields(1)[OF e(2)] assms(7) by simp
  from live[OF g1 e(1) d settled_acceptable[OF st]] obtain k2 where r2: "egress_Reconcile kb r setref selstr req k1 = (Inr (), k2)" by blast
  from kube_quiet.Reconcile_quiet[OF q g1 e(1) st r2] s1 have "view k2 = view k1" by blast
  with r1 r2 s1 st settled_bare[OF e(2) assms(4)] show ?thesis by blast
qed

theorem egress_Reconcile_converges_witness:
  "\<exists>k1 k2. egress_Reconcile ks_kube demo_r demo_setref demo_selstr demo_key demo_cluster = (Inr (), k1) \<and>
     egress_Reconcile ks_kube demo_r demo_setref demo_selstr demo_key k1 = (Inr (), k2) \<and> ks_view k2 = ks_view k1"
proof -
  have "meta_only demo_setref" by (simp add: meta_only_def fun_eq_iff)
  moreover have "never_fails demo_selstr" by (simp add: never_fails_def)
  moreover have "acceptable (\<lambda>_. ks_valid) (\<lambda>_ _. True) (\<lambda>_ _. True) ks_defaults demo_r demo_setref (demo_egress []) (ks_view demo_cluster)"
  proof -
    have key: "eg_key (demo_egress []) = demo_key" by code_simp
    have "case mutate_deployment demo_r demo_setref (demo_egress []) (blank_deployment demo_key) of Inr d \<Rightarrow> ks_valid d | Inl _ \<Rightarrow> False"
      "case mutate_service demo_r demo_setref (demo_egress []) (blank_service demo_key) of Inr d \<Rightarrow> True | Inl _ \<Rightarrow> False"
      "eg_PodDisruptionBudget (demo_egress []) = None" by code_simp+
    then show ?thesis
      by (auto simp: acceptable_def makes_def accepted_def key demo_cluster_def ks_new_def ks_view_def old_or_def split: sum.splits)
  qed
  ultimately show ?thesis
    using egress_Reconcile_converges[OF ksl.kube_live_axioms demo_cluster_facts(1,4) _ _ demo_cluster_facts(2,3), of demo_selstr demo_r] by blast
qed

end
