(* ===== verification/DeepCopy.thy ===== *)
theory DeepCopy
  imports EgressController "HOL-Library.AList" "HOL-Library.Multiset"
begin

text \<open>
  The deep copies of the API types (\<open>api/v1beta1/zz_generated.deepcopy.go\<close>). What they
  are for is aliasing, so pointers, slices and maps are addresses in an explicit store
  here, and a struct holds the addresses of what it refers to. \<open>DeepCopyInto\<close> returns
  the struct that is written into \<open>out\<close>, together with the store. The structs of the
  Kubernetes libraries are values of an unknown type \<open>'x\<close>, whose own cells are
  \<open>LibCell\<close>s; their \<open>DeepCopyInto\<close> functions are the argument \<open>lib\<close>. The interface
  \<open>deep_copier\<close> states what a deep copy promises; it is passed on from fields to
  structs, from a type to pointers to it and to arrays of it.
\<close>

section \<open>The store\<close>

text \<open>An address stands for a cell; \<open>nil\<close> is \<open>None\<close>.\<close>

type_synonym ptr = "nat option"

text \<open>A slice: its array, the position of its first element and its length.\<close>

record slice =
  sl_Array :: nat
  sl_Off :: nat
  sl_Len :: nat

record go_metadata =
  md_Annotations :: ptr
  md_Labels :: ptr

record 'x go_template =
  tm_Metadata :: go_metadata
  tm_Spec :: 'x

record go_pdb_spec =
  gp_MinAvailable :: ptr
  gp_MaxUnavailable :: ptr

record go_spec =
  gs_Destinations :: "slice option"
  gs_Replicas :: int
  gs_Strategy :: ptr
  gs_Template :: ptr
  gs_SessionAffinity :: string
  gs_SessionAffinityConfig :: ptr
  gs_PodDisruptionBudget :: ptr

record go_status =
  gst_Replicas :: int
  gst_Selector :: string

record 'x go_egress =
  ge_TypeMeta :: "string \<times> string"
  ge_ObjectMeta :: 'x
  ge_Spec :: go_spec
  ge_Status :: go_status

record 'x go_egress_list =
  gl_TypeMeta :: "string \<times> string"
  gl_ListMeta :: 'x
  gl_Items :: "slice option"

datatype ('x, 'l) cell =
    StringArray "string list"
  | StringMap "(string \<times> string) list"
  | IntOrStringCell int_or_string
  | StrategyCell 'x
  | AffinityCell 'x
  | MetadataCell go_metadata
  | TemplateCell "'x go_template"
  | PDBSpecCell go_pdb_spec
  | SpecCell go_spec
  | StatusCell go_status
  | EgressCell "'x go_egress"
  | EgressArray "'x go_egress list"
  | EgressListCell "'x go_egress_list"
  | LibCell 'l

record ('x, 'l) store =
  st_next :: nat
  st_cell :: "nat \<Rightarrow> ('x, 'l) cell option"

text \<open>\<open>new\<close> and \<open>make\<close> take the next address; the cell is filled when its value is known.\<close>

definition reserve :: "('x, 'l) store \<Rightarrow> nat \<times> ('x, 'l) store" where
  "reserve s = (st_next s, s\<lparr>st_next := Suc (st_next s)\<rparr>)"

definition put :: "nat \<Rightarrow> ('x, 'l) cell \<Rightarrow> ('x, 'l) store \<Rightarrow> ('x, 'l) store" where
  "put p c s = s\<lparr>st_cell := (st_cell s)(p \<mapsto> c)\<rparr>"

text \<open>What is read through a pointer to a cell of the kind \<open>get\<close> recognises.\<close>

definition load :: "(('x, 'l) cell \<Rightarrow> 'a option) \<Rightarrow> ('x, 'l) store \<Rightarrow> nat \<Rightarrow> 'a option" where
  "load get s p = (case st_cell s p of None \<Rightarrow> None | Some c \<Rightarrow> get c)"

definition get_strings :: "('x, 'l) cell \<Rightarrow> (string list) option" where
  "get_strings c = (case c of StringArray v \<Rightarrow> Some v | _ \<Rightarrow> None)"

definition get_map :: "('x, 'l) cell \<Rightarrow> ((string \<times> string) list) option" where
  "get_map c = (case c of StringMap v \<Rightarrow> Some v | _ \<Rightarrow> None)"

definition get_int_or_string :: "('x, 'l) cell \<Rightarrow> (int_or_string) option" where
  "get_int_or_string c = (case c of IntOrStringCell v \<Rightarrow> Some v | _ \<Rightarrow> None)"

definition get_strategy :: "('x, 'l) cell \<Rightarrow> ('x) option" where
  "get_strategy c = (case c of StrategyCell v \<Rightarrow> Some v | _ \<Rightarrow> None)"

definition get_affinity :: "('x, 'l) cell \<Rightarrow> ('x) option" where
  "get_affinity c = (case c of AffinityCell v \<Rightarrow> Some v | _ \<Rightarrow> None)"

definition get_metadata :: "('x, 'l) cell \<Rightarrow> (go_metadata) option" where
  "get_metadata c = (case c of MetadataCell v \<Rightarrow> Some v | _ \<Rightarrow> None)"

definition get_template :: "('x, 'l) cell \<Rightarrow> ('x go_template) option" where
  "get_template c = (case c of TemplateCell v \<Rightarrow> Some v | _ \<Rightarrow> None)"

definition get_pdb_spec :: "('x, 'l) cell \<Rightarrow> (go_pdb_spec) option" where
  "get_pdb_spec c = (case c of PDBSpecCell v \<Rightarrow> Some v | _ \<Rightarrow> None)"

definition get_spec :: "('x, 'l) cell \<Rightarrow> (go_spec) option" where
  "get_spec c = (case c of SpecCell v \<Rightarrow> Some v | _ \<Rightarrow> None)"

definition get_status :: "('x, 'l) cell \<Rightarrow> (go_status) option" where
  "get_status c = (case c of StatusCell v \<Rightarrow> Some v | _ \<Rightarrow> None)"

definition get_egress :: "('x, 'l) cell \<Rightarrow> ('x go_egress) option" where
  "get_egress c = (case c of EgressCell v \<Rightarrow> Some v | _ \<Rightarrow> None)"

definition get_egresses :: "('x, 'l) cell \<Rightarrow> ('x go_egress list) option" where
  "get_egresses c = (case c of EgressArray v \<Rightarrow> Some v | _ \<Rightarrow> None)"

definition get_egress_list :: "('x, 'l) cell \<Rightarrow> ('x go_egress_list) option" where
  "get_egress_list c = (case c of EgressListCell v \<Rightarrow> Some v | _ \<Rightarrow> None)"

lemmas get_defs = get_strings_def get_map_def get_int_or_string_def get_strategy_def get_affinity_def get_metadata_def get_template_def
  get_pdb_spec_def get_spec_def get_status_def get_egress_def get_egresses_def get_egress_list_def

section \<open>The copies\<close>

text \<open>
  \<open>*out = new(T); (*in).DeepCopyInto(*out)\<close> under \<open>if in != nil\<close>, for the kind of cell
  that \<open>mk\<close> makes and \<open>get\<close> reads.
\<close>

definition copy_new ::
  "('a \<Rightarrow> ('x, 'l) cell) \<Rightarrow> (('x, 'l) cell \<Rightarrow> 'a option) \<Rightarrow> ('a \<Rightarrow> ('x, 'l) store \<Rightarrow> 'a \<times> ('x, 'l) store) \<Rightarrow>
   ptr \<Rightarrow> ('x, 'l) store \<Rightarrow> ptr \<times> ('x, 'l) store" where
  "copy_new mk get dc p s =
     (case Option.bind p (load get s) of
        None \<Rightarrow> (None, s)
      | Some x \<Rightarrow> let (q, s) = reserve s; (y, s) = dc x s in (Some q, put q (mk y) s))"

text \<open>\<open>*out = *in\<close> for a struct without pointers.\<close>

definition copy_plain :: "'a \<Rightarrow> ('x, 'l) store \<Rightarrow> 'a \<times> ('x, 'l) store" where
  "copy_plain x s = (x, s)"

definition slice_elems :: "'a list \<Rightarrow> slice \<Rightarrow> 'a list" where
  "slice_elems arr sl = take (sl_Len sl) (drop (sl_Off sl) arr)"

text \<open>The loop over the elements, in order; \<open>make\<close> comes before it. \<open>copy\<close> on an array of
  strings is this loop with \<open>copy_plain\<close>.\<close>

fun copy_elems :: "('a \<Rightarrow> ('x, 'l) store \<Rightarrow> 'a \<times> ('x, 'l) store) \<Rightarrow> 'a list \<Rightarrow> ('x, 'l) store \<Rightarrow> 'a list \<times> ('x, 'l) store" where
  "copy_elems dc [] s = ([], s)"
| "copy_elems dc (x # xs) s = (let (y, s) = dc x s; (ys, s) = copy_elems dc xs s in (y # ys, s))"

definition copy_slice ::
  "('a list \<Rightarrow> ('x, 'l) cell) \<Rightarrow> (('x, 'l) cell \<Rightarrow> 'a list option) \<Rightarrow> ('a \<Rightarrow> ('x, 'l) store \<Rightarrow> 'a \<times> ('x, 'l) store) \<Rightarrow>
   slice option \<Rightarrow> ('x, 'l) store \<Rightarrow> slice option \<times> ('x, 'l) store" where
  "copy_slice mk get dc inp s =
     (case inp of
        None \<Rightarrow> (None, s)
      | Some sl \<Rightarrow>
          (case load get s (sl_Array sl) of
             None \<Rightarrow> (None, s)
           | Some arr \<Rightarrow>
               let (q, s) = reserve s; (ys, s) = copy_elems dc (slice_elems arr sl) s in
               (Some \<lparr>sl_Array = q, sl_Off = 0, sl_Len = sl_Len sl\<rparr>, put q (mk ys) s)))"

text \<open>
  The library: its copies, and the order in which \<open>range\<close> visits a map, which the
  language leaves open.
\<close>

record ('x, 'l) k8s_lib =
  lb_ObjectMeta :: "'x \<Rightarrow> ('x, 'l) store \<Rightarrow> 'x \<times> ('x, 'l) store"
  lb_ListMeta :: "'x \<Rightarrow> ('x, 'l) store \<Rightarrow> 'x \<times> ('x, 'l) store"
  lb_PodSpec :: "'x \<Rightarrow> ('x, 'l) store \<Rightarrow> 'x \<times> ('x, 'l) store"
  lb_DeploymentStrategy :: "'x \<Rightarrow> ('x, 'l) store \<Rightarrow> 'x \<times> ('x, 'l) store"
  lb_SessionAffinityConfig :: "'x \<Rightarrow> ('x, 'l) store \<Rightarrow> 'x \<times> ('x, 'l) store"
  lb_visit :: "(string \<times> string) list \<Rightarrow> (string \<times> string) list"

definition copy_entries :: "('x, 'l) k8s_lib \<Rightarrow> (string \<times> string) list \<Rightarrow> ('x, 'l) store \<Rightarrow> (string \<times> string) list \<times> ('x, 'l) store" where
  "copy_entries lib m s = (fold (\<lambda>(key, val) out. AList.update key val out) (lb_visit lib m) [], s)"

definition Metadata_DeepCopyInto :: "('x, 'l) k8s_lib \<Rightarrow> go_metadata \<Rightarrow> ('x, 'l) store \<Rightarrow> go_metadata \<times> ('x, 'l) store" where
  "Metadata_DeepCopyInto lib inp s =
     (let out = inp;
          (p, s) = copy_new StringMap get_map (copy_entries lib) (md_Annotations inp) s; out = out\<lparr>md_Annotations := p\<rparr>;
          (p, s) = copy_new StringMap get_map (copy_entries lib) (md_Labels inp) s; out = out\<lparr>md_Labels := p\<rparr> in
      (out, s))"

definition EgressPodTemplate_DeepCopyInto ::
  "('x, 'l) k8s_lib \<Rightarrow> 'x go_template \<Rightarrow> ('x, 'l) store \<Rightarrow> 'x go_template \<times> ('x, 'l) store" where
  "EgressPodTemplate_DeepCopyInto lib inp s =
     (let out = inp;
          (m, s) = Metadata_DeepCopyInto lib (tm_Metadata inp) s; out = out\<lparr>tm_Metadata := m\<rparr>;
          (x, s) = lb_PodSpec lib (tm_Spec inp) s; out = out\<lparr>tm_Spec := x\<rparr> in
      (out, s))"

definition EgressPDBSpec_DeepCopyInto :: "go_pdb_spec \<Rightarrow> ('x, 'l) store \<Rightarrow> go_pdb_spec \<times> ('x, 'l) store" where
  "EgressPDBSpec_DeepCopyInto inp s =
     (let out = inp;
          (p, s) = copy_new IntOrStringCell get_int_or_string copy_plain (gp_MinAvailable inp) s; out = out\<lparr>gp_MinAvailable := p\<rparr>;
          (p, s) = copy_new IntOrStringCell get_int_or_string copy_plain (gp_MaxUnavailable inp) s; out = out\<lparr>gp_MaxUnavailable := p\<rparr> in
      (out, s))"

definition EgressStatus_DeepCopyInto :: "go_status \<Rightarrow> ('x, 'l) store \<Rightarrow> go_status \<times> ('x, 'l) store" where
  "EgressStatus_DeepCopyInto inp s = copy_plain inp s"

definition EgressSpec_DeepCopyInto :: "('x, 'l) k8s_lib \<Rightarrow> go_spec \<Rightarrow> ('x, 'l) store \<Rightarrow> go_spec \<times> ('x, 'l) store" where
  "EgressSpec_DeepCopyInto lib inp s =
     (let out = inp;
          (d, s) = copy_slice StringArray get_strings copy_plain (gs_Destinations inp) s; out = out\<lparr>gs_Destinations := d\<rparr>;
          (p, s) = copy_new StrategyCell get_strategy (lb_DeploymentStrategy lib) (gs_Strategy inp) s; out = out\<lparr>gs_Strategy := p\<rparr>;
          (p, s) = copy_new TemplateCell get_template (EgressPodTemplate_DeepCopyInto lib) (gs_Template inp) s; out = out\<lparr>gs_Template := p\<rparr>;
          (p, s) = copy_new AffinityCell get_affinity (lb_SessionAffinityConfig lib) (gs_SessionAffinityConfig inp) s;
          out = out\<lparr>gs_SessionAffinityConfig := p\<rparr>;
          (p, s) = copy_new PDBSpecCell get_pdb_spec EgressPDBSpec_DeepCopyInto (gs_PodDisruptionBudget inp) s;
          out = out\<lparr>gs_PodDisruptionBudget := p\<rparr> in
      (out, s))"

definition Egress_DeepCopyInto :: "('x, 'l) k8s_lib \<Rightarrow> 'x go_egress \<Rightarrow> ('x, 'l) store \<Rightarrow> 'x go_egress \<times> ('x, 'l) store" where
  "Egress_DeepCopyInto lib inp s =
     (let out = inp;
          out = out\<lparr>ge_TypeMeta := ge_TypeMeta inp\<rparr>;
          (x, s) = lb_ObjectMeta lib (ge_ObjectMeta inp) s; out = out\<lparr>ge_ObjectMeta := x\<rparr>;
          (sp, s) = EgressSpec_DeepCopyInto lib (ge_Spec inp) s; out = out\<lparr>ge_Spec := sp\<rparr>;
          out = out\<lparr>ge_Status := ge_Status inp\<rparr> in
      (out, s))"

definition EgressList_DeepCopyInto :: "('x, 'l) k8s_lib \<Rightarrow> 'x go_egress_list \<Rightarrow> ('x, 'l) store \<Rightarrow> 'x go_egress_list \<times> ('x, 'l) store" where
  "EgressList_DeepCopyInto lib inp s =
     (let out = inp;
          out = out\<lparr>gl_TypeMeta := gl_TypeMeta inp\<rparr>;
          (x, s) = lb_ListMeta lib (gl_ListMeta inp) s; out = out\<lparr>gl_ListMeta := x\<rparr>;
          (d, s) = copy_slice EgressArray get_egresses (Egress_DeepCopyInto lib) (gl_Items inp) s; out = out\<lparr>gl_Items := d\<rparr> in
      (out, s))"

text \<open>The seven functions \<open>DeepCopy\<close>.\<close>

definition Metadata_DeepCopy :: "('x, 'l) k8s_lib \<Rightarrow> ptr \<Rightarrow> ('x, 'l) store \<Rightarrow> ptr \<times> ('x, 'l) store" where
  "Metadata_DeepCopy lib = copy_new MetadataCell get_metadata (Metadata_DeepCopyInto lib)"

definition EgressPodTemplate_DeepCopy :: "('x, 'l) k8s_lib \<Rightarrow> ptr \<Rightarrow> ('x, 'l) store \<Rightarrow> ptr \<times> ('x, 'l) store" where
  "EgressPodTemplate_DeepCopy lib = copy_new TemplateCell get_template (EgressPodTemplate_DeepCopyInto lib)"

definition EgressPDBSpec_DeepCopy :: "ptr \<Rightarrow> ('x, 'l) store \<Rightarrow> ptr \<times> ('x, 'l) store" where
  "EgressPDBSpec_DeepCopy = copy_new PDBSpecCell get_pdb_spec EgressPDBSpec_DeepCopyInto"

definition EgressSpec_DeepCopy :: "('x, 'l) k8s_lib \<Rightarrow> ptr \<Rightarrow> ('x, 'l) store \<Rightarrow> ptr \<times> ('x, 'l) store" where
  "EgressSpec_DeepCopy lib = copy_new SpecCell get_spec (EgressSpec_DeepCopyInto lib)"

definition EgressStatus_DeepCopy :: "ptr \<Rightarrow> ('x, 'l) store \<Rightarrow> ptr \<times> ('x, 'l) store" where
  "EgressStatus_DeepCopy = copy_new StatusCell get_status EgressStatus_DeepCopyInto"

definition Egress_DeepCopy :: "('x, 'l) k8s_lib \<Rightarrow> ptr \<Rightarrow> ('x, 'l) store \<Rightarrow> ptr \<times> ('x, 'l) store" where
  "Egress_DeepCopy lib = copy_new EgressCell get_egress (Egress_DeepCopyInto lib)"

definition EgressList_DeepCopy :: "('x, 'l) k8s_lib \<Rightarrow> ptr \<Rightarrow> ('x, 'l) store \<Rightarrow> ptr \<times> ('x, 'l) store" where
  "EgressList_DeepCopy lib = copy_new EgressListCell get_egress_list (EgressList_DeepCopyInto lib)"

text \<open>A \<open>runtime.Object\<close>: \<open>None\<close> is the nil interface, which a nil pointer inside one is not.\<close>

datatype runtime_object = EgressObject ptr | EgressListObject ptr

definition Egress_DeepCopyObject :: "('x, 'l) k8s_lib \<Rightarrow> ptr \<Rightarrow> ('x, 'l) store \<Rightarrow> runtime_object option \<times> ('x, 'l) store" where
  "Egress_DeepCopyObject lib inp s = (let (c, s) = Egress_DeepCopy lib inp s in if c \<noteq> None then (Some (EgressObject c), s) else (None, s))"

definition EgressList_DeepCopyObject :: "('x, 'l) k8s_lib \<Rightarrow> ptr \<Rightarrow> ('x, 'l) store \<Rightarrow> runtime_object option \<times> ('x, 'l) store" where
  "EgressList_DeepCopyObject lib inp s = (let (c, s) = EgressList_DeepCopy lib inp s in if c \<noteq> None then (Some (EgressListObject c), s) else (None, s))"

section \<open>The interface\<close>

definition agree :: "nat set \<Rightarrow> ('x, 'l) store \<Rightarrow> ('x, 'l) store \<Rightarrow> bool" where
  "agree A s t \<longleftrightarrow> st_next s \<le> st_next t \<and> (\<forall>p\<in>A. st_cell t p = st_cell s p)"

abbreviation grows :: "('x, 'l) store \<Rightarrow> ('x, 'l) store \<Rightarrow> bool" where
  "grows s t \<equiv> agree {..<st_next s} s t"

text \<open>
  How the values of a type lie in the store: when one is well formed, which cells it
  refers to, directly or not, and what it stands for.
\<close>

record ('x, 'l, 'a, 'v) shape =
  sh_ok :: "('x, 'l) store \<Rightarrow> 'a \<Rightarrow> bool"
  sh_cells :: "('x, 'l) store \<Rightarrow> 'a \<Rightarrow> nat set"
  sh_rd :: "('x, 'l) store \<Rightarrow> 'a \<Rightarrow> 'v"

text \<open>
  A deep copy stands for the same as the original and refers to new cells only; no old
  cell has changed.
\<close>

locale deep_copier =
  fixes sh :: "('x, 'l, 'a, 'v) shape" and dc :: "'a \<Rightarrow> ('x, 'l) store \<Rightarrow> 'a \<times> ('x, 'l) store"
  assumes within: "sh_ok sh s x \<Longrightarrow> sh_cells sh s x \<subseteq> {..<st_next s}"
    and frame: "sh_ok sh s x \<Longrightarrow> agree (sh_cells sh s x) s t \<Longrightarrow>
      sh_ok sh t x \<and> sh_cells sh t x = sh_cells sh s x \<and> sh_rd sh t x = sh_rd sh s x"
    and copies: "sh_ok sh s x \<Longrightarrow> dc x s = (y, t) \<Longrightarrow>
      grows s t \<and> sh_ok sh t y \<and> sh_rd sh t y = sh_rd sh s x \<and> sh_cells sh t y \<subseteq> {st_next s..<st_next t}"
begin

lemma later: "sh_ok sh s x \<Longrightarrow> grows s t \<Longrightarrow> sh_ok sh t x \<and> sh_cells sh t x = sh_cells sh s x \<and> sh_rd sh t x = sh_rd sh s x"
  using within[of s x] frame[of s x t] by (auto simp: agree_def)

text \<open>Writes to the copy do not show in the original, nor the other way round.\<close>

lemma independent:
  assumes "sh_ok sh s x" "dc x s = (y, t)"
  shows "sh_cells sh t x \<inter> sh_cells sh t y = {} \<and>
    (agree (- sh_cells sh t y) t u \<longrightarrow> sh_rd sh u x = sh_rd sh s x) \<and> (agree (- sh_cells sh t x) t u \<longrightarrow> sh_rd sh u y = sh_rd sh s x)"
proof -
  note c = copies[OF assms] and w = within[OF assms(1)] and l = later[OF assms(1), of t]
  from c l w have d: "sh_cells sh t x \<inter> sh_cells sh t y = {}" by fastforce
  then have "agree (- sh_cells sh t y) t u \<Longrightarrow> agree (sh_cells sh t x) t u" "agree (- sh_cells sh t x) t u \<Longrightarrow> agree (sh_cells sh t y) t u"
    by (auto simp: agree_def)
  with d c l frame[of t x u] frame[of t y u] show ?thesis by auto
qed

end

section \<open>Shapes\<close>

definition plain_shape :: "('x, 'l, 'a, 'a) shape" where
  "plain_shape = \<lparr>sh_ok = (\<lambda>_ _. True), sh_cells = (\<lambda>_ _. {}), sh_rd = (\<lambda>_ x. x)\<rparr>"

definition entries_shape :: "('x, 'l, (string \<times> string) list, strmap) shape" where
  "entries_shape = \<lparr>sh_ok = (\<lambda>_ m. distinct (map fst m)), sh_cells = (\<lambda>_ _. {}), sh_rd = (\<lambda>_. map_of)\<rparr>"

definition ptr_shape :: "(('x, 'l) cell \<Rightarrow> 'a option) \<Rightarrow> ('x, 'l, 'a, 'v) shape \<Rightarrow> ('x, 'l, ptr, 'v option) shape" where
  "ptr_shape get sh =
     \<lparr>sh_ok = (\<lambda>s p. case p of None \<Rightarrow> True | Some q \<Rightarrow> q < st_next s \<and> (case load get s q of None \<Rightarrow> False | Some x \<Rightarrow> sh_ok sh s x)),
      sh_cells = (\<lambda>s p. case p of None \<Rightarrow> {} | Some q \<Rightarrow> insert q (case load get s q of None \<Rightarrow> {} | Some x \<Rightarrow> sh_cells sh s x)),
      sh_rd = (\<lambda>s p. case p of None \<Rightarrow> None | Some q \<Rightarrow> map_option (sh_rd sh s) (load get s q))\<rparr>"

definition list_shape :: "('x, 'l, 'a, 'v) shape \<Rightarrow> ('x, 'l, 'a list, 'v list) shape" where
  "list_shape sh =
     \<lparr>sh_ok = (\<lambda>s xs. \<forall>x\<in>set xs. sh_ok sh s x), sh_cells = (\<lambda>s xs. \<Union>x\<in>set xs. sh_cells sh s x), sh_rd = (\<lambda>s. map (sh_rd sh s))\<rparr>"

definition slice_shape :: "(('x, 'l) cell \<Rightarrow> 'a list option) \<Rightarrow> ('x, 'l, 'a, 'v) shape \<Rightarrow> ('x, 'l, slice option, 'v list option) shape" where
  "slice_shape get sh =
     \<lparr>sh_ok = (\<lambda>s i. case i of None \<Rightarrow> True | Some sl \<Rightarrow> sl_Array sl < st_next s \<and>
        (case load get s (sl_Array sl) of None \<Rightarrow> False
         | Some arr \<Rightarrow> sl_Off sl + sl_Len sl \<le> length arr \<and> sh_ok (list_shape sh) s (slice_elems arr sl))),
      sh_cells = (\<lambda>s i. case i of None \<Rightarrow> {} | Some sl \<Rightarrow> insert (sl_Array sl)
        (case load get s (sl_Array sl) of None \<Rightarrow> {} | Some arr \<Rightarrow> sh_cells (list_shape sh) s (slice_elems arr sl))),
      sh_rd = (\<lambda>s i. case i of None \<Rightarrow> None
        | Some sl \<Rightarrow> map_option (\<lambda>arr. sh_rd (list_shape sh) s (slice_elems arr sl)) (load get s (sl_Array sl)))\<rparr>"

definition pair_shape :: "('x, 'l, 'a, 'v) shape \<Rightarrow> ('x, 'l, 'b, 'w) shape \<Rightarrow> ('x, 'l, 'a \<times> 'b, 'v \<times> 'w) shape" where
  "pair_shape sa sb =
     \<lparr>sh_ok = (\<lambda>s (a, b). sh_ok sa s a \<and> sh_ok sb s b), sh_cells = (\<lambda>s (a, b). sh_cells sa s a \<union> sh_cells sb s b),
      sh_rd = (\<lambda>s (a, b). (sh_rd sa s a, sh_rd sb s b))\<rparr>"

text \<open>A struct lies in the store as the tuple of its fields does.\<close>

definition struct_shape :: "('r \<Rightarrow> 'a) \<Rightarrow> ('x, 'l, 'a, 'v) shape \<Rightarrow> ('x, 'l, 'r, 'v) shape" where
  "struct_shape parts sh =
     \<lparr>sh_ok = (\<lambda>s r. sh_ok sh s (parts r)), sh_cells = (\<lambda>s r. sh_cells sh s (parts r)), sh_rd = (\<lambda>s r. sh_rd sh s (parts r))\<rparr>"

text \<open>What a value stands for may be described further.\<close>

definition image_shape :: "('v \<Rightarrow> 'w) \<Rightarrow> ('x, 'l, 'a, 'v) shape \<Rightarrow> ('x, 'l, 'a, 'w) shape" where
  "image_shape f sh = \<lparr>sh_ok = sh_ok sh, sh_cells = sh_cells sh, sh_rd = (\<lambda>s x. f (sh_rd sh s x))\<rparr>"

lemmas shape_defs = image_shape_def plain_shape_def entries_shape_def ptr_shape_def list_shape_def slice_shape_def pair_shape_def struct_shape_def

definition copy_pair ::
  "('a \<Rightarrow> ('x, 'l) store \<Rightarrow> 'a \<times> ('x, 'l) store) \<Rightarrow> ('b \<Rightarrow> ('x, 'l) store \<Rightarrow> 'b \<times> ('x, 'l) store) \<Rightarrow>
   'a \<times> 'b \<Rightarrow> ('x, 'l) store \<Rightarrow> ('a \<times> 'b) \<times> ('x, 'l) store" where
  "copy_pair da db ab s = (let (a, s) = da (fst ab) s; (b, s) = db (snd ab) s in ((a, b), s))"

section \<open>Deep copies of deep copies\<close>

lemma agree_trans: "agree A s t \<Longrightarrow> agree A t u \<Longrightarrow> agree A s u"
  by (auto simp: agree_def)

lemma agree_mono: "agree B s t \<Longrightarrow> A \<subseteq> B \<Longrightarrow> agree A s t"
  by (auto simp: agree_def)

lemma grows_trans: "grows s t \<Longrightarrow> grows t u \<Longrightarrow> grows s u"
  by (auto simp: agree_def)

lemma deep_copier_plain: "deep_copier plain_shape copy_plain"
  by unfold_locales (auto simp: plain_shape_def copy_plain_def agree_def)

lemma deep_copier_pair:
  assumes "deep_copier sa da" "deep_copier sb db"
  shows "deep_copier (pair_shape sa sb) (copy_pair da db)"
proof -
  note A = deep_copier.within[OF assms(1)] deep_copier.frame[OF assms(1)] deep_copier.copies[OF assms(1)] deep_copier.later[OF assms(1)]
  note B = deep_copier.within[OF assms(2)] deep_copier.frame[OF assms(2)] deep_copier.copies[OF assms(2)] deep_copier.later[OF assms(2)]
  show ?thesis
  proof
    fix s x y t
    assume ok: "sh_ok (pair_shape sa sb) s x" and dc: "copy_pair da db x s = (y, t)"
    obtain a b where x: "x = (a, b)" by force
    from ok have oka: "sh_ok sa s a" and okb: "sh_ok sb s b" by (auto simp: pair_shape_def x)
    from dc obtain a' b' m where da: "da a s = (a', m)" and db: "db b m = (b', t)" and y: "y = (a', b')"
      by (auto simp: copy_pair_def x split: prod.splits)
    note a' = A(3)[OF oka da]
    note b = B(4)[OF okb conjunct1[OF a']]
    note b' = B(3)[OF conjunct1[OF b] db]
    note a'' = A(4)[of m a' t]
    from a' b' have le: "st_next s \<le> st_next m" "st_next m \<le> st_next t" by (auto simp: agree_def)
    from a' b b' a'' le show "grows s t \<and> sh_ok (pair_shape sa sb) t y \<and> sh_rd (pair_shape sa sb) t y = sh_rd (pair_shape sa sb) s x \<and>
        sh_cells (pair_shape sa sb) t y \<subseteq> {st_next s..<st_next t}"
      by (auto simp: pair_shape_def x y intro: grows_trans)
  next
    fix s x t
    assume ok: "sh_ok (pair_shape sa sb) s x" and ag: "agree (sh_cells (pair_shape sa sb) s x) s t"
    then have "agree (sh_cells sa s (fst x)) s t" "agree (sh_cells sb s (snd x)) s t"
      by (auto simp: pair_shape_def agree_def split: prod.splits)
    with ok A(2)[of s "fst x" t] B(2)[of s "snd x" t]
    show "sh_ok (pair_shape sa sb) t x \<and> sh_cells (pair_shape sa sb) t x = sh_cells (pair_shape sa sb) s x \<and>
        sh_rd (pair_shape sa sb) t x = sh_rd (pair_shape sa sb) s x"
      by (auto simp: pair_shape_def split: prod.splits)
  next
    fix s x
    assume "sh_ok (pair_shape sa sb) s x"
    with A(1)[of s "fst x"] B(1)[of s "snd x"] show "sh_cells (pair_shape sa sb) s x \<subseteq> {..<st_next s}"
      by (auto simp: pair_shape_def split: prod.splits)
  qed
qed

lemma deep_copier_struct:
  assumes "deep_copier sh d" and "\<And>r s y t. dc r s = (y, t) \<Longrightarrow> d (parts r) s = (parts y, t)"
  shows "deep_copier (struct_shape parts sh) dc"
proof
  fix s x y t
  assume "sh_ok (struct_shape parts sh) s x" "dc x s = (y, t)"
  with deep_copier.copies[OF assms(1), of s "parts x" "parts y" t] assms(2)[of x s y t]
  show "grows s t \<and> sh_ok (struct_shape parts sh) t y \<and> sh_rd (struct_shape parts sh) t y = sh_rd (struct_shape parts sh) s x \<and>
      sh_cells (struct_shape parts sh) t y \<subseteq> {st_next s..<st_next t}"
    by (simp add: struct_shape_def)
next
  show "sh_ok (struct_shape parts sh) t x \<and> sh_cells (struct_shape parts sh) t x = sh_cells (struct_shape parts sh) s x \<and>
      sh_rd (struct_shape parts sh) t x = sh_rd (struct_shape parts sh) s x"
    if "sh_ok (struct_shape parts sh) s x" "agree (sh_cells (struct_shape parts sh) s x) s t" for s x t
    using that deep_copier.frame[OF assms(1), of s "parts x" t] by (simp add: struct_shape_def)
  show "sh_cells (struct_shape parts sh) s x \<subseteq> {..<st_next s}" if "sh_ok (struct_shape parts sh) s x" for s x
    using that deep_copier.within[OF assms(1), of s "parts x"] by (simp add: struct_shape_def)
qed

text \<open>A cell that is reserved before its contents are copied and filled afterwards.\<close>

lemma reserve_fill:
  assumes "reserve s = (q, s1)" and "grows s1 t"
  shows "grows s s1 \<and> grows s (put q c t) \<and> q = st_next s \<and> st_next s1 = Suc q \<and> q < st_next t \<and>
    st_next (put q c t) = st_next t \<and> load get (put q c t) q = get c \<and> agree {Suc q..<st_next t} t (put q c t)"
  using assms by (auto simp: reserve_def put_def agree_def load_def)

lemma deep_copier_ptr:
  assumes D: "deep_copier sh dc" and mk: "\<And>x. get (mk x) = Some x"
  shows "deep_copier (ptr_shape get sh) (copy_new mk get dc)"
proof
  fix s p y t
  assume ok: "sh_ok (ptr_shape get sh) s p" and dc: "copy_new mk get dc p s = (y, t)"
  show "grows s t \<and> sh_ok (ptr_shape get sh) t y \<and> sh_rd (ptr_shape get sh) t y = sh_rd (ptr_shape get sh) s p \<and>
      sh_cells (ptr_shape get sh) t y \<subseteq> {st_next s..<st_next t}"
  proof (cases p)
    case None
    with dc show ?thesis by (auto simp: copy_new_def ptr_shape_def agree_def)
  next
    case (Some a)
    with ok obtain x where x: "load get s a = Some x" and okx: "sh_ok sh s x"
      by (auto simp: ptr_shape_def split: option.splits)
    from dc x Some obtain q s1 z s2 where r: "reserve s = (q, s1)" and z: "dc x s1 = (z, s2)" and e: "y = Some q" "t = put q (mk z) s2"
      by (auto simp: copy_new_def split: prod.splits)
    have g1: "grows s s1" using r by (auto simp: reserve_def agree_def)
    note l = deep_copier.later[OF D okx g1]
    note c = deep_copier.copies[OF D conjunct1[OF l] z]
    note f = reserve_fill[OF r conjunct1[OF c], where c = "mk z" and get = get]
    from c f have "agree (sh_cells sh s2 z) s2 t" unfolding e by (auto intro: agree_mono)
    with c have "sh_ok sh t z \<and> sh_cells sh t z = sh_cells sh s2 z \<and> sh_rd sh t z = sh_rd sh s2 z"
      using deep_copier.frame[OF D] by blast
    with c f l x Some show ?thesis by (auto simp: ptr_shape_def e mk)
  qed
next
  fix s p t
  assume ok: "sh_ok (ptr_shape get sh) s p" and ag: "agree (sh_cells (ptr_shape get sh) s p) s t"
  show "sh_ok (ptr_shape get sh) t p \<and> sh_cells (ptr_shape get sh) t p = sh_cells (ptr_shape get sh) s p \<and>
      sh_rd (ptr_shape get sh) t p = sh_rd (ptr_shape get sh) s p"
  proof (cases p)
    case (Some a)
    with ok obtain x where x: "load get s a = Some x" and okx: "sh_ok sh s x" and a: "a < st_next s"
      by (auto simp: ptr_shape_def split: option.splits)
    from ag Some x have "agree (sh_cells sh s x) s t" "load get t a = Some x" "st_next s \<le> st_next t"
      by (auto simp: ptr_shape_def agree_def load_def)
    with deep_copier.frame[OF D okx] x a Some show ?thesis by (auto simp: ptr_shape_def)
  qed (auto simp: ptr_shape_def)
next
  fix s p
  assume "sh_ok (ptr_shape get sh) s p"
  then show "sh_cells (ptr_shape get sh) s p \<subseteq> {..<st_next s}"
    using deep_copier.within[OF D] by (force simp: ptr_shape_def split: option.splits)
qed

lemma deep_copier_list:
  assumes D: "deep_copier sh dc"
  shows "deep_copier (list_shape sh) (copy_elems dc)"
proof
  show "grows s t \<and> sh_ok (list_shape sh) t ys \<and> sh_rd (list_shape sh) t ys = sh_rd (list_shape sh) s xs \<and>
      sh_cells (list_shape sh) t ys \<subseteq> {st_next s..<st_next t}"
    if "sh_ok (list_shape sh) s xs" "copy_elems dc xs s = (ys, t)" for s xs ys t
    using that
  proof (induction xs arbitrary: s ys)
    case Nil
    then show ?case by (auto simp: list_shape_def agree_def)
  next
    case (Cons x xs)
    let ?L = "list_shape sh"
    from Cons.prems(2) obtain y m zs where y: "dc x s = (y, m)" and zs: "copy_elems dc xs m = (zs, t)" and e: "ys = y # zs"
      by (auto split: prod.splits)
    from Cons.prems(1) have okx: "sh_ok sh s x" and okxs: "\<And>z. z \<in> set xs \<Longrightarrow> sh_ok sh s z" by (auto simp: list_shape_def)
    note c = deep_copier.copies[OF D okx y]
    then have l: "sh_ok sh m z \<and> sh_rd sh m z = sh_rd sh s z" if "z \<in> set xs" for z
      using deep_copier.later[OF D okxs[OF that]] by blast
    then have "sh_ok ?L m xs" "sh_rd ?L m xs = sh_rd ?L s xs" by (auto simp: list_shape_def)
    moreover note ih = Cons.IH[OF this(1) zs]
    moreover have "sh_ok sh t y \<and> sh_cells sh t y = sh_cells sh m y \<and> sh_rd sh t y = sh_rd sh m y"
      using deep_copier.later[OF D] c ih by blast
    moreover from c ih have "grows s t" "st_next s \<le> st_next m" "st_next m \<le> st_next t" by (auto simp: agree_def)
    ultimately show ?case using c by (auto simp: list_shape_def e)
  qed
next
  fix s xs t
  assume ok: "sh_ok (list_shape sh) s xs" and ag: "agree (sh_cells (list_shape sh) s xs) s t"
  have "sh_ok sh t x \<and> sh_cells sh t x = sh_cells sh s x \<and> sh_rd sh t x = sh_rd sh s x" if "x \<in> set xs" for x
    using that ok ag by (intro deep_copier.frame[OF D]) (auto simp: list_shape_def agree_def)
  then show "sh_ok (list_shape sh) t xs \<and> sh_cells (list_shape sh) t xs = sh_cells (list_shape sh) s xs \<and>
      sh_rd (list_shape sh) t xs = sh_rd (list_shape sh) s xs"
    by (auto simp: list_shape_def)
next
  fix s xs
  assume "sh_ok (list_shape sh) s xs"
  then show "sh_cells (list_shape sh) s xs \<subseteq> {..<st_next s}"
    using deep_copier.within[OF D] by (force simp: list_shape_def)
qed

lemma copy_elems_length: "copy_elems dc xs s = (ys, t) \<Longrightarrow> length ys = length xs"
  by (induction xs arbitrary: s ys) (auto split: prod.splits)

text \<open>A slice is a pointer to the list of its elements; the copy has an array of its own length.\<close>

lemma deep_copier_slice:
  assumes D: "deep_copier sh dc" and mk: "\<And>xs. get (mk xs) = Some xs"
  shows "deep_copier (slice_shape get sh) (copy_slice mk get dc)"
proof
  note L = deep_copier_list[OF D]
  show "grows s t \<and> sh_ok (slice_shape get sh) t y \<and> sh_rd (slice_shape get sh) t y = sh_rd (slice_shape get sh) s p \<and>
      sh_cells (slice_shape get sh) t y \<subseteq> {st_next s..<st_next t}"
    if ok: "sh_ok (slice_shape get sh) s p" and dc: "copy_slice mk get dc p s = (y, t)" for s p y t
  proof (cases p)
    case None
    with dc show ?thesis by (auto simp: copy_slice_def slice_shape_def agree_def)
  next
    case (Some sl)
    with ok obtain arr where x: "load get s (sl_Array sl) = Some arr" and okx: "sh_ok (list_shape sh) s (slice_elems arr sl)"
      and len: "sl_Off sl + sl_Len sl \<le> length arr"
      by (auto simp: slice_shape_def split: option.splits)
    from dc x Some obtain q s1 z s2 where r: "reserve s = (q, s1)" and z: "copy_elems dc (slice_elems arr sl) s1 = (z, s2)"
      and e: "y = Some \<lparr>sl_Array = q, sl_Off = 0, sl_Len = sl_Len sl\<rparr>" "t = put q (mk z) s2"
      by (auto simp: copy_slice_def split: prod.splits)
    have g1: "grows s s1" using r by (auto simp: reserve_def agree_def)
    note l = deep_copier.later[OF L okx g1]
    note c = deep_copier.copies[OF L conjunct1[OF l] z]
    note f = reserve_fill[OF r conjunct1[OF c], where c = "mk z" and get = get]
    from copy_elems_length[OF z] len have lz: "length z = sl_Len sl" by (simp add: slice_elems_def)
    from c f have "agree (sh_cells (list_shape sh) s2 z) s2 t" unfolding e by (auto intro: agree_mono)
    with c have "sh_ok (list_shape sh) t z \<and> sh_cells (list_shape sh) t z = sh_cells (list_shape sh) s2 z \<and> sh_rd (list_shape sh) t z = sh_rd (list_shape sh) s2 z"
      using deep_copier.frame[OF L] by blast
    with c f l x Some lz show ?thesis by (auto simp: slice_shape_def slice_elems_def e mk)
  qed
  show "sh_ok (slice_shape get sh) t p \<and> sh_cells (slice_shape get sh) t p = sh_cells (slice_shape get sh) s p \<and>
      sh_rd (slice_shape get sh) t p = sh_rd (slice_shape get sh) s p"
    if ok: "sh_ok (slice_shape get sh) s p" and ag: "agree (sh_cells (slice_shape get sh) s p) s t" for s p t
  proof (cases p)
    case (Some sl)
    with ok obtain arr where x: "load get s (sl_Array sl) = Some arr" and okx: "sh_ok (list_shape sh) s (slice_elems arr sl)"
      and a: "sl_Off sl + sl_Len sl \<le> length arr" "sl_Array sl < st_next s"
      by (auto simp: slice_shape_def split: option.splits)
    from ag Some x have "agree (sh_cells (list_shape sh) s (slice_elems arr sl)) s t" "load get t (sl_Array sl) = Some arr" "st_next s \<le> st_next t"
      by (auto simp: slice_shape_def agree_def load_def)
    with deep_copier.frame[OF L okx] x a Some show ?thesis by (auto simp: slice_shape_def)
  qed (auto simp: slice_shape_def)
  show "sh_cells (slice_shape get sh) s p \<subseteq> {..<st_next s}" if "sh_ok (slice_shape get sh) s p" for s p
    using that deep_copier.within[OF L] by (force simp: slice_shape_def split: option.splits)
qed

lemma map_of_fold_update:
  "map_of (fold (\<lambda>(key, val) out. AList.update key val out) xs m) = map_of m ++ map_of (rev xs)"
proof (induction xs arbitrary: m)
  case (Cons x xs)
  then show ?case by (cases x) (simp add: update_conv' map_add_def fun_eq_iff split: option.splits)
qed simp

lemma distinct_fold_update:
  "distinct (map fst m) \<Longrightarrow> distinct (map fst (fold (\<lambda>(key, val) out. AList.update key val out) xs m))"
  by (induction xs arbitrary: m) (auto simp: distinct_update split: prod.splits)

lemma deep_copier_entries:
  assumes "\<And>m. mset (lb_visit lib m) = mset m"
  shows "deep_copier entries_shape (copy_entries lib)"
proof -
  have "map_of (rev (lb_visit lib m)) = map_of m" if "distinct (map fst m)" for m
  proof (subst map_of_inject_set)
    have "mset (map fst (lb_visit lib m)) = mset (map fst m)" by (simp add: assms)
    with that show "distinct (map fst (rev (lb_visit lib m)))"
      by (simp only: rev_map[symmetric] distinct_rev) (metis mset_eq_imp_distinct_iff)
    from mset_eq_setD[OF assms[of m]] show "set (rev (lb_visit lib m)) = set m" by simp
  qed (rule that)
  then show ?thesis
    by unfold_locales (auto simp: entries_shape_def copy_entries_def agree_def map_of_fold_update distinct_fold_update)
qed

lemma deep_copier_image:
  assumes "deep_copier sh dc"
  shows "deep_copier (image_shape f sh) dc"
proof
  show "grows s t \<and> sh_ok (image_shape f sh) t y \<and> sh_rd (image_shape f sh) t y = sh_rd (image_shape f sh) s x \<and>
      sh_cells (image_shape f sh) t y \<subseteq> {st_next s..<st_next t}" if "sh_ok (image_shape f sh) s x" "dc x s = (y, t)" for s x y t
    using that deep_copier.copies[OF assms, of s x y t] by (simp add: image_shape_def)
  show "sh_ok (image_shape f sh) t x \<and> sh_cells (image_shape f sh) t x = sh_cells (image_shape f sh) s x \<and>
      sh_rd (image_shape f sh) t x = sh_rd (image_shape f sh) s x"
    if "sh_ok (image_shape f sh) s x" "agree (sh_cells (image_shape f sh) s x) s t" for s x t
    using that deep_copier.frame[OF assms, of s x t] by (simp add: image_shape_def)
  show "sh_cells (image_shape f sh) s x \<subseteq> {..<st_next s}" if "sh_ok (image_shape f sh) s x" for s x
    using that deep_copier.within[OF assms, of s x] by (simp add: image_shape_def)
qed

section \<open>The API types\<close>

text \<open>The structs of the libraries, seen as the values the controllers' models work on.\<close>

record ('x, 'l) k8s_shapes =
  ks_ObjectMeta :: "('x, 'l, 'x, object_meta) shape"
  ks_ListMeta :: "('x, 'l, 'x, string) shape"
  ks_PodSpec :: "('x, 'l, 'x, pod_spec) shape"
  ks_DeploymentStrategy :: "('x, 'l, 'x, string) shape"
  ks_SessionAffinityConfig :: "('x, 'l, 'x, string) shape"

definition metadata_shape :: "('x, 'l, go_metadata, strmap option \<times> strmap option) shape" where
  "metadata_shape = struct_shape (\<lambda>m. (md_Annotations m, md_Labels m))
     (pair_shape (ptr_shape get_map entries_shape) (ptr_shape get_map entries_shape))"

definition pdb_spec_shape :: "('x, 'l, go_pdb_spec, int_or_string option \<times> int_or_string option) shape" where
  "pdb_spec_shape = struct_shape (\<lambda>m. (gp_MinAvailable m, gp_MaxUnavailable m))
     (pair_shape (ptr_shape get_int_or_string plain_shape) (ptr_shape get_int_or_string plain_shape))"

definition template_shape :: "('x, 'l) k8s_shapes \<Rightarrow> ('x, 'l, 'x go_template, (strmap option \<times> strmap option) \<times> pod_spec) shape" where
  "template_shape ks = struct_shape (\<lambda>m. (tm_Metadata m, tm_Spec m)) (pair_shape metadata_shape (ks_PodSpec ks))"

type_synonym spec_view =
  "string list option \<times> int \<times> string option \<times> ((strmap option \<times> strmap option) \<times> pod_spec) option \<times> string \<times> string option \<times>
   (int_or_string option \<times> int_or_string option) option"

definition spec_shape :: "('x, 'l) k8s_shapes \<Rightarrow> ('x, 'l, go_spec, spec_view) shape" where
  "spec_shape ks = struct_shape
     (\<lambda>m. (gs_Destinations m, gs_Replicas m, gs_Strategy m, gs_Template m, gs_SessionAffinity m, gs_SessionAffinityConfig m, gs_PodDisruptionBudget m))
     (pair_shape (slice_shape get_strings plain_shape)
     (pair_shape plain_shape
     (pair_shape (ptr_shape get_strategy (ks_DeploymentStrategy ks))
     (pair_shape (ptr_shape get_template (template_shape ks))
     (pair_shape plain_shape
     (pair_shape (ptr_shape get_affinity (ks_SessionAffinityConfig ks))
      (ptr_shape get_pdb_spec pdb_spec_shape)))))))"

type_synonym egress_view = "(string \<times> string) \<times> object_meta \<times> spec_view \<times> go_status"

definition egress_shape :: "('x, 'l) k8s_shapes \<Rightarrow> ('x, 'l, 'x go_egress, egress_view) shape" where
  "egress_shape ks = struct_shape (\<lambda>m. (ge_TypeMeta m, ge_ObjectMeta m, ge_Spec m, ge_Status m))
     (pair_shape plain_shape (pair_shape (ks_ObjectMeta ks) (pair_shape (spec_shape ks) plain_shape)))"

definition egress_list_shape :: "('x, 'l) k8s_shapes \<Rightarrow> ('x, 'l, 'x go_egress_list, (string \<times> string) \<times> string \<times> egress_view list option) shape" where
  "egress_list_shape ks = struct_shape (\<lambda>m. (gl_TypeMeta m, gl_ListMeta m, gl_Items m))
     (pair_shape plain_shape (pair_shape (ks_ListMeta ks) (slice_shape get_egresses (egress_shape ks))))"

text \<open>The object of the controllers' model that an egress in the store stands for.\<close>

fun egress_of_view :: "egress_view \<Rightarrow> egress" where
  "egress_of_view (tm, om, (ds, rep, strat, tpl, sa, sac, budget), st) =
     \<lparr>eg_Meta = om, eg_Destinations = (case ds of None \<Rightarrow> [] | Some xs \<Rightarrow> xs), eg_Replicas = rep, eg_Strategy = strat,
      eg_Template = map_option (\<lambda>((an, la), sp). \<lparr>pt_Labels = (case la of None \<Rightarrow> Map.empty | Some m \<Rightarrow> m),
        pt_Annotations = (case an of None \<Rightarrow> Map.empty | Some m \<Rightarrow> m), pt_Spec = sp\<rparr>) tpl,
      eg_SessionAffinity = sa, eg_SessionAffinityConfig = sac,
      eg_PodDisruptionBudget = map_option (\<lambda>(a, b). \<lparr>pb_MinAvailable = a, pb_MaxUnavailable = b\<rparr>) budget,
      eg_StatusReplicas = gst_Replicas st, eg_StatusSelector = gst_Selector st\<rparr>"

lemma get_mk [simp]:
  "get_strings (StringArray v1) = Some v1" "get_map (StringMap v2) = Some v2" "get_int_or_string (IntOrStringCell v3) = Some v3"
  "get_strategy (StrategyCell v4) = Some v4" "get_affinity (AffinityCell v4) = Some v4" "get_metadata (MetadataCell v5) = Some v5"
  "get_template (TemplateCell v6) = Some v6" "get_pdb_spec (PDBSpecCell v7) = Some v7" "get_spec (SpecCell v8) = Some v8"
  "get_status (StatusCell v9) = Some v9" "get_egress (EgressCell v10) = Some v10" "get_egresses (EgressArray v11) = Some v11"
  "get_egress_list (EgressListCell v12) = Some v12"
  by (simp_all add: get_defs)

lemma copy_pdb_spec: "deep_copier pdb_spec_shape EgressPDBSpec_DeepCopyInto"
  unfolding pdb_spec_shape_def
  by (rule deep_copier_struct, (rule deep_copier_pair deep_copier_ptr deep_copier_plain get_mk)+)
    (auto simp: EgressPDBSpec_DeepCopyInto_def copy_pair_def split: prod.splits)

interpretation status_copy: deep_copier plain_shape EgressStatus_DeepCopyInto
  using deep_copier_plain by (simp add: EgressStatus_DeepCopyInto_def[abs_def])

interpretation pdb_spec_copy: deep_copier pdb_spec_shape EgressPDBSpec_DeepCopyInto
  by (rule copy_pdb_spec)

text \<open>What the generated code relies on: the copies of the library are deep, and \<open>range\<close> visits every entry once.\<close>

locale k8s_copies =
  fixes lib :: "('x, 'l) k8s_lib" and ks :: "('x, 'l) k8s_shapes"
  assumes object_meta_copy: "deep_copier (ks_ObjectMeta ks) (lb_ObjectMeta lib)"
    and list_meta_copy: "deep_copier (ks_ListMeta ks) (lb_ListMeta lib)"
    and pod_spec_copy: "deep_copier (ks_PodSpec ks) (lb_PodSpec lib)"
    and strategy_copy: "deep_copier (ks_DeploymentStrategy ks) (lb_DeploymentStrategy lib)"
    and affinity_copy: "deep_copier (ks_SessionAffinityConfig ks) (lb_SessionAffinityConfig lib)"
    and visits: "mset (lb_visit lib m) = mset m"
begin

lemma copy_metadata: "deep_copier metadata_shape (Metadata_DeepCopyInto lib)"
  unfolding metadata_shape_def
  by (rule deep_copier_struct, (rule deep_copier_pair deep_copier_ptr deep_copier_entries visits get_mk)+)
    (auto simp: Metadata_DeepCopyInto_def copy_pair_def split: prod.splits)

lemma copy_template: "deep_copier (template_shape ks) (EgressPodTemplate_DeepCopyInto lib)"
  unfolding template_shape_def
  by (rule deep_copier_struct, (rule deep_copier_pair copy_metadata pod_spec_copy)+)
    (auto simp: EgressPodTemplate_DeepCopyInto_def copy_pair_def split: prod.splits)

lemma copy_spec: "deep_copier (spec_shape ks) (EgressSpec_DeepCopyInto lib)"
  unfolding spec_shape_def
  by (rule deep_copier_struct,
      (rule deep_copier_pair deep_copier_slice deep_copier_ptr deep_copier_plain strategy_copy copy_template affinity_copy copy_pdb_spec get_mk)+)
    (auto simp: EgressSpec_DeepCopyInto_def copy_pair_def copy_plain_def split: prod.splits)

lemma copy_egress: "deep_copier (egress_shape ks) (Egress_DeepCopyInto lib)"
  unfolding egress_shape_def
  by (rule deep_copier_struct, (rule deep_copier_pair deep_copier_plain object_meta_copy copy_spec)+)
    (auto simp: Egress_DeepCopyInto_def copy_pair_def copy_plain_def split: prod.splits)

lemma copy_egress_list: "deep_copier (egress_list_shape ks) (EgressList_DeepCopyInto lib)"
  unfolding egress_list_shape_def
  by (rule deep_copier_struct, (rule deep_copier_pair deep_copier_plain list_meta_copy deep_copier_slice copy_egress get_mk)+)
    (auto simp: EgressList_DeepCopyInto_def copy_pair_def copy_plain_def split: prod.splits)

lemma copies_of_pointers:
  "deep_copier (ptr_shape get_metadata metadata_shape) (Metadata_DeepCopy lib)"
  "deep_copier (ptr_shape get_template (template_shape ks)) (EgressPodTemplate_DeepCopy lib)"
  "deep_copier (ptr_shape get_spec (spec_shape ks)) (EgressSpec_DeepCopy lib)"
  "deep_copier (ptr_shape get_egress (egress_shape ks)) (Egress_DeepCopy lib)"
  "deep_copier (ptr_shape get_egress_list (egress_list_shape ks)) (EgressList_DeepCopy lib)"
  unfolding Metadata_DeepCopy_def EgressPodTemplate_DeepCopy_def EgressSpec_DeepCopy_def Egress_DeepCopy_def EgressList_DeepCopy_def
  by (intro deep_copier_ptr copy_metadata copy_template copy_spec copy_egress copy_egress_list get_mk)+

end

interpretation pdb_spec_ptr_copy: deep_copier "ptr_shape get_pdb_spec pdb_spec_shape" EgressPDBSpec_DeepCopy
  unfolding EgressPDBSpec_DeepCopy_def by (intro deep_copier_ptr copy_pdb_spec get_mk)

interpretation status_ptr_copy: deep_copier "ptr_shape get_status plain_shape" EgressStatus_DeepCopy
  unfolding EgressStatus_DeepCopy_def by (intro deep_copier_ptr status_copy.deep_copier_axioms get_mk)

lemma copy_new_nil: "fst (copy_new mk get dc p s) = None \<longleftrightarrow> Option.bind p (load get s) = None"
  "copy_new mk get dc None s = (None, s)"
  by (auto simp: copy_new_def split: option.splits prod.splits)

section \<open>A library\<close>

text \<open>Structs with a name and a pointer to a text, all copied the same way; maps are visited backwards.\<close>

definition get_lib :: "('x, 'l) cell \<Rightarrow> 'l option" where
  "get_lib c = (case c of LibCell v \<Rightarrow> Some v | _ \<Rightarrow> None)"

type_synonym demo_struct = "ptr \<times> string"

definition k8s_demo_copy :: "demo_struct \<Rightarrow> (demo_struct, string) store \<Rightarrow> demo_struct \<times> (demo_struct, string) store" where
  "k8s_demo_copy = copy_pair (copy_new LibCell get_lib copy_plain) copy_plain"

definition k8s_demo_shape :: "(demo_struct, string, demo_struct, string option \<times> string) shape" where
  "k8s_demo_shape = pair_shape (ptr_shape get_lib plain_shape) plain_shape"

definition k8s_demo_lib :: "(demo_struct, string) k8s_lib" where
  "k8s_demo_lib = \<lparr>lb_ObjectMeta = k8s_demo_copy, lb_ListMeta = k8s_demo_copy, lb_PodSpec = k8s_demo_copy, lb_DeploymentStrategy = k8s_demo_copy,
     lb_SessionAffinityConfig = k8s_demo_copy, lb_visit = rev\<rparr>"

definition k8s_demo_shapes :: "(demo_struct, string) k8s_shapes" where
  "k8s_demo_shapes =
     \<lparr>ks_ObjectMeta = image_shape (\<lambda>(t, n). \<lparr>om_Name = n, om_Namespace = ''internet'', om_Labels = Map.empty, om_CreationTimestamp = t,
        om_DeletionTimestamp = None, om_OwnerReferences = []\<rparr>) k8s_demo_shape,
      ks_ListMeta = image_shape snd k8s_demo_shape, ks_PodSpec = image_shape (\<lambda>(t, n). zero_pod_spec\<lparr>ps_Rest := n\<rparr>) k8s_demo_shape,
      ks_DeploymentStrategy = image_shape snd k8s_demo_shape, ks_SessionAffinityConfig = image_shape snd k8s_demo_shape\<rparr>"

lemma demo_copier: "deep_copier (image_shape f k8s_demo_shape) k8s_demo_copy"
  unfolding k8s_demo_copy_def k8s_demo_shape_def
  by (intro deep_copier_image deep_copier_pair deep_copier_ptr deep_copier_plain) (simp add: get_lib_def)

interpretation demo_copies: k8s_copies k8s_demo_lib k8s_demo_shapes
  by (rule k8s_copies.intro) (simp_all add: k8s_demo_lib_def k8s_demo_shapes_def demo_copier)

section \<open>Properties\<close>

definition deep_copied :: "('x, 'l, 'a, 'v) shape \<Rightarrow> ('x, 'l) store \<Rightarrow> 'a \<Rightarrow> 'a \<times> ('x, 'l) store \<Rightarrow> bool" where
  "deep_copied sh s x r =
     (case r of (y, t) \<Rightarrow>
        grows s t \<and> sh_ok sh t y \<and> sh_rd sh t y = sh_rd sh s x \<and> sh_cells sh t y \<inter> {..<st_next s} = {} \<and>
        (\<forall>u. agree (- sh_cells sh t y) t u \<longrightarrow> sh_rd sh u x = sh_rd sh s x) \<and>
        (\<forall>u. agree (- sh_cells sh t x) t u \<longrightarrow> sh_rd sh u y = sh_rd sh s x))"

lemma deep_copier_deep_copied:
  assumes "deep_copier sh dc" "sh_ok sh s x"
  shows "deep_copied sh s x (dc x s)"
proof -
  obtain y t where r: "dc x s = (y, t)" by force
  from deep_copier.copies[OF assms r] deep_copier.independent[OF assms r] show ?thesis
    unfolding deep_copied_def r by auto
qed

text \<open>
  C21. \<open>DeepCopy\<close> of each of the API types is a deep copy: no cell that was there has
  changed; the copy stands for the same object, nil and empty kept apart; every cell
  it refers to, at any depth, is new; whatever is written to the cells of one of the
  two later does not show in the other.
\<close>

theorem DeepCopy_deep:
  assumes "k8s_copies lib ks"
  shows
   "(sh_ok (ptr_shape get_egress (egress_shape ks)) s p \<longrightarrow> deep_copied (ptr_shape get_egress (egress_shape ks)) s p (Egress_DeepCopy lib p s)) \<and>
    (sh_ok (ptr_shape get_egress_list (egress_list_shape ks)) s p \<longrightarrow>
       deep_copied (ptr_shape get_egress_list (egress_list_shape ks)) s p (EgressList_DeepCopy lib p s)) \<and>
    (sh_ok (ptr_shape get_spec (spec_shape ks)) s p \<longrightarrow> deep_copied (ptr_shape get_spec (spec_shape ks)) s p (EgressSpec_DeepCopy lib p s)) \<and>
    (sh_ok (ptr_shape get_template (template_shape ks)) s p \<longrightarrow>
       deep_copied (ptr_shape get_template (template_shape ks)) s p (EgressPodTemplate_DeepCopy lib p s)) \<and>
    (sh_ok (ptr_shape get_metadata metadata_shape) s p \<longrightarrow> deep_copied (ptr_shape get_metadata metadata_shape) s p (Metadata_DeepCopy lib p s)) \<and>
    (sh_ok (ptr_shape get_pdb_spec pdb_spec_shape) s p \<longrightarrow> deep_copied (ptr_shape get_pdb_spec pdb_spec_shape) s p (EgressPDBSpec_DeepCopy p s)) \<and>
    (sh_ok (ptr_shape get_status plain_shape) s p \<longrightarrow> deep_copied (ptr_shape get_status plain_shape) s p (EgressStatus_DeepCopy p s))"
  using k8s_copies.copies_of_pointers[OF assms] pdb_spec_ptr_copy.deep_copier_axioms status_ptr_copy.deep_copier_axioms
  by (intro conjI impI deep_copier_deep_copied) assumption+

text \<open>An egress whose annotations and labels are the same map and whose two budgets are the same cell.\<close>

definition demo_store :: "(demo_struct, string) store" where
  "demo_store =
     \<lparr>st_next = 8, st_cell =
       [0 \<mapsto> EgressCell \<lparr>ge_TypeMeta = (''Egress'', ''pona.cybozu.com/v1beta1''), ge_ObjectMeta = (Some 1, ''egress-a''),
           ge_Spec = \<lparr>gs_Destinations = Some \<lparr>sl_Array = 2, sl_Off = 1, sl_Len = 2\<rparr>, gs_Replicas = 3, gs_Strategy = None, gs_Template = Some 3,
             gs_SessionAffinity = ''ClientIP'', gs_SessionAffinityConfig = Some 7, gs_PodDisruptionBudget = Some 5\<rparr>,
           ge_Status = \<lparr>gst_Replicas = 0, gst_Selector = []\<rparr>\<rparr>,
        1 \<mapsto> LibCell ''2024-10-01'',
        2 \<mapsto> StringArray [''10.9.0.0/16'', ''10.0.0.0/8'', ''fd00::/8''],
        3 \<mapsto> TemplateCell \<lparr>tm_Metadata = \<lparr>md_Annotations = Some 4, md_Labels = Some 4\<rparr>, tm_Spec = (None, ''host'')\<rparr>,
        4 \<mapsto> StringMap [(''a'', ''1''), (''b'', ''2'')],
        5 \<mapsto> PDBSpecCell \<lparr>gp_MinAvailable = Some 6, gp_MaxUnavailable = Some 6\<rparr>,
        6 \<mapsto> IntOrStringCell (IntVal 1),
        7 \<mapsto> AffinityCell (Some 1, ''timeout'')]\<rparr>"

lemma demo_store_ok: "sh_ok (ptr_shape get_egress (egress_shape k8s_demo_shapes)) demo_store (Some 0)"
  by code_simp

lemma demo_store_view:
  "map_option (eg_Destinations \<circ> egress_of_view) (sh_rd (ptr_shape get_egress (egress_shape k8s_demo_shapes)) demo_store (Some 0)) =
     Some [''10.0.0.0/8'', ''fd00::/8'']"
  by code_simp

theorem DeepCopy_deep_witness:
  "\<exists>q t. Egress_DeepCopy k8s_demo_lib (Some 0) demo_store = (Some q, t) \<and>
     map_option (eg_Destinations \<circ> egress_of_view) (sh_rd (ptr_shape get_egress (egress_shape k8s_demo_shapes)) t (Some q)) =
       Some [''10.0.0.0/8'', ''fd00::/8''] \<and>
     map_option (eg_Destinations \<circ> egress_of_view) (sh_rd (ptr_shape get_egress (egress_shape k8s_demo_shapes))
       (put 2 (StringArray []) t) (Some q)) = Some [''10.0.0.0/8'', ''fd00::/8'']"
proof -
  let ?sh = "ptr_shape get_egress (egress_shape k8s_demo_shapes)"
  have c: "deep_copied ?sh demo_store (Some 0) (Egress_DeepCopy k8s_demo_lib (Some 0) demo_store)"
    using DeepCopy_deep[OF demo_copies.k8s_copies_axioms, of demo_store "Some 0"] demo_store_ok by blast
  have "fst (Egress_DeepCopy k8s_demo_lib (Some 0) demo_store) = Some 8" by code_simp
  then obtain t where r: "Egress_DeepCopy k8s_demo_lib (Some 0) demo_store = (Some 8, t)" by (metis prod.collapse)
  have "sh_cells ?sh t (Some 0) = sh_cells ?sh demo_store (Some 0)"
    using deep_copier.later[OF demo_copies.copies_of_pointers(4) demo_store_ok] c unfolding deep_copied_def r by blast
  moreover have "2 \<in> sh_cells ?sh demo_store (Some 0)" by code_simp
  ultimately have "2 \<in> sh_cells ?sh t (Some 0)" by simp
  then have "agree (- sh_cells ?sh t (Some 0)) t (put 2 (StringArray []) t)" by (auto simp: agree_def put_def)
  with c demo_store_view show ?thesis unfolding r deep_copied_def by auto
qed

text \<open>
  \<open>DeepCopyObject\<close> returns the nil interface for a nil pointer, and otherwise an
  object with a pointer that is not nil: no caller sees an interface that is not nil
  and holds a nil pointer.
\<close>

lemma DeepCopyObject_nil:
  "Egress_DeepCopyObject lib None s = (None, s) \<and> EgressList_DeepCopyObject lib None s = (None, s) \<and>
   fst (Egress_DeepCopyObject lib p s) \<noteq> Some (EgressObject None) \<and> fst (EgressList_DeepCopyObject lib p s) \<noteq> Some (EgressListObject None) \<and>
   (fst (Egress_DeepCopyObject lib p s) = None \<longleftrightarrow> Option.bind p (load get_egress s) = None) \<and>
   (fst (EgressList_DeepCopyObject lib p s) = None \<longleftrightarrow> Option.bind p (load get_egress_list s) = None)"
  using copy_new_nil(1)[of EgressCell get_egress "Egress_DeepCopyInto lib" p s]
    copy_new_nil(1)[of EgressListCell get_egress_list "EgressList_DeepCopyInto lib" p s]
  by (auto simp: Egress_DeepCopyObject_def EgressList_DeepCopyObject_def Egress_DeepCopy_def EgressList_DeepCopy_def copy_new_nil(2)
      split: prod.splits)

end
