(* ===== verification/GoNet.thy ===== *)
theory GoNet
  imports Prelude
begin

text \<open>
  Go's \<open>net/netip\<close> and \<open>net\<close> packages, as far as the sources use them: addresses,
  prefixes, byte slices as \<open>net.IP\<close>, masks, and the parsers \<open>netip.ParseAddr\<close> and
  \<open>netip.ParsePrefix\<close>.
\<close>

section \<open>Addresses\<close>

text \<open>
  \<open>netip.Addr\<close> is the zero value, an IPv4 address or an IPv6 address with a zone
  (the empty string for none). An IPv4-mapped IPv6 address is an IPv6 address.
\<close>

datatype addr = AddrZero | Addr4 "32 word" | Addr6 "128 word" string

fun Is4 :: "addr \<Rightarrow> bool" where
  "Is4 (Addr4 _) = True"
| "Is4 _ = False"

fun Is6 :: "addr \<Rightarrow> bool" where
  "Is6 (Addr6 _ _) = True"
| "Is6 _ = False"

fun BitLen :: "addr \<Rightarrow> int" where
  "BitLen AddrZero = 0"
| "BitLen (Addr4 _) = 32"
| "BitLen (Addr6 _ _) = 128"

fun withoutZone :: "addr \<Rightarrow> addr" where
  "withoutZone (Addr6 w _) = Addr6 w []"
| "withoutZone a = a"

lemma Is4_Is6 [simp]: "Is4 a \<Longrightarrow> \<not> Is6 a"
  by (cases a) auto

lemma Is4_iff: "Is4 a \<longleftrightarrow> (\<exists>w. a = Addr4 w)"
  by (cases a) auto

lemma Is6_iff: "Is6 a \<longleftrightarrow> (\<exists>w z. a = Addr6 w z)"
  by (cases a) auto

subsection \<open>Words as big-endian bytes\<close>

definition word_bytes :: "nat \<Rightarrow> 'a::len word \<Rightarrow> byte list" where
  "word_bytes n w = map (\<lambda>i. ucast (drop_bit (8 * (n - Suc i)) w)) [0..<n]"

definition bytes_word :: "byte list \<Rightarrow> 'a::len word" where
  "bytes_word bs = fold (\<lambda>b w. 256 * w + ucast b) bs 0"

lemma length_word_bytes [simp]: "length (word_bytes n w) = n"
  by (simp add: word_bytes_def)

lemma word_bytes_Suc:
  "word_bytes (Suc n) w = word_bytes n (drop_bit 8 w) @ [ucast w]"
  by (auto simp: word_bytes_def Suc_diff_le intro!: nth_equalityI simp: nth_append less_Suc_eq
      algebra_simps)

lemma bit_byte_high: "bit (b :: byte) n \<Longrightarrow> n < 8"
  using bit_imp_le_length[of b n] by simp

lemma bytes_word_snoc:
  "bytes_word (bs @ [b]) = or (push_bit 8 (bytes_word bs)) (ucast b :: 'a::len word)"
proof -
  have "256 * w + ucast b = or (push_bit 8 w) (ucast b)" for w :: "'a word"
  proof -
    have "256 * w = push_bit 8 w" by (simp add: push_bit_eq_mult mult.commute)
    moreover have "push_bit 8 w + ucast b = or (push_bit 8 w) (ucast b)"
      by (rule disjunctive_add) (auto simp: bit_simps dest: bit_byte_high)
    ultimately show ?thesis by simp
  qed
  then show ?thesis by (simp add: bytes_word_def)
qed

lemma bytes_word_bytes:
  "bytes_word (word_bytes n w) = take_bit (8 * n) (w :: 'a::len word)"
proof (induction n arbitrary: w)
  case 0
  show ?case by (simp add: word_bytes_def bytes_word_def)
next
  case (Suc n)
  have "bytes_word (word_bytes (Suc n) w) = or (push_bit 8 (take_bit (8 * n) (drop_bit 8 w))) (ucast (ucast w :: byte))"
    by (simp add: word_bytes_Suc bytes_word_snoc Suc)
  also have "\<dots> = take_bit (8 * Suc n) w"
    by (rule bit_eqI) (auto simp: bit_simps)
  finally show ?case .
qed

lemma word_bytes_word:
  "8 * length bs \<le> LENGTH('a) \<Longrightarrow> word_bytes (length bs) (bytes_word bs :: 'a::len word) = bs"
proof (induction bs rule: rev_induct)
  case Nil
  show ?case by (simp add: word_bytes_def)
next
  case (snoc b bs)
  let ?w = "bytes_word bs :: 'a word"
  have "drop_bit 8 (or (push_bit 8 ?w) (ucast b)) = take_bit (LENGTH('a) - 8) ?w"
    using snoc.prems by (intro bit_eqI) (auto simp: bit_simps dest: bit_byte_high)
  moreover have "ucast (or (push_bit 8 ?w) (ucast b)) = b"
    using snoc.prems by (intro bit_eqI) (auto simp: bit_simps)
  moreover have "word_bytes (length bs) (take_bit (LENGTH('a) - 8) ?w) = word_bytes (length bs) ?w"
    using snoc.prems by (auto simp: word_bytes_def intro!: bit_eqI simp: bit_simps)
  ultimately show ?case using snoc by (simp add: word_bytes_Suc bytes_word_snoc)
qed

lemma word_bytes_inject:
  "LENGTH('a) \<le> 8 * n \<Longrightarrow> word_bytes n v = word_bytes n w \<longleftrightarrow> v = (w :: 'a::len word)"
  by (metis bytes_word_bytes take_bit_word_eq_self)

text \<open>\<open>AsSlice\<close>, \<open>As4\<close> and \<open>As16\<close> drop the zone; \<open>AsSlice\<close> of the zero value is nil.\<close>

fun AsSlice :: "addr \<Rightarrow> byte list" where
  "AsSlice AddrZero = []"
| "AsSlice (Addr4 w) = word_bytes 4 w"
| "AsSlice (Addr6 w _) = word_bytes 16 w"

definition AddrFromSlice :: "byte list \<Rightarrow> addr option" where
  "AddrFromSlice s =
     (if length s = 4 then Some (Addr4 (bytes_word s))
      else if length s = 16 then Some (Addr6 (bytes_word s) [])
      else None)"

lemma length_AsSlice: "length (AsSlice a) = nat (BitLen a) div 8"
  by (cases a) auto

section \<open>net.IP\<close>

text \<open>\<open>net.IP\<close> is a byte slice; nil is the empty list.\<close>

definition v4InV6Prefix :: "byte list" where
  "v4InV6Prefix = [0, 0, 0, 0, 0, 0, 0, 0, 0, 0, 0xff, 0xff]"

definition To4 :: "byte list \<Rightarrow> byte list" where
  "To4 ip =
     (if length ip = 4 then ip
      else if length ip = 16 \<and> take 12 ip = v4InV6Prefix then drop 12 ip
      else [])"

definition To16 :: "byte list \<Rightarrow> byte list" where
  "To16 ip =
     (if length ip = 4 then v4InV6Prefix @ ip else if length ip = 16 then ip else [])"

text \<open>\<open>IP.Equal\<close>: a 4-byte address equals its 16-byte mapped form.\<close>

definition IP_Equal :: "byte list \<Rightarrow> byte list \<Rightarrow> bool" where
  "IP_Equal a b =
     (if length a = length b then a = b
      else if length a = 4 \<and> length b = 16 then take 12 b = v4InV6Prefix \<and> a = drop 12 b
      else if length a = 16 \<and> length b = 4 then take 12 a = v4InV6Prefix \<and> drop 12 a = b
      else False)"

text \<open>\<open>Is4In6\<close>: an IPv6 address in ::ffff:0:0/96.\<close>

fun Is4In6 :: "addr \<Rightarrow> bool" where
  "Is4In6 (Addr6 w _) = (take 12 (word_bytes 16 w) = v4InV6Prefix)"
| "Is4In6 _ = False"

section \<open>Masks\<close>

fun cidr_bytes :: "int \<Rightarrow> nat \<Rightarrow> byte list" where
  "cidr_bytes n 0 = []"
| "cidr_bytes n (Suc l) =
     (if n \<ge> 8 then 0xff # cidr_bytes (n - 8) l
      else not (drop_bit (nat n) 0xff) # cidr_bytes 0 l)"

definition CIDRMask :: "int \<Rightarrow> int \<Rightarrow> byte list" where
  "CIDRMask ones bits =
     (if bits \<noteq> 32 \<and> bits \<noteq> 128 then []
      else if ones < 0 \<or> ones > bits then []
      else cidr_bytes ones (nat (bits div 8)))"

text \<open>Leading ones of a byte; \<open>-1\<close> if a one follows a zero.\<close>

fun leading_ones :: "nat \<Rightarrow> byte \<Rightarrow> int \<times> byte" where
  "leading_ones 0 v = (0, v)"
| "leading_ones (Suc k) v =
     (if and v 0x80 \<noteq> 0 then (case leading_ones k (push_bit 1 v) of (n, u) \<Rightarrow> (n + 1, u)) else (0, v))"

fun simpleMaskLength :: "byte list \<Rightarrow> int" where
  "simpleMaskLength [] = 0"
| "simpleMaskLength (v # vs) =
     (if v = 0xff then (let n = simpleMaskLength vs in if n = -1 then -1 else n + 8)
      else (case leading_ones 8 v of (n, u) \<Rightarrow>
        if u \<noteq> 0 then -1 else if \<exists>x\<in>set vs. x \<noteq> 0 then -1 else n))"

definition Mask_Size :: "byte list \<Rightarrow> int \<times> int" where
  "Mask_Size m = (let ones = simpleMaskLength m in if ones = -1 then (0, 0) else (ones, 8 * int (length m)))"

lemma cidr_bytes_zero: "cidr_bytes 0 l = replicate l 0"
  by (induction l) auto

lemma partial_byte:
  assumes "0 \<le> n" "n < 8"
  shows "leading_ones 8 (not (drop_bit (nat n) 0xff)) = (n, 0)" "not (drop_bit (nat n) 0xff) \<noteq> (0xff :: byte)"
proof -
  have all: "list_all (\<lambda>k. leading_ones 8 (not (drop_bit k 0xff)) = (int k, 0) \<and> not (drop_bit k 0xff) \<noteq> (0xff :: byte)) [0..<8]"
    by code_simp
  from assms have "nat n \<in> set [0..<8]" by auto
  with all assms(1) show "leading_ones 8 (not (drop_bit (nat n) 0xff)) = (n, 0)"
    "not (drop_bit (nat n) 0xff) \<noteq> (0xff :: byte)"
    by (auto simp: list_all_iff simp del: set_upt)
qed

lemma simpleMaskLength_cidr_bytes:
  "0 \<le> n \<Longrightarrow> n \<le> 8 * int l \<Longrightarrow> simpleMaskLength (cidr_bytes n l) = n"
proof (induction l arbitrary: n)
  case (Suc l)
  show ?case
  proof (cases "n \<ge> 8")
    case True
    with Suc.prems have "0 \<le> n - 8" "n - 8 \<le> 8 * int l" by auto
    from Suc.IH[OF this] True show ?thesis by (simp add: Let_def)
  next
    case False
    with Suc.prems have "n < 8" "0 \<le> n" by auto
    from partial_byte[OF this(2,1)] False show ?thesis
      by (simp add: cidr_bytes_zero)
  qed
qed simp

lemma length_cidr_bytes [simp]: "length (cidr_bytes n l) = l"
  by (induction l arbitrary: n) auto

lemma Mask_Size_CIDRMask:
  assumes "bits = 32 \<or> bits = 128" "0 \<le> ones" "ones \<le> bits"
  shows "Mask_Size (CIDRMask ones bits) = (ones, bits)"
proof -
  from assms have "simpleMaskLength (cidr_bytes ones (nat (bits div 8))) = ones"
    by (intro simpleMaskLength_cidr_bytes) auto
  with assms show ?thesis by (auto simp: Mask_Size_def CIDRMask_def Let_def)
qed

section \<open>Prefixes\<close>

text \<open>
  \<open>netip.Prefix\<close>: an address and the number of bits, kept as one more than the
  length so that the zero value is invalid; \<open>Bits\<close> of an invalid prefix is \<open>-1\<close>.
\<close>

record netip_prefix =
  p_ip :: addr
  p_bitsPlusOne :: nat

definition Bits :: "netip_prefix \<Rightarrow> int" where
  "Bits p = int (p_bitsPlusOne p) - 1"

definition PrefixFrom :: "addr \<Rightarrow> int \<Rightarrow> netip_prefix" where
  "PrefixFrom ip bits =
     \<lparr>p_ip = withoutZone ip,
      p_bitsPlusOne = (if ip \<noteq> AddrZero \<and> 0 \<le> bits \<and> bits \<le> BitLen ip then nat bits + 1 else 0)\<rparr>"

definition zero_prefix :: netip_prefix where
  "zero_prefix = \<lparr>p_ip = AddrZero, p_bitsPlusOne = 0\<rparr>"

text \<open>What \<open>PrefixFrom\<close> and \<open>ParsePrefix\<close> return as valid.\<close>

definition Prefix_IsValid :: "netip_prefix \<Rightarrow> bool" where
  "Prefix_IsValid p \<longleftrightarrow> p_ip p \<noteq> AddrZero \<and> 0 < p_bitsPlusOne p \<and> Bits p \<le> BitLen (p_ip p) \<and>
     withoutZone (p_ip p) = p_ip p"

lemma Prefix_IsValid_PrefixFrom:
  "ip \<noteq> AddrZero \<Longrightarrow> 0 \<le> bits \<Longrightarrow> bits \<le> BitLen ip \<Longrightarrow> Prefix_IsValid (PrefixFrom ip bits)"
  by (cases ip) (auto simp: Prefix_IsValid_def PrefixFrom_def Bits_def)

lemma PrefixFrom_Bits: "Prefix_IsValid p \<Longrightarrow> PrefixFrom (p_ip p) (Bits p) = p"
  by (cases p) (auto simp: Prefix_IsValid_def PrefixFrom_def Bits_def)

end
