(* ===== verification/GoParse.thy ===== *)
theory GoParse
  imports GoNet
begin

text \<open>
  The parsers of \<open>net/netip\<close>: \<open>ParseAddr\<close> for dotted quads and for IPv6 text with
  an ellipsis, an embedded dotted quad and a zone, and \<open>ParsePrefix\<close> for CIDR
  notation. The loops of the library are recursions over the rest of the text; the
  IPv6 loop runs at most eight times, once per 16-bit group.
\<close>

section \<open>IPv4\<close>

definition digit_val :: "char \<Rightarrow> nat" where
  "digit_val c = of_char c - 48"

definition is_digit :: "char \<Rightarrow> bool" where
  "is_digit c \<longleftrightarrow> 48 \<le> (of_char c :: nat) \<and> (of_char c :: nat) \<le> 57"

text \<open>
  \<open>prev\<close> is the byte before the current one, \<open>d\<close> the number of digits of the
  current octet, \<open>fs\<close> the octets already stored.
\<close>

fun parseIPv4Fields :: "string \<Rightarrow> char option \<Rightarrow> nat \<Rightarrow> nat \<Rightarrow> byte list \<Rightarrow> byte list option" where
  "parseIPv4Fields [] prev val d fs = (if length fs < 3 then None else Some (fs @ [of_nat val]))"
| "parseIPv4Fields (c # cs) prev val d fs =
     (if is_digit c then
        (if d = 1 \<and> val = 0 then None
         else if val * 10 + digit_val c > 255 then None
         else parseIPv4Fields cs (Some c) (val * 10 + digit_val c) (d + 1) fs)
      else if c = CHR ''.'' then
        (if prev = None \<or> cs = [] \<or> prev = Some (CHR ''.'') then None
         else if length fs = 3 then None
         else parseIPv4Fields cs (Some c) 0 0 (fs @ [of_nat val]))
      else None)"

section \<open>IPv6\<close>

definition hex_val :: "char \<Rightarrow> nat option" where
  "hex_val c =
     (let n = of_char c in
      if 48 \<le> n \<and> n \<le> 57 then Some (n - 48)
      else if 97 \<le> n \<and> n \<le> 102 then Some (n - 87)
      else if 65 \<le> n \<and> n \<le> 70 then Some (n - 55)
      else None)"

definition hex_acc :: "string \<Rightarrow> int" where
  "hex_acc ds = fold (\<lambda>c a. 16 * a + int (the (hex_val c))) ds 0"

text \<open>\<open>ip\<close> holds the bytes stored so far, \<open>el\<close> the position of the ellipsis.\<close>

fun parseIPv6_loop ::
  "nat \<Rightarrow> string \<Rightarrow> byte list \<Rightarrow> nat option \<Rightarrow> (string \<times> byte list \<times> nat option) option" where
  "parseIPv6_loop 0 s ip el = Some (s, ip, el)"
| "parseIPv6_loop (Suc n) s ip el =
     (let ds = takeWhile (\<lambda>c. hex_val c \<noteq> None) s; rest = drop (length ds) s in
      if length ds > 4 then None
      else if ds = [] then None
      else if rest \<noteq> [] \<and> hd rest = CHR ''.'' then
        (if el = None \<and> length ip \<noteq> 12 then None
         else if length ip + 4 > 16 then None
         else (case parseIPv4Fields s None 0 0 [] of None \<Rightarrow> None | Some fs \<Rightarrow> Some ([], ip @ fs, el)))
      else
        (let ip' = ip @ [word_of_int (hex_acc ds div 256), word_of_int (hex_acc ds mod 256)] in
         case rest of
           [] \<Rightarrow> Some ([], ip', el)
         | c # cs \<Rightarrow>
             if c \<noteq> CHR '':'' then None
             else (case cs of
                 [] \<Rightarrow> None
               | d # ds' \<Rightarrow>
                   if d = CHR '':'' then
                     (if el \<noteq> None then None
                      else if ds' = [] then Some ([], ip', Some (length ip'))
                      else parseIPv6_loop n ds' ip' (Some (length ip')))
                   else parseIPv6_loop n cs ip' el)))"

definition expand_ellipsis :: "byte list \<Rightarrow> nat option \<Rightarrow> byte list option" where
  "expand_ellipsis ip el =
     (if length ip < 16 then
        (case el of None \<Rightarrow> None
         | Some e \<Rightarrow> Some (take e ip @ replicate (16 - length ip) 0 @ drop e ip))
      else if el \<noteq> None then None else Some ip)"

definition parseIPv6 :: "string \<Rightarrow> addr option" where
  "parseIPv6 inp =
     (let s = takeWhile (\<lambda>c. c \<noteq> CHR ''%'') inp; z = drop (length s) inp; zone = tl z in
      if z \<noteq> [] \<and> zone = [] then None
      else
        (let lead = take 2 s = ''::''; s' = (if lead then drop 2 s else s) in
         if lead \<and> s' = [] then Some (Addr6 0 zone)
         else (case parseIPv6_loop 8 s' [] (if lead then Some 0 else None) of
             None \<Rightarrow> None
           | Some (rest, ip, el) \<Rightarrow>
               if rest \<noteq> [] then None
               else (case expand_ellipsis ip el of
                   None \<Rightarrow> None | Some bs \<Rightarrow> Some (Addr6 (bytes_word bs) zone)))))"

section \<open>ParseAddr and ParsePrefix\<close>

text \<open>The first of \<open>.\<close>, \<open>:\<close> and \<open>%\<close> in the text decides how it is read.\<close>

fun addr_kind :: "string \<Rightarrow> char option" where
  "addr_kind [] = None"
| "addr_kind (c # cs) =
     (if c = CHR ''.'' \<or> c = CHR '':'' \<or> c = CHR ''%'' then Some c else addr_kind cs)"

definition parse_addr_opt :: "string \<Rightarrow> addr option" where
  "parse_addr_opt s =
     (case addr_kind s of
        None \<Rightarrow> None
      | Some c \<Rightarrow>
          if c = CHR ''.'' then map_option (\<lambda>fs. Addr4 (bytes_word fs)) (parseIPv4Fields s None 0 0 [])
          else if c = CHR '':'' then parseIPv6 s
          else None)"

definition ParseAddr :: "string \<Rightarrow> err + addr" where
  "ParseAddr s = (case parse_addr_opt s of None \<Rightarrow> Inl (LibErr ''ParseAddr'') | Some a \<Rightarrow> Inr a)"

definition dec_val :: "string \<Rightarrow> nat" where
  "dec_val ds = fold (\<lambda>c a. 10 * a + digit_val c) ds 0"

text \<open>The text before and after the last slash.\<close>

definition split_slash :: "string \<Rightarrow> (string \<times> string) option" where
  "split_slash s =
     (let t = takeWhile (\<lambda>c. c \<noteq> CHR ''/'') (rev s) in
      if length t = length s then None else Some (take (length s - length t - 1) s, rev t))"

definition parse_prefix_opt :: "string \<Rightarrow> netip_prefix option" where
  "parse_prefix_opt s =
     (case split_slash s of
        None \<Rightarrow> None
      | Some (a, b) \<Rightarrow>
          (case parse_addr_opt a of
             None \<Rightarrow> None
           | Some ip \<Rightarrow>
               if withoutZone ip \<noteq> ip then None
               else if length b > 1 \<and> (digit_val (hd b) = 0 \<or> \<not> is_digit (hd b)) then None
               else if b = [] \<or> \<not> list_all is_digit b then None
               else if int (dec_val b) > (if Is6 ip then 128 else 32) then None
               else Some (PrefixFrom ip (int (dec_val b)))))"

definition ParsePrefix :: "string \<Rightarrow> err + netip_prefix" where
  "ParsePrefix s = (case parse_prefix_opt s of None \<Rightarrow> Inl (LibErr ''ParsePrefix'') | Some p \<Rightarrow> Inr p)"

text \<open>\<open>MustParsePrefix\<close> panics (here \<open>None\<close>) where \<open>ParsePrefix\<close> fails.\<close>

definition MustParsePrefix :: "string \<Rightarrow> netip_prefix option" where
  "MustParsePrefix s = (case ParsePrefix s of Inl _ \<Rightarrow> None | Inr p \<Rightarrow> Some p)"

section \<open>Printing\<close>

text \<open>
  \<open>net.IP.String\<close>: dotted decimal for IPv4 (also in its mapped form); for IPv6 the
  groups in hexadecimal, with the first longest run of at least two zero groups
  written as \<open>::\<close>. \<open>net.IPNet.String\<close> adds the mask length.
\<close>

definition dotted :: "byte list \<Rightarrow> string" where
  "dotted bs = (case map (\<lambda>b. nat_digits (unat b)) bs of
     [] \<Rightarrow> [] | d # ds \<Rightarrow> d @ concat (map (\<lambda>x. CHR ''.'' # x) ds))"

fun hex_nat :: "nat \<Rightarrow> string" where
  "hex_nat n = (if n < 16 then [hex_digit n] else hex_nat (n div 16) @ [hex_digit (n mod 16)])"

declare hex_nat.simps [simp del]

fun byte_pairs :: "byte list \<Rightarrow> nat list" where
  "byte_pairs (a # b # bs) = (256 * unat a + unat b) # byte_pairs bs"
| "byte_pairs _ = []"

text \<open>Start and length of the first longest run of zeros; \<open>i\<close> is the current position.\<close>

fun zero_run :: "nat \<Rightarrow> nat list \<Rightarrow> nat \<times> nat \<Rightarrow> nat \<times> nat" where
  "zero_run i [] best = best"
| "zero_run i (g # gs) best =
     (let n = length (takeWhile (\<lambda>x. x = 0) (g # gs)) in
      zero_run (Suc i) gs (if n > snd best then (i, n) else best))"

definition join_colon :: "string list \<Rightarrow> string" where
  "join_colon gs = (case gs of [] \<Rightarrow> [] | x # xs \<Rightarrow> x @ concat (map (\<lambda>y. CHR '':'' # y) xs))"

definition v6_text :: "byte list \<Rightarrow> string" where
  "v6_text bs =
     (let gs = byte_pairs bs; (i, n) = zero_run 0 gs (0, 1) in
      if n < 2 then join_colon (map hex_nat gs)
      else join_colon (map hex_nat (take i gs)) @ ''::'' @ join_colon (map hex_nat (drop (i + n) gs)))"

definition IP_String :: "byte list \<Rightarrow> string" where
  "IP_String ip =
     (if To4 ip \<noteq> [] then dotted (To4 ip) else if length ip = 16 then v6_text ip else ''<nil>'')"

definition IPNet_String :: "byte list \<Rightarrow> byte list \<Rightarrow> string" where
  "IPNet_String ip msk =
     (let nn = (if To4 ip \<noteq> [] then To4 ip else ip);
          m = (if length msk = 4 \<and> length nn = 4 then msk
               else if length msk = 16 then (if length nn = 4 then drop 12 msk else msk) else []) in
      if m = [] then ''<nil>'' else IP_String nn @ ''/'' @ Itoa (simpleMaskLength m))"

section \<open>What the parsers guarantee\<close>

lemma parseIPv4Fields_length: "parseIPv4Fields s prev val d fs = Some bs \<Longrightarrow> length fs \<le> 3 \<Longrightarrow> length bs = 4"
  by (induction s prev val d fs rule: parseIPv4Fields.induct) (auto split: if_splits)

lemma parse_addr_opt_valid: "parse_addr_opt s = Some a \<Longrightarrow> a \<noteq> AddrZero"
  by (auto simp: parse_addr_opt_def parseIPv6_def Let_def split: option.splits if_splits)

lemma ParseAddr_valid: "ParseAddr s = Inr a \<Longrightarrow> Is4 a \<or> Is6 a"
  using parse_addr_opt_valid[of s a] by (cases a) (auto simp: ParseAddr_def split: option.splits)

lemma parsed_prefix_valid:
  assumes "parse_addr_opt a = Some ip"
  shows "Is6 ip \<Longrightarrow> \<not> 128 < n \<Longrightarrow> Prefix_IsValid (PrefixFrom ip (int n))"
    and "\<not> Is6 ip \<Longrightarrow> \<not> 32 < n \<Longrightarrow> Prefix_IsValid (PrefixFrom ip (int n))"
  using parse_addr_opt_valid[OF assms]
  by (cases ip; auto intro!: Prefix_IsValid_PrefixFrom)+

lemma ParsePrefix_valid: "ParsePrefix s = Inr p \<Longrightarrow> Prefix_IsValid p"
  unfolding ParsePrefix_def parse_prefix_opt_def
  by (auto split: option.splits if_split_asm intro: parsed_prefix_valid)

lemma MustParsePrefix_valid: "MustParsePrefix s = Some p \<Longrightarrow> Prefix_IsValid p"
  by (auto simp: MustParsePrefix_def ParsePrefix_valid split: sum.splits)

section \<open>Reading constants\<close>

text \<open>An IPv6 prefix text without a zone and without a leading ellipsis, read step by step.\<close>

lemma parse_addr6:
  assumes "addr_kind a = Some CHR '':''" "takeWhile (\<lambda>c. c \<noteq> CHR ''%'') a = a"
    "take 2 a \<noteq> ''::''" "parseIPv6_loop 8 a [] None = Some ([], ip, el)" "expand_ellipsis ip el = Some bs"
  shows "parse_addr_opt a = Some (Addr6 (bytes_word bs) [])"
proof -
  from assms(2-) have "parseIPv6 a = Some (Addr6 (bytes_word bs) [])"
    unfolding parseIPv6_def Let_def by (simp only: drop_all order_refl) simp
  with assms(1) show ?thesis by (simp add: parse_addr_opt_def)
qed

lemma parse_prefix6:
  assumes s: "split_slash s = Some (a, b)" and a: "parse_addr_opt a = Some (Addr6 w [])"
    and b: "length b \<le> 1 \<or> (digit_val (hd b) \<noteq> 0 \<and> is_digit (hd b))" "b \<noteq> []" "list_all is_digit b" "dec_val b \<le> 128"
  shows "MustParsePrefix s = Some (PrefixFrom (Addr6 w []) (int (dec_val b)))"
proof -
  from s a b have "parse_prefix_opt s = Some (PrefixFrom (Addr6 w []) (int (dec_val b)))"
    unfolding parse_prefix_opt_def by (auto simp: s a)
  then show ?thesis by (simp add: MustParsePrefix_def ParsePrefix_def)
qed

end
