(* ===== verification/Flags.thy ===== *)
theory Flags
  imports GoParse
begin

text \<open>
  The command line as the \<open>main\<close> functions read it: Go's \<open>flag\<close> package with its
  default error handling, where \<open>flag.Parse\<close> exits with status 2 after a bad flag and
  with status 0 after \<open>-help\<close>, and the parts of \<open>strconv\<close> it calls. A flag is known by
  its name and its current value, which starts as the default.
\<close>

section \<open>Values\<close>

datatype flag_value = StringV string | BoolV bool | IntV int

type_synonym flags = "(string \<times> flag_value) list"

definition ParseBool :: "string \<Rightarrow> bool option" where
  "ParseBool s =
     (if s \<in> {''1'', ''t'', ''T'', ''TRUE'', ''true'', ''True''} then Some True
      else if s \<in> {''0'', ''f'', ''F'', ''FALSE'', ''false'', ''False''} then Some False
      else None)"

text \<open>\<open>strconv.ParseInt(s, 0, 64)\<close>: the prefix gives the base, and underscores may separate digits.\<close>

fun digits_val :: "int \<Rightarrow> int \<Rightarrow> string \<Rightarrow> int option" where
  "digits_val base acc [] = Some acc"
| "digits_val base acc (c # cs) =
     (if c = CHR ''_'' then digits_val base acc cs
      else case hex_val c of
          None \<Rightarrow> None
        | Some d \<Rightarrow> if int d < base then digits_val base (acc * base + int d) cs else None)"

definition base_prefix :: "string \<Rightarrow> int \<times> string" where
  "base_prefix s =
     (case s of
        c # x # rest \<Rightarrow>
          if c \<noteq> CHR ''0'' then (10, s)
          else if rest \<noteq> [] \<and> x \<in> {CHR ''b'', CHR ''B''} then (2, rest)
          else if rest \<noteq> [] \<and> x \<in> {CHR ''o'', CHR ''O''} then (8, rest)
          else if rest \<noteq> [] \<and> x \<in> {CHR ''x'', CHR ''X''} then (16, rest)
          else (8, x # rest)
      | [c] \<Rightarrow> if c = CHR ''0'' then (8, []) else (10, s)
      | [] \<Rightarrow> (10, s))"

text \<open>An underscore stands between digits, or between the prefix and a digit.\<close>

fun underscores_ok :: "bool \<Rightarrow> string \<Rightarrow> bool" where
  "underscores_ok after_digit [] \<longleftrightarrow> True"
| "underscores_ok after_digit [c] \<longleftrightarrow> c \<noteq> CHR ''_''"
| "underscores_ok after_digit (c # d # cs) \<longleftrightarrow>
     (if c = CHR ''_'' then after_digit \<and> d \<noteq> CHR ''_'' \<and> underscores_ok False (d # cs) else underscores_ok True (d # cs))"

definition ParseUint :: "string \<Rightarrow> int option" where
  "ParseUint s =
     (if s = [] then None
      else
        let (base, ds) = base_prefix s in
        if \<not> underscores_ok (base \<noteq> 10) ds then None else digits_val base 0 ds)"

definition ParseInt :: "string \<Rightarrow> int option" where
  "ParseInt s =
     (case s of
        [] \<Rightarrow> None
      | c # cs \<Rightarrow>
          if c = CHR ''-'' then
            (case ParseUint cs of None \<Rightarrow> None | Some un \<Rightarrow> if un > 2 ^ 63 then None else Some (- un))
          else
            (case ParseUint (if c = CHR ''+'' then cs else s) of
               None \<Rightarrow> None | Some un \<Rightarrow> if un \<ge> 2 ^ 63 then None else Some un))"

fun set_flag :: "flag_value \<Rightarrow> string \<Rightarrow> flag_value option" where
  "set_flag (StringV _) s = Some (StringV s)"
| "set_flag (BoolV _) s = map_option BoolV (ParseBool s)"
| "set_flag (IntV _) s = map_option IntV (ParseInt s)"

section \<open>Parsing\<close>

text \<open>The name and, after the first equals sign that is not its first byte, the value.\<close>

definition split_flag :: "string \<Rightarrow> string \<times> string option" where
  "split_flag s =
     (case s of
        [] \<Rightarrow> ([], None)
      | c # cs \<Rightarrow>
          let n = takeWhile (\<lambda>x. x \<noteq> CHR ''='') cs in
          (c # n, if length n = length cs then None else Some (drop (Suc (length n)) cs)))"

definition update_flag :: "string \<Rightarrow> flag_value \<Rightarrow> flags \<Rightarrow> flags" where
  "update_flag name v = map (\<lambda>(n, w). (n, if n = name then v else w))"

text \<open>The text a flag is set to, and the arguments that are left; a boolean flag never takes the next argument.\<close>

definition flag_text :: "string option \<Rightarrow> flag_value \<Rightarrow> string list \<Rightarrow> (string \<times> string list) option" where
  "flag_text val old args =
     (case val of
        Some v \<Rightarrow> Some (v, args)
      | None \<Rightarrow>
          (case old of
             BoolV _ \<Rightarrow> Some (''true'', args)
           | _ \<Rightarrow> (case args of [] \<Rightarrow> None | v # rest \<Rightarrow> Some (v, rest))))"

lemma flag_text_length: "flag_text val old args = Some (v, rest) \<Longrightarrow> length rest \<le> length args"
  by (auto simp: flag_text_def split: option.split_asm flag_value.split_asm list.split_asm)

text \<open>The exit status, or the values of the flags; arguments that are no flags end the parsing and are not used.\<close>

function parse_flags :: "flags \<Rightarrow> string list \<Rightarrow> int + flags" where
  "parse_flags fs [] = Inr fs"
| "parse_flags fs (s # args) =
     (if length s < 2 \<or> hd s \<noteq> CHR ''-'' \<or> s = ''--'' then Inr fs
      else
        let body = drop (if s ! 1 = CHR ''-'' then 2 else 1) s; (name, val) = split_flag body in
        if hd body = CHR ''-'' \<or> hd body = CHR ''='' then Inl 2
        else
          case map_of fs name of
            None \<Rightarrow> Inl (if name = ''help'' \<or> name = ''h'' then 0 else 2)
          | Some old \<Rightarrow>
              (case flag_text val old args of
                 None \<Rightarrow> Inl 2
               | Some (v, rest) \<Rightarrow>
                   (case set_flag old v of None \<Rightarrow> Inl 2 | Some x \<Rightarrow> parse_flags (update_flag name x fs) rest)))"
  by pat_completeness auto
termination
  by (relation "measure (\<lambda>(_, args). length args)") (auto dest: flag_text_length)

declare parse_flags.simps(2) [simp del]

definition flag_string :: "flags \<Rightarrow> string \<Rightarrow> string" where
  "flag_string fs n = (case map_of fs n of Some (StringV s) \<Rightarrow> s | _ \<Rightarrow> [])"

definition flag_bool :: "flags \<Rightarrow> string \<Rightarrow> bool" where
  "flag_bool fs n = (case map_of fs n of Some (BoolV b) \<Rightarrow> b | _ \<Rightarrow> False)"

definition flag_int :: "flags \<Rightarrow> string \<Rightarrow> int" where
  "flag_int fs n = (case map_of fs n of Some (IntV i) \<Rightarrow> i | _ \<Rightarrow> 0)"

section \<open>Lemmas\<close>

lemma map_of_update_flag:
  "map_of (update_flag name v fs) n = (if n = name \<and> map_of fs n \<noteq> None then Some v else map_of fs n)"
  by (induction fs) (auto simp: update_flag_def)

text \<open>\<open>--name=value\<close> sets the flag and goes on with the next argument.\<close>

lemma split_flag_eq:
  assumes "CHR ''='' \<notin> set (tl name)" "name \<noteq> []"
  shows "split_flag (name @ ''='' @ v) = (name, Some v)"
proof -
  obtain c cs where n: "name = c # cs" using assms(2) by (cases name) auto
  with assms(1) have "takeWhile (\<lambda>x. x \<noteq> CHR ''='') (cs @ ''='' @ v) = cs" by (subst takeWhile_append2) auto
  then show ?thesis by (simp add: split_flag_def n Let_def)
qed

lemma parse_flags_eq:
  assumes "name \<noteq> []" "CHR ''='' \<notin> set name" "hd name \<noteq> CHR ''-''" "map_of fs name = Some old" "set_flag old v = Some x"
  shows "parse_flags fs ((''--'' @ name @ ''='' @ v) # args) = parse_flags (update_flag name x fs) args"
proof -
  obtain c cs where n: "name = c # cs" using assms(1) by (cases name) auto
  have "split_flag (name @ ''='' @ v) = (name, Some v)" using split_flag_eq[of name v] assms(1,2) by (auto simp: n)
  with assms show ?thesis by (auto simp: parse_flags.simps(2) n flag_text_def)
qed

text \<open>The digits that are printed are the digits that are read.\<close>

lemma digits_val_append: "digits_val base acc (xs @ ys) = (case digits_val base acc xs of None \<Rightarrow> None | Some a \<Rightarrow> digits_val base a ys)"
  by (induction xs arbitrary: acc) (auto split: option.splits)

lemma hex_val_decimal: "d < 10 \<Longrightarrow> hex_val (char_of (48 + d)) = Some d" "d < 10 \<Longrightarrow> char_of (48 + d) \<noteq> CHR ''_''"
proof -
  have e: "(of_char (char_of (48 + d) :: char) :: nat) = 48 + d" if "d < 10" using that by (simp add: take_bit_eq_mod)
  show "hex_val (char_of (48 + d)) = Some d" if "d < 10" using that by (simp add: hex_val_def e Let_def)
  show "char_of (48 + d) \<noteq> CHR ''_''" if "d < 10"
  proof
    assume "char_of (48 + d) = CHR ''_''"
    then have "(of_char (char_of (48 + d) :: char) :: nat) = of_char CHR ''_''" by simp
    with e[OF that] that show False by simp
  qed
qed

lemma nat_digits_read: "digits_val 10 0 (nat_digits n) = Some (int n) \<and> CHR ''_'' \<notin> set (nat_digits n)"
proof (induction n rule: nat_digits.induct)
  case (1 n)
  have "n mod 10 < 10" by simp
  note m = hex_val_decimal[OF this]
  have "int (n div 10) * 10 + int (n mod 10) = int n" by presburger
  with 1 m hex_val_decimal[of n] show ?case
    by (subst (1 2) nat_digits.simps) (auto simp: digits_val_append)
qed

lemma nat_digits_head: "0 < n \<Longrightarrow> \<exists>(d::nat) cs. nat_digits n = char_of (48 + d) # cs \<and> 0 < d \<and> d < 10"
proof (induction n rule: nat_digits.induct)
  case (1 n)
  show ?case
  proof (cases "n < 10")
    case True
    then have "nat_digits n = [char_of (48 + n)]" by (simp add: nat_digits.simps[of n])
    with 1 True show ?thesis by blast
  next
    case False
    then have "0 < n div 10" by (simp add: div_greater_zero_iff)
    with 1 False obtain d :: nat and cs where "nat_digits (n div 10) = char_of (48 + d) # cs \<and> 0 < d \<and> d < 10" by blast
    moreover from False this have "nat_digits n = char_of (48 + d) # (cs @ [char_of (48 + n mod 10)])" by (simp add: nat_digits.simps[of n])
    ultimately show ?thesis by blast
  qed
qed

lemma underscores_none: "CHR ''_'' \<notin> set s \<Longrightarrow> underscores_ok b s"
  by (induction b s rule: underscores_ok.induct) auto

lemma ParseUint_digits: "ParseUint (nat_digits n) = Some (int n)"
proof (cases "n = 0")
  case True
  have "nat_digits 0 = ''0''" by code_simp
  then show ?thesis by (simp add: True ParseUint_def base_prefix_def)
next
  case False
  then obtain d :: nat and cs where h: "nat_digits n = char_of (48 + d) # cs" "0 < d" "d < 10" using nat_digits_head[of n] by blast
  have "char_of (48 + d) \<noteq> CHR ''0''"
  proof
    assume "char_of (48 + d) = CHR ''0''"
    with hex_val_decimal(1)[OF h(3)] have "hex_val CHR ''0'' = Some d" by simp
    with h(2) show False by (simp add: hex_val_def)
  qed
  then have "base_prefix (nat_digits n) = (10, nat_digits n)" by (auto simp: base_prefix_def h(1) split: list.splits)
  moreover have "nat_digits n \<noteq> []" by (simp add: h(1))
  ultimately show ?thesis using nat_digits_read[of n] underscores_none[of "nat_digits n"] by (simp add: ParseUint_def)
qed

lemma ParseInt_Itoa:
  assumes "- (2 ^ 63) \<le> i" "i < 2 ^ 63"
  shows "ParseInt (Itoa i) = Some i"
proof (cases "i < 0")
  case True
  with assms ParseUint_digits[of "nat (- i)"] show ?thesis by (simp add: Itoa_def ParseInt_def)
next
  case False
  obtain c cs where d: "nat_digits (nat i) = c # cs" using ParseUint_digits[of "nat i"] by (cases "nat_digits (nat i)") (auto simp: ParseUint_def)
  have "c \<noteq> CHR ''-'' \<and> c \<noteq> CHR ''+''"
    using nat_digits_read[of "nat i"] by (auto simp: d hex_val_def)
  with False assms ParseUint_digits[of "nat i"] show ?thesis by (simp add: Itoa_def ParseInt_def d)
qed

end
