(* ===== verification/NetIPUtil.thy ===== *)
theory NetIPUtil
  imports GoParse
begin

text \<open>
  Package \<open>netiputil\<close> (\<open>pkg/util/netiputil/netiputil.go\<close>): conversions between
  \<open>netip\<close> values and the older \<open>net.IP\<close> and \<open>net.IPNet\<close>, which the netlink
  library speaks.
\<close>

section \<open>The package\<close>

record net_ipnet =
  n_IP :: "byte list"
  n_Mask :: "byte list"

definition FromAddr :: "addr \<Rightarrow> byte list" where
  "FromAddr a = AsSlice a"

text \<open>The second result of the Go function is the flag \<open>ok\<close>; \<open>None\<close> is \<open>ok = false\<close>.\<close>

definition ToAddr :: "byte list \<Rightarrow> addr option" where
  "ToAddr ip =
     (if To4 ip \<noteq> [] then AddrFromSlice (To4 ip)
      else if To16 ip \<noteq> [] then AddrFromSlice (To16 ip)
      else None)"

definition IsFamilyMatched :: "addr \<Rightarrow> addr \<Rightarrow> bool" where
  "IsFamilyMatched a b \<longleftrightarrow> (Is4 a \<and> Is4 b) \<or> (Is6 a \<and> Is6 b)"

definition ToIPNet :: "netip_prefix \<Rightarrow> net_ipnet" where
  "ToIPNet prefix =
     \<lparr>n_IP = FromAddr (p_ip prefix), n_Mask = CIDRMask (Bits prefix) (BitLen (p_ip prefix))\<rparr>"

definition FromIPNet :: "net_ipnet \<Rightarrow> netip_prefix option" where
  "FromIPNet from =
     (case ToAddr (n_IP from) of
        None \<Rightarrow> None
      | Some ip \<Rightarrow> Some (PrefixFrom ip (fst (Mask_Size (n_Mask from)))))"

section \<open>Round trips\<close>

text \<open>The address a conversion to \<open>net.IP\<close> and back gives: the zone is lost and an
  IPv4-mapped address comes back as IPv4.\<close>

fun unmapped :: "addr \<Rightarrow> addr" where
  "unmapped (Addr6 w z) = (if Is4In6 (Addr6 w z) then Addr4 (ucast w) else Addr6 w [])"
| "unmapped a = a"

lemma To4_AsSlice4 [simp]: "To4 (word_bytes 4 w) = word_bytes 4 w"
  by (simp add: To4_def)

lemma bytes_word4 [simp]: "bytes_word (word_bytes 4 (w :: 32 word)) = w"
  by (simp add: bytes_word_bytes take_bit_word_eq_self)

lemma bytes_word16 [simp]: "bytes_word (word_bytes 16 (w :: 128 word)) = w"
  by (simp add: bytes_word_bytes take_bit_word_eq_self)

lemma drop_word_bytes: "drop 12 (word_bytes 16 (w :: 128 word)) = word_bytes 4 (ucast w :: 32 word)"
proof -
  have "drop 12 (word_bytes 16 w) = map (\<lambda>i. ucast (drop_bit (8 * (16 - Suc i)) w)) [12..<16]"
    by (simp add: word_bytes_def drop_map)
  also have "\<dots> = word_bytes 4 (ucast w :: 32 word)"
    by (auto simp: word_bytes_def upt_rec numeral_eq_Suc intro!: bit_eqI simp: bit_simps)
  finally show ?thesis .
qed

lemma word_bytes_not_Nil [simp]: "0 < n \<Longrightarrow> word_bytes n w \<noteq> []"
  by (simp add: word_bytes_def)

lemma ToAddr_FromAddr:
  assumes "a \<noteq> AddrZero"
  shows "ToAddr (FromAddr a) = Some (unmapped a)"
proof (cases a)
  case (Addr4 w)
  then show ?thesis by (simp add: ToAddr_def FromAddr_def AddrFromSlice_def)
next
  case (Addr6 w z)
  then show ?thesis
    by (auto simp: ToAddr_def FromAddr_def AddrFromSlice_def To4_def To16_def drop_word_bytes)
qed (use assms in simp)

lemma unmapped_id: "\<not> Is4In6 a \<Longrightarrow> unmapped a = withoutZone a"
  by (cases a) auto

lemma unmapped_not_zero [simp]: "unmapped a = AddrZero \<longleftrightarrow> a = AddrZero"
  by (cases a) auto

lemma Bits_range: "Prefix_IsValid p \<Longrightarrow> 0 \<le> Bits p \<and> Bits p \<le> BitLen (p_ip p)"
  by (auto simp: Prefix_IsValid_def Bits_def)

lemma FromIPNet_ToIPNet:
  assumes "Prefix_IsValid p"
  shows "FromIPNet (ToIPNet p) = Some (PrefixFrom (unmapped (p_ip p)) (Bits p))"
proof -
  from assms have z: "p_ip p \<noteq> AddrZero" by (simp add: Prefix_IsValid_def)
  with Bits_range[OF assms] have "fst (Mask_Size (CIDRMask (Bits p) (BitLen (p_ip p)))) = Bits p"
    by (cases "p_ip p") (simp_all add: Mask_Size_CIDRMask)
  with ToAddr_FromAddr[OF z] show ?thesis by (simp add: FromIPNet_def ToIPNet_def)
qed

lemma FromIPNet_ToIPNet_id:
  assumes "Prefix_IsValid p" "\<not> Is4In6 (p_ip p)"
  shows "FromIPNet (ToIPNet p) = Some p"
  using FromIPNet_ToIPNet[OF assms(1)] unmapped_id[OF assms(2)] assms(1) PrefixFrom_Bits[OF assms(1)]
  by (simp add: Prefix_IsValid_def)

text \<open>
  C31. The conversions of a prefix invert each other: a valid prefix turned into a
  \<open>net.IPNet\<close> and back comes back as the prefix of the same length over the unmapped
  address, and as itself unless it is an IPv4-mapped IPv6 prefix; and an address turned
  into a \<open>net.IP\<close> and back is the same address without its zone, again unless mapped.
\<close>

theorem netiputil_roundtrip:
  assumes "Prefix_IsValid p"
  shows "FromIPNet (ToIPNet p) = Some (PrefixFrom (unmapped (p_ip p)) (Bits p)) \<and>
    ToAddr (FromAddr (p_ip p)) = Some (unmapped (p_ip p)) \<and>
    (\<not> Is4In6 (p_ip p) \<longrightarrow> FromIPNet (ToIPNet p) = Some p \<and> ToAddr (FromAddr (p_ip p)) = Some (p_ip p))"
  using assms FromIPNet_ToIPNet FromIPNet_ToIPNet_id ToAddr_FromAddr unmapped_id
  by (simp add: Prefix_IsValid_def)

theorem netiputil_roundtrip_witness:
  "Prefix_IsValid (PrefixFrom (Addr4 0x0A000000) 8) \<and>
   FromIPNet (ToIPNet (PrefixFrom (Addr4 0x0A000000) 8)) = Some (PrefixFrom (Addr4 0x0A000000) 8)"
proof -
  have v: "Prefix_IsValid (PrefixFrom (Addr4 0x0A000000) 8)" by code_simp
  from v netiputil_roundtrip[OF v] show ?thesis by (simp add: PrefixFrom_def Bits_def)
qed

end
