(* ===== verification/Host.thy ===== *)
theory Host
  imports NetIPUtil
begin

text \<open>
  The network namespace as the sources see it: the calls they make to the netlink
  library (\<open>github.com/vishvananda/netlink\<close>), to \<open>go-iptables\<close>, to \<open>sysctl\<close>,
  to the forwarding switches of the CNI plugin library and to \<open>modprobe\<close>. None of
  this code is part of the repository, so the calls are the fields of a record
  \<open>'k host\<close> over an unknown state \<open>'k\<close>, an argument of every definition that uses
  them. What the sources rely on is the locale \<open>host_laws\<close>: a view \<open>view\<close> of the
  unknown state as links, rules, routes and so on, and for each call the effect it
  has on the view when it succeeds and when it fails. Every call may fail at any
  time, with any error, unless the law says otherwise.
\<close>

section \<open>Data of the netlink library\<close>

datatype family = FAMILY_V4 | FAMILY_V6

datatype encap_type = FOU_ENCAP_NONE | FOU_ENCAP_DIRECT

record link_attrs =
  la_Name :: string
  la_Index :: int
  la_TxQLen :: int

text \<open>\<open>netlink.NewLinkAttrs()\<close>\<close>

definition NewLinkAttrs :: link_attrs where
  "NewLinkAttrs = \<lparr>la_Name = [], la_Index = 0, la_TxQLen = -1\<rparr>"

record tunnel_opts =
  to_Ttl :: "8 word"
  to_EncapType :: encap_type
  to_EncapDport :: "16 word"
  to_EncapSport :: "16 word"
  to_Remote :: "byte list"
  to_Local :: "byte list"
  to_FlowBased :: bool

definition zero_tunnel_opts :: tunnel_opts where
  "zero_tunnel_opts =
     \<lparr>to_Ttl = 0, to_EncapType = FOU_ENCAP_NONE, to_EncapDport = 0, to_EncapSport = 0,
      to_Remote = [], to_Local = [], to_FlowBased = False\<rparr>"

datatype link =
    is_Iptun: Iptun (Attrs: link_attrs) (opts: tunnel_opts)
  | is_Ip6tnl: Ip6tnl (Attrs: link_attrs) (opts: tunnel_opts)
  | is_Dummy: Dummy (Attrs: link_attrs)
  | is_OtherLink: OtherLink (Attrs: link_attrs)

abbreviation link_name :: "link \<Rightarrow> string" where
  "link_name l \<equiv> la_Name (Attrs l)"

abbreviation link_index :: "link \<Rightarrow> int" where
  "link_index l \<equiv> la_Index (Attrs l)"

fun with_attrs :: "link_attrs \<Rightarrow> link \<Rightarrow> link" where
  "with_attrs a (Iptun _ t) = Iptun a t"
| "with_attrs a (Ip6tnl _ t) = Ip6tnl a t"
| "with_attrs a (Dummy _) = Dummy a"
| "with_attrs a (OtherLink _) = OtherLink a"

lemma Attrs_with_attrs [simp]: "Attrs (with_attrs a l) = a"
  by (cases l) auto

record fou =
  fou_Family :: family
  fou_Protocol :: int
  fou_Port :: int
  fou_EncapType :: encap_type

record rule =
  ru_Family :: family
  ru_Table :: int
  ru_Priority :: int
  ru_IifName :: string
  ru_Dst :: "net_ipnet option"

text \<open>\<open>netlink.NewRule()\<close>; the family is set by the caller.\<close>

definition NewRule :: "family \<Rightarrow> rule" where
  "NewRule f = \<lparr>ru_Family = f, ru_Table = 0, ru_Priority = -1, ru_IifName = [], ru_Dst = None\<rparr>"

record route =
  rt_Table :: int
  rt_Dst :: "net_ipnet option"
  rt_LinkIndex :: int
  rt_Type :: int
  rt_Protocol :: int
  rt_Priority :: int

definition zero_route :: route where
  "zero_route = \<lparr>rt_Table = 0, rt_Dst = None, rt_LinkIndex = 0, rt_Type = 0, rt_Protocol = 0, rt_Priority = 0\<rparr>"

text \<open>\<open>netlink.NewIPNet(ip)\<close>: the host network of an address.\<close>

definition NewIPNet :: "byte list \<Rightarrow> net_ipnet" where
  "NewIPNet ip =
     (if To4 ip \<noteq> [] then \<lparr>n_IP = ip, n_Mask = CIDRMask 32 32\<rparr>
      else \<lparr>n_IP = ip, n_Mask = CIDRMask 128 128\<rparr>)"

text \<open>The family the library derives from an address.\<close>

definition ip_family :: "byte list \<Rightarrow> family" where
  "ip_family ip = (if length ip \<le> 4 \<or> To4 ip \<noteq> [] then FAMILY_V4 else FAMILY_V6)"

definition default_net :: "family \<Rightarrow> net_ipnet" where
  "default_net f =
     (case f of FAMILY_V4 \<Rightarrow> \<lparr>n_IP = replicate 4 0, n_Mask = replicate 4 0\<rparr>
      | FAMILY_V6 \<Rightarrow> \<lparr>n_IP = replicate 16 0, n_Mask = replicate 16 0\<rparr>)"

section \<open>The calls\<close>

record 'k host =
  LinkByName :: "string \<Rightarrow> ('k, link) io"
  LinkAdd :: "link \<Rightarrow> ('k, link) io"
  LinkDel :: "link \<Rightarrow> ('k, unit) io"
  LinkSetUp :: "link \<Rightarrow> ('k, unit) io"
  LinkSetName :: "link \<Rightarrow> string \<Rightarrow> ('k, unit) io"
  FouAdd :: "fou \<Rightarrow> ('k, unit) io"
  RuleAdd :: "rule \<Rightarrow> ('k, unit) io"
  RuleDel :: "rule \<Rightarrow> ('k, unit) io"
  RuleList :: "family \<Rightarrow> ('k, rule list) io"
  RuleListFiltered :: "family \<Rightarrow> int \<Rightarrow> ('k, rule list) io"
  RouteAdd :: "route \<Rightarrow> ('k, unit) io"
  RouteDel :: "route \<Rightarrow> ('k, unit) io"
  RouteListFiltered :: "family \<Rightarrow> int \<Rightarrow> ('k, route list) io"
  ipt_NewWithProtocol :: "family \<Rightarrow> ('k, unit) io"
  ipt_Insert :: "family \<Rightarrow> string \<Rightarrow> string \<Rightarrow> int \<Rightarrow> string list \<Rightarrow> ('k, unit) io"
  ipt_Append :: "family \<Rightarrow> string \<Rightarrow> string \<Rightarrow> string list \<Rightarrow> ('k, unit) io"
  Sysctl :: "string \<Rightarrow> string \<Rightarrow> ('k, unit) io"
  EnableIP4Forward :: "('k, unit) io"
  EnableIP6Forward :: "('k, unit) io"
  exec_modprobe :: "string \<Rightarrow> ('k, unit) io"

text \<open>
  \<open>LinkAdd\<close> returns the link with the index the kernel chose written into its
  attributes; the sources use nothing of it but the attributes. The filtered lists take the table of the filter
  the sources pass (\<open>RT_FILTER_TABLE\<close>).
\<close>

section \<open>What the calls do\<close>

text \<open>
  The view. \<open>k_routes\<close> holds the routes of the tables the kernel does not fill by
  itself (not \<open>main\<close>, \<open>local\<close>, \<open>default\<close>), with the destination always present;
  \<open>k_rules\<close> holds the rules with a missing destination for "any".
\<close>

record kern =
  k_links :: "string \<Rightarrow> link option"
  k_up :: "int set"
  k_fous :: "fou set"
  k_rules :: "family \<Rightarrow> rule multiset"
  k_routes :: "family \<Rightarrow> route set"
  k_chains :: "family \<Rightarrow> string \<Rightarrow> string \<Rightarrow> string list list"
  k_sysctl :: "string \<Rightarrow> string option"
  k_forward :: "family set"
  k_modules :: "string set"

text \<open>Loading a tunnel module makes the kernel create a fallback device.\<close>

definition fallback_names :: "string set" where
  "fallback_names = {''tunl0'', ''ip6tnl0''}"

definition fallbacks_appear :: "kern \<Rightarrow> kern \<Rightarrow> bool" where
  "fallbacks_appear K K' \<longleftrightarrow>
     (\<exists>L. K' = K\<lparr>k_links := L\<rparr> \<and> (\<forall>n. L n = k_links K n \<or> (k_links K n = None \<and> n \<in> fallback_names)))"

definition rule_canon :: "rule \<Rightarrow> rule" where
  "rule_canon r = (if ru_Dst r = Some (default_net (ru_Family r)) then r\<lparr>ru_Dst := None\<rparr> else r)"

text \<open>How a route of the kernel shows in a list: a default route may lack its destination.\<close>

definition shown_as :: "family \<Rightarrow> route \<Rightarrow> route \<Rightarrow> bool" where
  "shown_as f r r' \<longleftrightarrow> r' = r \<or> (rt_Dst r = Some (default_net f) \<and> r' = r\<lparr>rt_Dst := None\<rparr>)"

definition route_family :: "route \<Rightarrow> family" where
  "route_family r = (case rt_Dst r of None \<Rightarrow> FAMILY_V4 | Some n \<Rightarrow> ip_family (n_IP n))"

text \<open>The kernel keeps one route for a table, destination and priority.\<close>

definition same_route_key :: "route \<Rightarrow> route \<Rightarrow> bool" where
  "same_route_key r r' \<longleftrightarrow> rt_Table r = rt_Table r' \<and> rt_Dst r = rt_Dst r' \<and> rt_Priority r = rt_Priority r'"

definition no_host_bits :: "net_ipnet \<Rightarrow> bool" where
  "no_host_bits n \<longleftrightarrow> length (n_IP n) = length (n_Mask n) \<and>
     list_all2 (\<lambda>a m. and a m = a) (n_IP n) (n_Mask n)"

text \<open>
  What the kernel stores for a route: the same table and, where they are given,
  device, protocol, priority and type; the destination as given when it has no host
  bits. A throw route has no device of its own: it shows none (IPv4) or the loopback
  device (IPv6), whose index is 1.
\<close>

definition RTN_THROW :: int where "RTN_THROW = 9"

definition stored_route :: "route \<Rightarrow> route \<Rightarrow> bool" where
  "stored_route r s \<longleftrightarrow>
     rt_Table s = rt_Table r \<and> rt_Dst s \<noteq> None \<and>
     (rt_LinkIndex r \<noteq> 0 \<longrightarrow> rt_LinkIndex s = rt_LinkIndex r) \<and>
     (rt_LinkIndex r = 0 \<and> rt_Type r = RTN_THROW \<longrightarrow> rt_LinkIndex s \<in> {0, 1}) \<and>
     (\<forall>n. rt_Dst r = Some n \<longrightarrow> no_host_bits n \<longrightarrow> rt_Dst s = Some n) \<and>
     (rt_Priority r \<noteq> 0 \<longrightarrow> rt_Priority s = rt_Priority r) \<and>
     (rt_Protocol r \<noteq> 0 \<longrightarrow> rt_Protocol s = rt_Protocol r) \<and>
     (rt_Type r \<noteq> 0 \<longrightarrow> rt_Type s = rt_Type r)"

text \<open>An error of a library is never a sentinel error of the repository.\<close>

definition foreign :: "err \<Rightarrow> bool" where
  "foreign e \<longleftrightarrow> \<not> errors_Is e ErrIPFamilyMismatch"

definition unchanged :: "err \<Rightarrow> kern \<Rightarrow> kern \<Rightarrow> bool" where
  "unchanged e K K' \<longleftrightarrow> foreign e \<and> K' = K"

definition spec_LinkByName :: "string \<Rightarrow> link \<Rightarrow> kern \<Rightarrow> kern \<Rightarrow> bool" where
  "spec_LinkByName n l K K' \<longleftrightarrow> K' = K \<and> k_links K n = Some l \<and> link_name l = n"

definition fail_LinkByName :: "string \<Rightarrow> err \<Rightarrow> kern \<Rightarrow> kern \<Rightarrow> bool" where
  "fail_LinkByName n e K K' \<longleftrightarrow> foreign e \<and> K' = K \<and> (errors_As_LinkNotFound e \<longrightarrow> k_links K n = None)"

text \<open>A new link gets an index that no link and no route uses.\<close>

definition fresh_index :: "kern \<Rightarrow> int \<Rightarrow> bool" where
  "fresh_index K i \<longleftrightarrow> i \<noteq> 0 \<and> (\<forall>n l. k_links K n = Some l \<longrightarrow> link_index l \<noteq> i) \<and>
     (\<forall>f r. r \<in> k_routes K f \<longrightarrow> rt_LinkIndex r \<noteq> i)"

text \<open>
  The end points that a link can carry: an \<open>Iptun\<close> has IPv4 addresses and an \<open>Ip6tnl\<close>
  IPv6 addresses, or none. What becomes of an end point of the other family is not
  documented, and nothing is said of it here: the library leaves it out.
\<close>

fun sendable :: "link \<Rightarrow> bool" where
  "sendable (Iptun _ t) \<longleftrightarrow> length (to_Remote t) \<in> {0, 4} \<and> length (to_Local t) \<in> {0, 4}"
| "sendable (Ip6tnl _ t) \<longleftrightarrow> length (to_Remote t) \<in> {0, 16} \<and> length (to_Local t) \<in> {0, 16}"
| "sendable _ \<longleftrightarrow> True"

fun with_ends :: "byte list \<Rightarrow> byte list \<Rightarrow> link \<Rightarrow> link" where
  "with_ends rem loc (Iptun a t) = Iptun a (t\<lparr>to_Remote := rem, to_Local := loc\<rparr>)"
| "with_ends rem loc (Ip6tnl a t) = Ip6tnl a (t\<lparr>to_Remote := rem, to_Local := loc\<rparr>)"
| "with_ends rem loc l = l"

lemma Attrs_with_ends [simp]: "Attrs (with_ends rem loc l) = Attrs l"
  by (cases l) auto

text \<open>The device that the kernel makes of a link: as asked for, with an index of its own.\<close>

definition kept_link :: "link \<Rightarrow> link \<Rightarrow> bool" where
  "kept_link l l' \<longleftrightarrow>
     (\<exists>i. let m = with_attrs ((Attrs l)\<lparr>la_Index := i\<rparr>) l in
      if sendable l then l' = m else \<exists>rem loc. l' = with_ends rem loc m)"

lemma kept_link_attrs: "kept_link l l' \<Longrightarrow> Attrs l' = (Attrs l)\<lparr>la_Index := link_index l'\<rparr>"
  by (auto simp: kept_link_def Let_def split: if_split_asm)

lemma kept_link_name: "kept_link l l' \<Longrightarrow> link_name l' = link_name l"
  by (auto simp: kept_link_def Let_def split: if_split_asm)

lemma kept_link_kind: "kept_link l l' \<Longrightarrow> is_Iptun l' = is_Iptun l \<and> is_Ip6tnl l' = is_Ip6tnl l"
  by (cases l) (auto simp: kept_link_def Let_def split: if_split_asm)

definition spec_LinkAdd :: "link \<Rightarrow> link \<Rightarrow> kern \<Rightarrow> kern \<Rightarrow> bool" where
  "spec_LinkAdd l l' K K' \<longleftrightarrow>
     k_links K (link_name l) = None \<and> kept_link l l' \<and>
     fresh_index K (link_index l') \<and>
     (\<exists>M. fallbacks_appear K M \<and> k_links M (link_name l) = None \<and>
          K' = M\<lparr>k_links := (k_links M)(link_name l \<mapsto> l')\<rparr>)"

definition fail_LinkAdd :: "err \<Rightarrow> kern \<Rightarrow> kern \<Rightarrow> bool" where
  "fail_LinkAdd e K K' \<longleftrightarrow> foreign e \<and> fallbacks_appear K K'"

text \<open>Removing a device removes the routes through it.\<close>

definition spec_LinkDel :: "link \<Rightarrow> unit \<Rightarrow> kern \<Rightarrow> kern \<Rightarrow> bool" where
  "spec_LinkDel l u K K' \<longleftrightarrow>
     K' = K\<lparr>k_links := (k_links K)(link_name l := None),
            k_routes := (\<lambda>f. {r \<in> k_routes K f. rt_LinkIndex r \<noteq> link_index l})\<rparr>"

definition spec_LinkSetUp :: "link \<Rightarrow> unit \<Rightarrow> kern \<Rightarrow> kern \<Rightarrow> bool" where
  "spec_LinkSetUp l u K K' \<longleftrightarrow> K' = K\<lparr>k_up := insert (link_index l) (k_up K)\<rparr>"

definition spec_LinkSetName :: "link \<Rightarrow> string \<Rightarrow> unit \<Rightarrow> kern \<Rightarrow> kern \<Rightarrow> bool" where
  "spec_LinkSetName l n u K K' \<longleftrightarrow>
     k_links K n = None \<and>
     K' = K\<lparr>k_links := (k_links K)(link_name l := None, n \<mapsto> with_attrs ((Attrs l)\<lparr>la_Name := n\<rparr>) l)\<rparr>"

text \<open>The message to the kernel has 16 bits for the port of a listener: \<open>uint16(f.Port)\<close>.\<close>

definition fou_wire :: "fou \<Rightarrow> fou" where
  "fou_wire x = x\<lparr>fou_Port := uint (word_of_int (fou_Port x) :: 16 word)\<rparr>"

definition spec_FouAdd :: "fou \<Rightarrow> unit \<Rightarrow> kern \<Rightarrow> kern \<Rightarrow> bool" where
  "spec_FouAdd x u K K' \<longleftrightarrow> K' = K\<lparr>k_fous := insert (fou_wire x) (k_fous K)\<rparr>"

definition spec_RuleAdd :: "rule \<Rightarrow> unit \<Rightarrow> kern \<Rightarrow> kern \<Rightarrow> bool" where
  "spec_RuleAdd r u K K' \<longleftrightarrow>
     K' = K\<lparr>k_rules := (k_rules K)(ru_Family r := add_mset (rule_canon r) (k_rules K (ru_Family r)))\<rparr>"

text \<open>The laws of deletion speak of a rule or route that is there.\<close>

definition spec_RuleDel :: "rule \<Rightarrow> unit \<Rightarrow> kern \<Rightarrow> kern \<Rightarrow> bool" where
  "spec_RuleDel r u K K' \<longleftrightarrow>
     (rule_canon r \<in># k_rules K (ru_Family r) \<longrightarrow>
      K' = K\<lparr>k_rules := (k_rules K)(ru_Family r := k_rules K (ru_Family r) - {#rule_canon r#})\<rparr>)"

definition spec_RuleList :: "family \<Rightarrow> rule list \<Rightarrow> kern \<Rightarrow> kern \<Rightarrow> bool" where
  "spec_RuleList f rs K K' \<longleftrightarrow>
     K' = K \<and> mset (map rule_canon rs) = k_rules K f \<and> (\<forall>r\<in>set rs. ru_Family r = f)"

definition spec_RuleListFiltered :: "family \<Rightarrow> int \<Rightarrow> rule list \<Rightarrow> kern \<Rightarrow> kern \<Rightarrow> bool" where
  "spec_RuleListFiltered f t rs K K' \<longleftrightarrow>
     K' = K \<and> mset (map rule_canon rs) = filter_mset (\<lambda>r. ru_Table r = t) (k_rules K f)"

definition spec_RouteAdd :: "route \<Rightarrow> unit \<Rightarrow> kern \<Rightarrow> kern \<Rightarrow> bool" where
  "spec_RouteAdd r u K K' \<longleftrightarrow>
     (\<exists>s. stored_route r s \<and> (\<forall>q\<in>k_routes K (route_family r). \<not> same_route_key q s) \<and>
          K' = K\<lparr>k_routes := (k_routes K)(route_family r := insert s (k_routes K (route_family r)))\<rparr>)"

definition spec_RouteDel :: "route \<Rightarrow> unit \<Rightarrow> kern \<Rightarrow> kern \<Rightarrow> bool" where
  "spec_RouteDel r u K K' \<longleftrightarrow>
     (r \<in> k_routes K (route_family r) \<longrightarrow>
      K' = K\<lparr>k_routes := (k_routes K)(route_family r := k_routes K (route_family r) - {r})\<rparr>)"

definition spec_RouteListFiltered :: "family \<Rightarrow> int \<Rightarrow> route list \<Rightarrow> kern \<Rightarrow> kern \<Rightarrow> bool" where
  "spec_RouteListFiltered f t rs K K' \<longleftrightarrow>
     K' = K \<and> (\<exists>ls. distinct ls \<and> set ls = {r \<in> k_routes K f. rt_Table r = t} \<and> list_all2 (shown_as f) ls rs)"

definition spec_none :: "unit \<Rightarrow> kern \<Rightarrow> kern \<Rightarrow> bool" where
  "spec_none u K K' \<longleftrightarrow> K' = K"

definition set_chain :: "family \<Rightarrow> string \<Rightarrow> string \<Rightarrow> string list list \<Rightarrow> kern \<Rightarrow> kern" where
  "set_chain f t c rules K =
     K\<lparr>k_chains := (\<lambda>f' t' c'. if f' = f \<and> t' = t \<and> c' = c then rules else k_chains K f' t' c')\<rparr>"

text \<open>\<open>Insert\<close> is only called with position 1: the front of the chain.\<close>

definition spec_ipt_Insert :: "family \<Rightarrow> string \<Rightarrow> string \<Rightarrow> string list \<Rightarrow> unit \<Rightarrow> kern \<Rightarrow> kern \<Rightarrow> bool" where
  "spec_ipt_Insert f t c spec u K K' \<longleftrightarrow> K' = set_chain f t c (spec # k_chains K f t c) K"

definition spec_ipt_Append :: "family \<Rightarrow> string \<Rightarrow> string \<Rightarrow> string list \<Rightarrow> unit \<Rightarrow> kern \<Rightarrow> kern \<Rightarrow> bool" where
  "spec_ipt_Append f t c spec u K K' \<longleftrightarrow> K' = set_chain f t c (k_chains K f t c @ [spec]) K"

definition spec_Sysctl :: "string \<Rightarrow> string \<Rightarrow> unit \<Rightarrow> kern \<Rightarrow> kern \<Rightarrow> bool" where
  "spec_Sysctl n v u K K' \<longleftrightarrow> K' = K\<lparr>k_sysctl := (k_sysctl K)(n \<mapsto> v)\<rparr>"

definition spec_EnableForward :: "family \<Rightarrow> unit \<Rightarrow> kern \<Rightarrow> kern \<Rightarrow> bool" where
  "spec_EnableForward f u K K' \<longleftrightarrow> K' = K\<lparr>k_forward := insert f (k_forward K)\<rparr>"

definition spec_modprobe :: "string \<Rightarrow> unit \<Rightarrow> kern \<Rightarrow> kern \<Rightarrow> bool" where
  "spec_modprobe m u K K' \<longleftrightarrow> K' = K\<lparr>k_modules := insert m (k_modules K)\<rparr>"

section \<open>The interface\<close>

locale host_laws =
  fixes h :: "'k host" and good :: "'k \<Rightarrow> bool" and view :: "'k \<Rightarrow> kern"
  assumes LinkByName: "meets good view (LinkByName h n) (spec_LinkByName n) (fail_LinkByName n)"
    and LinkAdd: "meets good view (LinkAdd h l) (spec_LinkAdd l) fail_LinkAdd"
    and LinkDel: "meets good view (LinkDel h l) (spec_LinkDel l) unchanged"
    and LinkSetUp: "meets good view (LinkSetUp h l) (spec_LinkSetUp l) unchanged"
    and LinkSetName: "meets good view (LinkSetName h l n) (spec_LinkSetName l n) unchanged"
    and FouAdd: "meets good view (FouAdd h x) (spec_FouAdd x) unchanged"
    and RuleAdd: "meets good view (RuleAdd h r) (spec_RuleAdd r) unchanged"
    and RuleDel: "meets good view (RuleDel h r) (spec_RuleDel r) unchanged"
    and RuleList: "meets good view (RuleList h f) (spec_RuleList f) unchanged"
    and RuleListFiltered: "meets good view (RuleListFiltered h f t) (spec_RuleListFiltered f t) unchanged"
    and RouteAdd: "meets good view (RouteAdd h rt) (spec_RouteAdd rt) unchanged"
    and RouteDel: "meets good view (RouteDel h rt) (spec_RouteDel rt) unchanged"
    and RouteListFiltered: "meets good view (RouteListFiltered h f t) (spec_RouteListFiltered f t) unchanged"
    and ipt_New: "meets good view (ipt_NewWithProtocol h f) spec_none unchanged"
    and ipt_Insert: "meets good view (ipt_Insert h f tb c 1 spec) (spec_ipt_Insert f tb c spec) unchanged"
    and ipt_Append: "meets good view (ipt_Append h f tb c spec) (spec_ipt_Append f tb c spec) unchanged"
    and Sysctl: "meets good view (Sysctl h n v) (spec_Sysctl n v) unchanged"
    and EnableIP4Forward: "meets good view (EnableIP4Forward h) (spec_EnableForward FAMILY_V4) unchanged"
    and EnableIP6Forward: "meets good view (EnableIP6Forward h) (spec_EnableForward FAMILY_V6) unchanged"
    and modprobe: "meets good view (exec_modprobe h m) (spec_modprobe m) unchanged"

section \<open>Composing effects\<close>

lemma foreign_simps [simp]:
  "foreign (Errorw s e) \<longleftrightarrow> foreign e" "foreign (Errorf s)" "foreign (LibErr s)" "foreign LinkNotFoundError"
  by (auto simp: foreign_def)

text \<open>
  \<open>within good view R m\<close>: from a good state, every run of \<open>m\<close> leaves a good state,
  changes the view only as \<open>R\<close> allows, and fails only with a foreign error. For a
  reflexive and transitive \<open>R\<close> this is closed under the program constructs.
\<close>

definition within :: "('k \<Rightarrow> bool) \<Rightarrow> ('k \<Rightarrow> kern) \<Rightarrow> (kern \<Rightarrow> kern \<Rightarrow> bool) \<Rightarrow> ('k, 'a) io \<Rightarrow> bool" where
  "within good view R m \<longleftrightarrow> meets good view m (\<lambda>_. R) (\<lambda>e K K'. foreign e \<and> R K K')"

lemma within_run:
  assumes "within good view R m" "m k = (r, k')" "good k"
  shows "good k' \<and> R (view k) (view k') \<and> (\<forall>e. r = Inl e \<longrightarrow> foreign e)"
  using meets_run[OF assms(1)[unfolded within_def] assms(2,3)] by (auto split: sum.splits)

lemma withinI:
  assumes "\<And>k r k'. good k \<Longrightarrow> m k = (r, k') \<Longrightarrow> good k' \<and> R (view k) (view k') \<and> (\<forall>e. r = Inl e \<longrightarrow> foreign e)"
  shows "within good view R m"
  unfolding within_def by (rule meetsI) (use assms in blast)+

lemma within_ret [simp, intro]: "reflp R \<Longrightarrow> within good view R (ret x)"
  by (rule withinI) (auto simp: reflp_def)

lemma within_throw [intro]: "reflp R \<Longrightarrow> foreign e \<Longrightarrow> within good view R (throw e)"
  by (rule withinI) (auto simp: reflp_def)

lemma within_bind [intro]:
  assumes "transp R" and m: "within good view R m" and f: "\<And>x. within good view R (f x)"
  shows "within good view R (bind_io m f)"
proof (rule withinI)
  fix k r k'
  assume g: "good k" and c: "bind_io m f k = (r, k')"
  from c show "good k' \<and> R (view k) (view k') \<and> (\<forall>e. r = Inl e \<longrightarrow> foreign e)"
  proof (cases rule: bind_io_state)
    case (err e)
    with within_run[OF m err(1) g] show ?thesis by simp
  next
    case (ok x t)
    from within_run[OF m ok(1) g] have t: "good t" "R (view k) (view t)" by auto
    from within_run[OF f ok(2) t(1)] t(2) assms(1) show ?thesis by (meson transpD)
  qed
qed

lemma within_on_err [intro]:
  assumes m: "within good view R m" and g: "\<And>e. foreign e \<Longrightarrow> foreign (g e)"
  shows "within good view R (on_err g m)"
proof (rule withinI)
  fix k r k'
  assume k: "good k" and c: "on_err g m k = (r, k')"
  from c show "good k' \<and> R (view k) (view k') \<and> (\<forall>e. r = Inl e \<longrightarrow> foreign e)"
    by (cases rule: on_err_state) (use within_run[OF m _ k] g in force)+
qed

text \<open>What follows a call may use what the call's law says of its result.\<close>

lemma within_catch_spec:
  assumes "transp R" and m: "within good view R m" and S: "meets good view m S F"
    and f: "\<And>x K K'. S x K K' \<Longrightarrow> within good view R (f (Inr x))"
    and e: "\<And>e. foreign e \<Longrightarrow> within good view R (f (Inl e))"
  shows "within good view R (catch m f)"
proof (rule withinI)
  fix k r k'
  assume g: "good k" and "catch m f k = (r, k')"
  then obtain q t where q: "m k = (q, t)" and r: "f q t = (r, k')" by (auto simp: catch_eq)
  from within_run[OF m q g] have t: "good t" "R (view k) (view t)" and fe: "\<forall>e. q = Inl e \<longrightarrow> foreign e" by auto
  have "within good view R (f q)"
  proof (cases q)
    case (Inl x)
    with e fe show ?thesis by simp
  next
    case (Inr x)
    with f meets_Inr[OF S q[unfolded Inr] g] show ?thesis by blast
  qed
  from within_run[OF this r t(1)] t(2) assms(1) show "good k' \<and> R (view k) (view k') \<and> (\<forall>e. r = Inl e \<longrightarrow> foreign e)"
    by (meson transpD)
qed

lemma within_catch [intro]:
  assumes "transp R" and m: "within good view R m" and f: "\<And>x. within good view R (f (Inr x))"
    and e: "\<And>e. foreign e \<Longrightarrow> within good view R (f (Inl e))"
  shows "within good view R (catch m f)"
  using assms(1) m m[unfolded within_def] f e by (rule within_catch_spec)

lemma within_for_each [intro]:
  "reflp R \<Longrightarrow> transp R \<Longrightarrow> (\<And>x. x \<in> set xs \<Longrightarrow> within good view R (f x)) \<Longrightarrow> within good view R (for_each f xs)"
  by (induction xs) auto

lemma meets_within:
  assumes "meets good view m S F" "\<And>x K K'. S x K K' \<Longrightarrow> R K K'" "\<And>e K K'. F e K K' \<Longrightarrow> foreign e \<and> R K K'"
  shows "within good view R m"
  unfolding within_def using assms
  by (intro meetsI) (blast dest: meets_Inr meets_Inl)+

end
