(* ===== verification/Tunnel.thy ===== *)
theory Tunnel
  imports Host
begin

text \<open>
  Package \<open>tunnel\<close> (\<open>pkg/tunnel/tunnel.go\<close>) and the interface \<open>nat.Gateway\<close> of
  \<open>pkg/nat/gateway.go\<close>: the two Go interfaces through which the pod watcher acts on
  the network. An interface value is a record of its methods over the state \<open>'w\<close>
  behind it; what a client may rely on is a locale. \<open>AddPeer\<close> and \<open>DelPeer\<close> act on
  a set of peers, but two addresses may share one tunnel device: \<open>clash\<close> says when.
\<close>

section \<open>The interfaces\<close>

record 'w tunnel_controller =
  tun_Init :: "('w, unit) io"
  tun_IsInitialized :: "('w, bool) io"
  tun_AddPeer :: "addr \<Rightarrow> ('w, link) io"
  tun_DelPeer :: "addr \<Rightarrow> ('w, unit) io"

record 'w nat_gateway =
  gw_Init :: "('w, unit) io"
  gw_AddClient :: "addr \<Rightarrow> link \<Rightarrow> ('w, unit) io"

section \<open>Contracts\<close>

locale tunnel_laws =
  fixes tun :: "'w tunnel_controller"
    and ok :: "'w \<Rightarrow> bool"
    and has_peer :: "'w \<Rightarrow> addr \<Rightarrow> bool"
    and supports :: "addr \<Rightarrow> bool"
    and clash :: "addr \<Rightarrow> addr \<Rightarrow> bool"
  assumes add_ok: "ok w \<Longrightarrow> tun_AddPeer tun a w = (r, w') \<Longrightarrow> ok w'"
    and add_has: "ok w \<Longrightarrow> tun_AddPeer tun a w = (Inr l, w') \<Longrightarrow> has_peer w' a \<and> supports a"
    and add_mono: "ok w \<Longrightarrow> tun_AddPeer tun a w = (r, w') \<Longrightarrow> has_peer w b \<Longrightarrow> has_peer w' b"
    and add_only: "ok w \<Longrightarrow> tun_AddPeer tun a w = (r, w') \<Longrightarrow> has_peer w' b \<Longrightarrow> has_peer w b \<or> (clash a b \<and> supports a)"
    and add_mismatch: "ok w \<Longrightarrow> tun_AddPeer tun a w = (Inl e, w') \<Longrightarrow> errors_Is e ErrIPFamilyMismatch \<Longrightarrow>
      \<not> supports a \<and> w' = w"
    and del_ok: "ok w \<Longrightarrow> tun_DelPeer tun a w = (q, w') \<Longrightarrow> ok w'"
    and del_gone: "ok w \<Longrightarrow> tun_DelPeer tun a w = (Inr u, w') \<Longrightarrow> \<not> has_peer w' a"
    and del_frame: "ok w \<Longrightarrow> tun_DelPeer tun a w = (q, w') \<Longrightarrow> \<not> clash a b \<Longrightarrow> has_peer w' b = has_peer w b"
    and del_fail: "ok w \<Longrightarrow> tun_DelPeer tun a w = (Inl e, w') \<Longrightarrow> has_peer w' b = has_peer w b"
    and clash_refl: "clash a a"
    and clash_peer: "ok w \<Longrightarrow> clash a b \<Longrightarrow> has_peer w a = has_peer w b"

text \<open>
  A gateway keeps the tunnels as they are; a client it has accepted stays accepted
  until the tunnel goes. \<open>routable\<close> says for which addresses the gateway installs a
  host route.
\<close>

locale gateway_laws =
  fixes gw :: "'w nat_gateway"
    and ok :: "'w \<Rightarrow> bool"
    and has_peer :: "'w \<Rightarrow> addr \<Rightarrow> bool"
    and routable :: "addr \<Rightarrow> bool"
    and has_client :: "'w \<Rightarrow> addr \<Rightarrow> bool"
  assumes client_ok: "ok w \<Longrightarrow> gw_AddClient gw a l w = (q, w') \<Longrightarrow> ok w'"
    and client_has: "ok w \<Longrightarrow> routable a \<Longrightarrow> gw_AddClient gw a l w = (Inr u, w') \<Longrightarrow> has_client w' a"
    and client_mono: "ok w \<Longrightarrow> gw_AddClient gw a l w = (q, w') \<Longrightarrow> has_client w b \<Longrightarrow> has_client w' b"
    and client_peers: "ok w \<Longrightarrow> gw_AddClient gw a l w = (q, w') \<Longrightarrow> has_peer w' b = has_peer w b"

text \<open>Both interfaces over one world: adding a peer leaves the clients alone.\<close>

locale gateway_net = tunnel_laws tun ok has_peer supports clash + gateway_laws gw ok has_peer routable has_client
  for tun :: "'w tunnel_controller" and gw :: "'w nat_gateway"
    and ok has_peer supports clash routable has_client +
  assumes add_clients: "ok w \<Longrightarrow> tun_AddPeer tun a w = (r, w') \<Longrightarrow> has_client w b \<Longrightarrow> has_client w' b"

end
