(* ===== verification/Sha1.thy ===== *)
theory Sha1
  imports GoNet
begin

text \<open>
  \<open>crypto/sha1\<close>: \<open>sha1.Sum\<close> on a byte list, from which IPv6 peers get their link
  names. FIPS 180-4, with 32-bit words.
\<close>

unbundle bit_operations_syntax

section \<open>Padding and blocks\<close>

definition sha1_pad :: "byte list \<Rightarrow> byte list" where
  "sha1_pad bs =
     bs @ [0x80] @ replicate ((119 - length bs mod 64) mod 64) 0
        @ word_bytes 8 (of_nat (8 * length bs) :: 64 word)"

fun chunks :: "nat \<Rightarrow> nat \<Rightarrow> 'a list \<Rightarrow> 'a list list" where
  "chunks 0 n xs = []"
| "chunks (Suc k) n xs = take n xs # chunks k n (drop n xs)"

definition block_words :: "byte list \<Rightarrow> 32 word list" where
  "block_words b = map bytes_word (chunks 16 4 b)"

section \<open>Compression\<close>

definition schedule_next :: "32 word list \<Rightarrow> 32 word list" where
  "schedule_next ws =
     (let n = length ws in
      ws @ [word_rotl 1 (ws ! (n - 3) XOR ws ! (n - 8) XOR ws ! (n - 14) XOR ws ! (n - 16))])"

definition schedule :: "32 word list \<Rightarrow> 32 word list" where
  "schedule ws = (schedule_next ^^ 64) ws"

type_synonym sha1_state = "32 word \<times> 32 word \<times> 32 word \<times> 32 word \<times> 32 word"

definition sha1_f :: "nat \<Rightarrow> 32 word \<Rightarrow> 32 word \<Rightarrow> 32 word \<Rightarrow> 32 word" where
  "sha1_f t b c d =
     (if t < 20 then (b AND c) OR (NOT b AND d)
      else if t < 40 then b XOR c XOR d
      else if t < 60 then (b AND c) OR (b AND d) OR (c AND d)
      else b XOR c XOR d)"

definition sha1_k :: "nat \<Rightarrow> 32 word" where
  "sha1_k t =
     (if t < 20 then 0x5A827999 else if t < 40 then 0x6ED9EBA1
      else if t < 60 then 0x8F1BBCDC else 0xCA62C1D6)"

fun sha1_step :: "nat \<times> 32 word \<Rightarrow> sha1_state \<Rightarrow> sha1_state" where
  "sha1_step (t, w) (a, b, c, d, e) =
     (word_rotl 5 a + sha1_f t b c d + e + w + sha1_k t, a, word_rotl 30 b, c, d)"

fun add_state :: "sha1_state \<Rightarrow> sha1_state \<Rightarrow> sha1_state" where
  "add_state (a, b, c, d, e) (a', b', c', d', e') = (a + a', b + b', c + c', d + d', e + e')"

definition sha1_block :: "byte list \<Rightarrow> sha1_state \<Rightarrow> sha1_state" where
  "sha1_block blk h = add_state h (fold sha1_step (enumerate 0 (schedule (block_words blk))) h)"

definition sha1_init :: sha1_state where
  "sha1_init = (0x67452301, 0xEFCDAB89, 0x98BADCFE, 0x10325476, 0xC3D2E1F0)"

definition sha1_Sum :: "byte list \<Rightarrow> byte list" where
  "sha1_Sum bs =
     (let p = sha1_pad bs in
      case fold sha1_block (chunks (length p div 64) 64 p) sha1_init of
        (a, b, c, d, e) \<Rightarrow> word_bytes 4 a @ word_bytes 4 b @ word_bytes 4 c @ word_bytes 4 d @ word_bytes 4 e)"

lemma length_sha1_Sum [simp]: "length (sha1_Sum bs) = 20"
  by (auto simp: sha1_Sum_def Let_def split: prod.splits)

lemma length_sha1_pad: "64 dvd length (sha1_pad bs)"
proof -
  define m where "m = length bs mod 64"
  have m: "m < 64" by (simp add: m_def)
  have pad: "(119 - m) mod 64 = (if m \<le> 55 then 55 - m else 119 - m)"
  proof (cases "m \<le> 55")
    case True
    then have "119 - m = (55 - m) + 64" by simp
    then have "(119 - m) mod 64 = (55 - m) mod 64" by (simp only: mod_add_self2)
    with True show ?thesis by simp
  qed (use m in auto)
  have "length bs = 64 * (length bs div 64) + m" by (simp add: m_def)
  then have "length (sha1_pad bs) = 64 * (length bs div 64) + (m + 9 + (119 - m) mod 64)"
    by (simp add: sha1_pad_def flip: m_def)
  also have "m + 9 + (119 - m) mod 64 = (if m \<le> 55 then 64 else 128)"
    using pad m by auto
  finally show ?thesis by (auto split: if_splits)
qed

end
