(* ===== verification/HostSim.thy ===== *)
theory HostSim
  imports Host
begin

text \<open>
  A concrete network namespace that satisfies \<open>host_laws\<close>: links, rules and routes
  as lists, with the refusals of the kernel that the laws mention (a name in use, a
  route that is already there, a device that does not exist, a destination with host
  bits). Witnesses run the model of the sources on it.
\<close>

section \<open>State\<close>

record sim =
  s_links :: "link list"
  s_next :: int
  s_up :: "int list"
  s_fous :: "fou list"
  s_rules :: "rule list"
  s_routes :: "(family \<times> route) list"
  s_chains :: "((family \<times> string \<times> string) \<times> string list list) list"
  s_sysctl :: "(string \<times> string) list"
  s_forward :: "family list"
  s_modules :: "string list"

definition sim_empty :: sim where
  "sim_empty = \<lparr>s_links = [], s_next = 2, s_up = [], s_fous = [], s_rules = [], s_routes = [],
     s_chains = [], s_sysctl = [], s_forward = [], s_modules = []\<rparr>"

definition sim_find :: "string \<Rightarrow> link list \<Rightarrow> link option" where
  "sim_find n ls = find (\<lambda>l. link_name l = n) ls"

definition sim_chain :: "sim \<Rightarrow> family \<times> string \<times> string \<Rightarrow> string list list" where
  "sim_chain s key = (case map_of (s_chains s) key of None \<Rightarrow> [] | Some rs \<Rightarrow> rs)"

definition sim_view :: "sim \<Rightarrow> kern" where
  "sim_view s =
     \<lparr>k_links = (\<lambda>n. sim_find n (s_links s)), k_up = set (s_up s), k_fous = set (s_fous s),
      k_rules = (\<lambda>f. mset (filter (\<lambda>r. ru_Family r = f) (s_rules s))),
      k_routes = (\<lambda>f. {r. (f, r) \<in> set (s_routes s)}),
      k_chains = (\<lambda>f t c. sim_chain s (f, t, c)), k_sysctl = map_of (s_sysctl s),
      k_forward = set (s_forward s), k_modules = set (s_modules s)\<rparr>"

definition sim_good :: "sim \<Rightarrow> bool" where
  "sim_good s \<longleftrightarrow>
     distinct (map link_name (s_links s)) \<and> 0 < s_next s \<and>
     (\<forall>l\<in>set (s_links s). link_index l < s_next s) \<and>
     (\<forall>(f, r)\<in>set (s_routes s). rt_LinkIndex r < s_next s) \<and>
     distinct (s_routes s) \<and> (\<forall>r\<in>set (s_rules s). rule_canon r = r)"

section \<open>Calls\<close>

definition sim_LinkByName :: "string \<Rightarrow> (sim, link) io" where
  "sim_LinkByName n s =
     (case sim_find n (s_links s) of None \<Rightarrow> (Inl LinkNotFoundError, s) | Some l \<Rightarrow> (Inr l, s))"

text \<open>End points that do not fit the kind of the link are left out.\<close>

definition sim_device :: "int \<Rightarrow> link \<Rightarrow> link" where
  "sim_device i l =
     (let m = with_attrs ((Attrs l)\<lparr>la_Index := i\<rparr>) l in if sendable l then m else with_ends [] [] m)"

definition sim_LinkAdd :: "link \<Rightarrow> (sim, link) io" where
  "sim_LinkAdd l s =
     (if sim_find (link_name l) (s_links s) \<noteq> None then (Inl (LibErr ''file exists''), s)
      else let l' = sim_device (s_next s) l in
        (Inr l', s\<lparr>s_links := s_links s @ [l'], s_next := s_next s + 1\<rparr>))"

definition sim_LinkDel :: "link \<Rightarrow> (sim, unit) io" where
  "sim_LinkDel l s =
     (if l \<in> set (s_links s) then
        (Inr (), s\<lparr>s_links := filter (\<lambda>x. link_name x \<noteq> link_name l) (s_links s),
                   s_routes := filter (\<lambda>(f, r). rt_LinkIndex r \<noteq> link_index l) (s_routes s)\<rparr>)
      else (Inl (LibErr ''no such device''), s))"

definition sim_LinkSetUp :: "link \<Rightarrow> (sim, unit) io" where
  "sim_LinkSetUp l s =
     (if l \<in> set (s_links s) then (Inr (), s\<lparr>s_up := link_index l # s_up s\<rparr>)
      else (Inl (LibErr ''no such device''), s))"

definition sim_LinkSetName :: "link \<Rightarrow> string \<Rightarrow> (sim, unit) io" where
  "sim_LinkSetName l n s =
     (if l \<notin> set (s_links s) then (Inl (LibErr ''no such device''), s)
      else if sim_find n (s_links s) \<noteq> None then (Inl (LibErr ''file exists''), s)
      else (Inr (), s\<lparr>s_links := filter (\<lambda>x. link_name x \<noteq> link_name l) (s_links s)
              @ [with_attrs ((Attrs l)\<lparr>la_Name := n\<rparr>) l]\<rparr>))"

definition sim_FouAdd :: "fou \<Rightarrow> (sim, unit) io" where
  "sim_FouAdd x s =
     (if fou_wire x \<in> set (s_fous s) then (Inl (LibErr ''address already in use''), s)
      else (Inr (), s\<lparr>s_fous := fou_wire x # s_fous s\<rparr>))"

definition sim_RuleAdd :: "rule \<Rightarrow> (sim, unit) io" where
  "sim_RuleAdd r s =
     (if rule_canon r \<in> set (s_rules s) then (Inl (LibErr ''file exists''), s)
      else (Inr (), s\<lparr>s_rules := s_rules s @ [rule_canon r]\<rparr>))"

definition sim_RuleDel :: "rule \<Rightarrow> (sim, unit) io" where
  "sim_RuleDel r s =
     (if rule_canon r \<in> set (s_rules s) then (Inr (), s\<lparr>s_rules := remove1 (rule_canon r) (s_rules s)\<rparr>)
      else (Inl (LibErr ''no such file or directory''), s))"

definition sim_RuleList :: "family \<Rightarrow> (sim, rule list) io" where
  "sim_RuleList f s = (Inr (filter (\<lambda>r. ru_Family r = f) (s_rules s)), s)"

definition sim_RuleListFiltered :: "family \<Rightarrow> int \<Rightarrow> (sim, rule list) io" where
  "sim_RuleListFiltered f t s =
     (Inr (filter (\<lambda>r. ru_Table r = t) (filter (\<lambda>r. ru_Family r = f) (s_rules s))), s)"

definition sim_stored :: "route \<Rightarrow> route" where
  "sim_stored r =
     r\<lparr>rt_Dst := (case rt_Dst r of None \<Rightarrow> Some (default_net FAMILY_V4) | Some n \<Rightarrow> Some n),
       rt_Type := (if rt_Type r = 0 then 1 else rt_Type r)\<rparr>"

definition sim_RouteAdd :: "route \<Rightarrow> (sim, unit) io" where
  "sim_RouteAdd r s =
     (let f = route_family r; x = sim_stored r in
      if \<not> no_host_bits (the (rt_Dst x)) then (Inl (LibErr ''invalid argument''), s)
      else if rt_LinkIndex r \<noteq> 0 \<and> (\<forall>l\<in>set (s_links s). link_index l \<noteq> rt_LinkIndex r) then
        (Inl (LibErr ''no such device''), s)
      else if \<exists>(g, q)\<in>set (s_routes s). g = f \<and> same_route_key q x then (Inl (LibErr ''file exists''), s)
      else (Inr (), s\<lparr>s_routes := s_routes s @ [(f, x)]\<rparr>))"

definition sim_RouteDel :: "route \<Rightarrow> (sim, unit) io" where
  "sim_RouteDel r s =
     (if (route_family r, r) \<in> set (s_routes s) then
        (Inr (), s\<lparr>s_routes := remove1 (route_family r, r) (s_routes s)\<rparr>)
      else (Inl (LibErr ''no such process''), s))"

definition sim_RouteListFiltered :: "family \<Rightarrow> int \<Rightarrow> (sim, route list) io" where
  "sim_RouteListFiltered f t s =
     (Inr (map snd (filter (\<lambda>(g, r). g = f \<and> rt_Table r = t) (s_routes s))), s)"

definition sim_set_chain :: "family \<Rightarrow> string \<Rightarrow> string \<Rightarrow> string list list \<Rightarrow> sim \<Rightarrow> sim" where
  "sim_set_chain f t c rs s = s\<lparr>s_chains := ((f, t, c), rs) # s_chains s\<rparr>"

definition sim_host :: "sim host" where
  "sim_host =
     \<lparr>LinkByName = sim_LinkByName, LinkAdd = sim_LinkAdd, LinkDel = sim_LinkDel,
      LinkSetUp = sim_LinkSetUp, LinkSetName = sim_LinkSetName, FouAdd = sim_FouAdd,
      RuleAdd = sim_RuleAdd, RuleDel = sim_RuleDel, RuleList = sim_RuleList,
      RuleListFiltered = sim_RuleListFiltered, RouteAdd = sim_RouteAdd, RouteDel = sim_RouteDel,
      RouteListFiltered = sim_RouteListFiltered,
      ipt_NewWithProtocol = (\<lambda>f s. (Inr (), s)),
      ipt_Insert = (\<lambda>f t c i spec s. (Inr (), sim_set_chain f t c (spec # sim_chain s (f, t, c)) s)),
      ipt_Append = (\<lambda>f t c spec s. (Inr (), sim_set_chain f t c (sim_chain s (f, t, c) @ [spec]) s)),
      Sysctl = (\<lambda>n v s. (Inr (), s\<lparr>s_sysctl := (n, v) # s_sysctl s\<rparr>)),
      EnableIP4Forward = (\<lambda>s. (Inr (), s\<lparr>s_forward := FAMILY_V4 # s_forward s\<rparr>)),
      EnableIP6Forward = (\<lambda>s. (Inr (), s\<lparr>s_forward := FAMILY_V6 # s_forward s\<rparr>)),
      exec_modprobe = (\<lambda>m s. (Inr (), s\<lparr>s_modules := m # s_modules s\<rparr>))\<rparr>"

section \<open>The laws hold\<close>

lemma sim_find_Some: "sim_find n ls = Some l \<Longrightarrow> l \<in> set ls \<and> link_name l = n"
  by (auto simp: sim_find_def find_Some_iff)

lemma sim_find_None: "sim_find n ls = None \<longleftrightarrow> (\<forall>l\<in>set ls. link_name l \<noteq> n)"
  by (auto simp: sim_find_def find_None_iff)

lemma sim_find_append: "sim_find n (xs @ ys) = (case sim_find n xs of None \<Rightarrow> sim_find n ys | Some l \<Rightarrow> Some l)"
  by (induction xs) (auto simp: sim_find_def)

lemma sim_find_single [simp]: "sim_find n [l] = (if link_name l = n then Some l else None)"
  by (simp add: sim_find_def)

lemma sim_find_filter:
  "sim_find n (filter (\<lambda>x. link_name x \<noteq> m) ls) = (if n = m then None else sim_find n ls)"
  by (induction ls) (auto simp: sim_find_def)

lemma sim_find_member: "distinct (map link_name ls) \<Longrightarrow> l \<in> set ls \<Longrightarrow> sim_find (link_name l) ls = Some l"
  by (induction ls) (auto simp: sim_find_def image_iff)

lemma distinct_map_filter: "distinct (map f xs) \<Longrightarrow> distinct (map f (filter P xs))"
  by (induction xs) auto

lemma fallbacks_appear_refl [simp]: "fallbacks_appear K K"
  unfolding fallbacks_appear_def by (rule exI[of _ "k_links K"]) simp

lemmas sim_defs = sim_view_def sim_good_def unchanged_def foreign_def

lemma sim_law_LinkByName:
  "meets sim_good sim_view (LinkByName sim_host n) (spec_LinkByName n) (fail_LinkByName n)"
  by (rule meetsI) (auto simp: sim_host_def sim_LinkByName_def spec_LinkByName_def fail_LinkByName_def
      foreign_def sim_view_def split: option.splits dest: sim_find_Some)

lemma sim_device_attrs [simp]: "Attrs (sim_device i l) = (Attrs l)\<lparr>la_Index := i\<rparr>"
  by (simp add: sim_device_def Let_def)

lemma sim_device_kept: "kept_link l (sim_device i l)"
  by (auto simp: kept_link_def sim_device_def Let_def)

lemma sim_law_LinkAdd: "meets sim_good sim_view (LinkAdd sim_host l) (spec_LinkAdd l) fail_LinkAdd"
proof (rule meetsI)
  fix k x k'
  assume g: "sim_good k" and c: "LinkAdd sim_host l k = (Inr x, k')"
  from c have n: "sim_find (link_name l) (s_links k) = None"
    and x: "x = sim_device (s_next k) l"
    and k': "k' = k\<lparr>s_links := s_links k @ [x], s_next := s_next k + 1\<rparr>"
    by (auto simp: sim_host_def sim_LinkAdd_def Let_def split: if_splits)
  have "sim_good k'"
    using g n unfolding k' x by (fastforce simp: sim_good_def sim_find_None)
  moreover have "fresh_index (sim_view k) (link_index x)"
    using g unfolding x by (fastforce simp: fresh_index_def sim_view_def sim_good_def dest: sim_find_Some)
  moreover have "sim_view k' = (sim_view k)\<lparr>k_links := (k_links (sim_view k))(link_name l \<mapsto> x)\<rparr>"
    using n unfolding k' x
    by (auto simp: sim_view_def sim_chain_def sim_find_append fun_eq_iff split: option.splits)
  ultimately show "sim_good k' \<and> spec_LinkAdd l x (sim_view k) (sim_view k')"
    using n x sim_device_kept by (auto simp: spec_LinkAdd_def sim_view_def[of k] intro!: exI[of _ "sim_view k"])
next
  fix k e k'
  assume "sim_good k" and "LinkAdd sim_host l k = (Inl e, k')"
  then show "sim_good k' \<and> fail_LinkAdd e (sim_view k) (sim_view k')"
    by (auto simp: sim_host_def sim_LinkAdd_def Let_def fail_LinkAdd_def foreign_def split: if_splits)
qed

lemma sim_law_LinkDel: "meets sim_good sim_view (LinkDel sim_host l) (spec_LinkDel l) unchanged"
  by (rule meetsI) (auto simp: sim_host_def sim_LinkDel_def spec_LinkDel_def sim_defs sim_chain_def
      distinct_map_filter sim_find_filter fun_eq_iff split: if_splits)

lemma sim_law_LinkSetUp: "meets sim_good sim_view (LinkSetUp sim_host l) (spec_LinkSetUp l) unchanged"
  by (rule meetsI) (auto simp: sim_host_def sim_LinkSetUp_def spec_LinkSetUp_def sim_defs sim_chain_def
      split: if_splits)

lemma sim_law_LinkSetName: "meets sim_good sim_view (LinkSetName sim_host l n) (spec_LinkSetName l n) unchanged"
proof (rule meetsI)
  fix k u k'
  assume g: "sim_good k" and c: "LinkSetName sim_host l n k = (Inr u, k')"
  let ?l = "with_attrs ((Attrs l)\<lparr>la_Name := n\<rparr>) l"
  from c have l: "l \<in> set (s_links k)" and n: "sim_find n (s_links k) = None"
    and k': "k' = k\<lparr>s_links := filter (\<lambda>x. link_name x \<noteq> link_name l) (s_links k) @ [?l]\<rparr>"
    by (auto simp: sim_host_def sim_LinkSetName_def split: if_splits)
  have "sim_good k'"
    using g l n unfolding k' by (auto simp: sim_good_def distinct_map_filter sim_find_None)
  moreover have "k_links (sim_view k') = (k_links (sim_view k))(link_name l := None, n \<mapsto> ?l)"
    using n unfolding k'
    by (auto simp: sim_view_def sim_find_filter sim_find_append fun_eq_iff split: option.splits)
  then have "sim_view k' = (sim_view k)\<lparr>k_links := (k_links (sim_view k))(link_name l := None, n \<mapsto> ?l)\<rparr>"
    unfolding k' by (simp add: sim_view_def sim_chain_def)
  ultimately show "sim_good k' \<and> spec_LinkSetName l n u (sim_view k) (sim_view k')"
    using n by (simp add: spec_LinkSetName_def) (simp add: sim_view_def)
next
  fix k e k'
  assume "sim_good k" and "LinkSetName sim_host l n k = (Inl e, k')"
  then show "sim_good k' \<and> unchanged e (sim_view k) (sim_view k')"
    by (auto simp: sim_host_def sim_LinkSetName_def unchanged_def foreign_def split: if_splits)
qed

lemma sim_law_FouAdd: "meets sim_good sim_view (FouAdd sim_host x) (spec_FouAdd x) unchanged"
  by (rule meetsI) (auto simp: sim_host_def sim_FouAdd_def spec_FouAdd_def sim_defs sim_chain_def
      split: if_splits)

lemma rule_canon_canon [simp]: "rule_canon (rule_canon r) = rule_canon r"
  by (auto simp: rule_canon_def)

lemma ru_Family_canon [simp]: "ru_Family (rule_canon r) = ru_Family r"
  by (auto simp: rule_canon_def)

lemma sim_law_RuleAdd: "meets sim_good sim_view (RuleAdd sim_host r) (spec_RuleAdd r) unchanged"
  by (rule meetsI) (auto simp: sim_host_def sim_RuleAdd_def spec_RuleAdd_def sim_defs sim_chain_def
      fun_eq_iff split: if_splits)

lemma filter_remove1: "filter P (remove1 x xs) = (if P x then remove1 x (filter P xs) else filter P xs)"
  by (induction xs) auto

lemma sim_law_RuleDel: "meets sim_good sim_view (RuleDel sim_host r) (spec_RuleDel r) unchanged"
  by (rule meetsI) (auto simp: sim_host_def sim_RuleDel_def spec_RuleDel_def sim_defs sim_chain_def
      fun_eq_iff filter_remove1 dest: notin_set_remove1 in_set_remove1[THEN iffD1, rotated]
      split: if_splits dest!: set_remove1_subset[THEN subsetD])

lemma image_canon_id:
  "sim_good s \<Longrightarrow> image_mset rule_canon (mset (filter P (s_rules s))) = mset (filter P (s_rules s))"
  by (auto simp: sim_good_def intro!: image_mset_cong[where g = id, simplified])

lemma sim_law_RuleList: "meets sim_good sim_view (RuleList sim_host f) (spec_RuleList f) unchanged"
  by (rule meetsI) (auto simp: sim_host_def sim_RuleList_def spec_RuleList_def image_canon_id
      sim_view_def simp flip: mset_filter)

lemma sim_law_RuleListFiltered:
  "meets sim_good sim_view (RuleListFiltered sim_host f t) (spec_RuleListFiltered f t) unchanged"
  by (rule meetsI) (auto simp: sim_host_def sim_RuleListFiltered_def spec_RuleListFiltered_def image_canon_id
      sim_view_def simp flip: mset_filter)

lemma sim_stored_route: "no_host_bits (the (rt_Dst (sim_stored r))) \<Longrightarrow> stored_route r (sim_stored r)"
  by (auto simp: stored_route_def sim_stored_def split: option.splits)

lemma sim_law_RouteAdd: "meets sim_good sim_view (RouteAdd sim_host r) (spec_RouteAdd r) unchanged"
proof (rule meetsI)
  fix k u k'
  assume g: "sim_good k" and c: "RouteAdd sim_host r k = (Inr u, k')"
  let ?f = "route_family r" and ?x = "sim_stored r"
  from c have hb: "no_host_bits (the (rt_Dst ?x))"
    and ix: "rt_LinkIndex r = 0 \<or> (\<exists>l\<in>set (s_links k). link_index l = rt_LinkIndex r)"
    and new: "\<forall>q. (?f, q) \<in> set (s_routes k) \<longrightarrow> \<not> same_route_key q ?x"
    and k': "k' = k\<lparr>s_routes := s_routes k @ [(?f, ?x)]\<rparr>"
    by (auto simp: sim_host_def sim_RouteAdd_def Let_def split: if_splits)
  have "(?f, ?x) \<notin> set (s_routes k)" using new by (auto simp: same_route_key_def)
  with g ix have "sim_good k'" unfolding k' by (auto simp: sim_good_def sim_stored_def)
  moreover have "spec_RouteAdd r u (sim_view k) (sim_view k')"
    unfolding spec_RouteAdd_def k' using new sim_stored_route[OF hb]
    by (auto simp: sim_view_def sim_chain_def fun_eq_iff intro!: exI[of _ ?x])
  ultimately show "sim_good k' \<and> spec_RouteAdd r u (sim_view k) (sim_view k')" ..
next
  fix k e k'
  assume "sim_good k" and "RouteAdd sim_host r k = (Inl e, k')"
  then show "sim_good k' \<and> unchanged e (sim_view k) (sim_view k')"
    by (auto simp: sim_host_def sim_RouteAdd_def Let_def unchanged_def foreign_def split: if_splits)
qed

lemma sim_law_RouteDel: "meets sim_good sim_view (RouteDel sim_host r) (spec_RouteDel r) unchanged"
  by (rule meetsI) (auto simp: sim_host_def sim_RouteDel_def spec_RouteDel_def sim_defs sim_chain_def
      fun_eq_iff split: if_splits)

lemma sim_law_RouteListFiltered:
  "meets sim_good sim_view (RouteListFiltered sim_host f t) (spec_RouteListFiltered f t) unchanged"
proof (rule meetsI)
  fix k rs k'
  assume g: "sim_good k" and c: "RouteListFiltered sim_host f t k = (Inr rs, k')"
  then have rs: "rs = map snd (filter (\<lambda>(g, r). g = f \<and> rt_Table r = t) (s_routes k))" and k': "k' = k"
    by (auto simp: sim_host_def sim_RouteListFiltered_def)
  have "distinct rs"
    using g unfolding rs by (auto simp: sim_good_def distinct_map inj_on_def)
  moreover have "set rs = {r \<in> k_routes (sim_view k) f. rt_Table r = t}"
    unfolding rs by (auto simp: sim_view_def image_iff)
  moreover have "list_all2 (shown_as f) rs rs"
    by (auto simp: list_all2_conv_all_nth shown_as_def)
  ultimately show "sim_good k' \<and> spec_RouteListFiltered f t rs (sim_view k) (sim_view k')"
    using g unfolding k' spec_RouteListFiltered_def by blast
qed (auto simp: sim_host_def sim_RouteListFiltered_def)

lemma sim_law_ipt_Insert:
  "meets sim_good sim_view (ipt_Insert sim_host f t c i spec) (spec_ipt_Insert f t c spec) unchanged"
  by (rule meetsI) (auto simp: sim_host_def sim_defs sim_chain_def sim_set_chain_def set_chain_def
      spec_ipt_Insert_def fun_eq_iff)

lemma sim_law_ipt_Append:
  "meets sim_good sim_view (ipt_Append sim_host f t c spec) (spec_ipt_Append f t c spec) unchanged"
  by (rule meetsI) (auto simp: sim_host_def sim_defs sim_chain_def sim_set_chain_def set_chain_def
      spec_ipt_Append_def fun_eq_iff)

lemma sim_law_switches:
  "meets sim_good sim_view (ipt_NewWithProtocol sim_host f) spec_none unchanged"
  "meets sim_good sim_view (Sysctl sim_host n v) (spec_Sysctl n v) unchanged"
  "meets sim_good sim_view (EnableIP4Forward sim_host) (spec_EnableForward FAMILY_V4) unchanged"
  "meets sim_good sim_view (EnableIP6Forward sim_host) (spec_EnableForward FAMILY_V6) unchanged"
  "meets sim_good sim_view (exec_modprobe sim_host m) (spec_modprobe m) unchanged"
  by (auto intro!: meetsI simp: sim_host_def sim_defs sim_chain_def spec_none_def spec_Sysctl_def
      spec_EnableForward_def spec_modprobe_def fun_eq_iff)

interpretation sim_kernel: host_laws sim_host sim_good sim_view
  by (rule host_laws.intro)
    (rule sim_law_LinkByName sim_law_LinkAdd sim_law_LinkDel sim_law_LinkSetUp sim_law_LinkSetName
       sim_law_FouAdd sim_law_RuleAdd sim_law_RuleDel sim_law_RuleList sim_law_RuleListFiltered
       sim_law_RouteAdd sim_law_RouteDel sim_law_RouteListFiltered sim_law_ipt_Insert sim_law_ipt_Append
       sim_law_switches)+

lemma sim_good_empty [simp]: "sim_good sim_empty"
  by (simp add: sim_good_def sim_empty_def)

end
