(* ===== verification/Fou.thy ===== *)
theory Fou
  imports Tunnel Sha1 HostSim
begin

text \<open>
  Package \<open>fou\<close> (\<open>pkg/tunnel/fou/fou.go\<close>): Foo-over-UDP tunnel devices, one per
  peer, named after the peer's address. The definitions follow the file from top to
  bottom; the host calls go through the argument \<open>h\<close>.
\<close>

section \<open>Names\<close>

definition FoU4LinkPrefix :: string where "FoU4LinkPrefix = ''fou4_''"

definition FoU6LinkPrefix :: string where "FoU6LinkPrefix = ''fou6_''"

definition fouDummy :: string where "fouDummy = ''fou-dummy''"

definition fouName :: "addr \<Rightarrow> err + string" where
  "fouName addr =
     (if Is4 addr then Inr (FoU4LinkPrefix @ hex_bytes (AsSlice addr))
      else if Is6 addr then Inr (FoU6LinkPrefix @ hex_bytes (take 4 (sha1_Sum (AsSlice addr))))
      else Inl (Errorf ''unknown ip families''))"

section \<open>Start-up\<close>

definition modProbe :: "'k host \<Rightarrow> string \<Rightarrow> ('k, unit) io" where
  "modProbe h module = on_err (Errorw ''modprobe failed'') (exec_modprobe h module)"

definition disableRPFilter :: "'k host \<Rightarrow> ('k, unit) io" where
  "disableRPFilter h =
     bind_io (on_err (Errorw ''setting net.ipv4.conf.default.rp_filter=0 failed'')
       (Sysctl h ''net.ipv4.conf.default.rp_filter'' ''0'')) (\<lambda>_.
     bind_io (on_err (Errorw ''setting net.ipv4.conf.all.rp_filter=0 failed'')
       (Sysctl h ''net.ipv4.conf.all.rp_filter'' ''0'')) (\<lambda>_. ret ()))"

record fou_controller =
  fc_port :: int
  fc_local4 :: "addr option"
  fc_local6 :: "addr option"

definition NewFoUTunnelController :: "int \<Rightarrow> addr option \<Rightarrow> addr option \<Rightarrow> err + fou_controller" where
  "NewFoUTunnelController port localIPv4 localIPv6 =
     (if (case localIPv4 of None \<Rightarrow> False | Some a \<Rightarrow> \<not> Is4 a) then Inl ErrIPFamilyMismatch
      else if (case localIPv6 of None \<Rightarrow> False | Some a \<Rightarrow> \<not> Is6 a) then Inl ErrIPFamilyMismatch
      else if localIPv4 = None \<and> localIPv6 = None then Inl ErrNoIPProvided
      else Inr \<lparr>fc_port = port, fc_local4 = localIPv4, fc_local6 = localIPv6\<rparr>)"

definition initIPTables :: "'k host \<Rightarrow> fou_controller \<Rightarrow> family \<Rightarrow> ('k, unit) io" where
  "initIPTables h t p =
     bind_io (ipt_NewWithProtocol h p) (\<lambda>_.
     bind_io (on_err (Errorw ''failed to setup mangle table'')
       (ipt_Insert h p ''mangle'' ''POSTROUTING'' 1
          [''-p'', ''udp'', ''--dport'', Itoa (fc_port t), ''-j'', ''CHECKSUM'', ''--checksum-fill''])) (\<lambda>_.
     ret ()))"

definition fou_listener :: "fou_controller \<Rightarrow> family \<Rightarrow> fou" where
  "fou_listener t f =
     (case f of
        FAMILY_V4 \<Rightarrow> \<lparr>fou_Family = FAMILY_V4, fou_Protocol = 4, fou_Port = fc_port t, fou_EncapType = FOU_ENCAP_DIRECT\<rparr>
      | FAMILY_V6 \<Rightarrow> \<lparr>fou_Family = FAMILY_V6, fou_Protocol = 41, fou_Port = fc_port t, fou_EncapType = FOU_ENCAP_DIRECT\<rparr>)"

definition init4 :: "'k host \<Rightarrow> fou_controller \<Rightarrow> ('k, unit) io" where
  "init4 h t =
     bind_io (on_err (Errorw ''failed to disable RP Filter'') (disableRPFilter h)) (\<lambda>_.
     bind_io (on_err (Errorw ''failed to enable IPv4 forwarding'') (EnableIP4Forward h)) (\<lambda>_.
     bind_io (on_err (Errorw ''failed to load fou module'') (modProbe h ''fou'')) (\<lambda>_.
     bind_io (on_err (Errorw ''netlink: fou addlink failed'') (FouAdd h (fou_listener t FAMILY_V4))) (\<lambda>_.
     initIPTables h t FAMILY_V4))))"

definition init6 :: "'k host \<Rightarrow> fou_controller \<Rightarrow> ('k, unit) io" where
  "init6 h t =
     bind_io (on_err (Errorw ''failed to enable IPv6 forwarding'') (EnableIP6Forward h)) (\<lambda>_.
     bind_io (on_err (Errorw ''failed to load fou module'') (modProbe h ''fou6'')) (\<lambda>_.
     bind_io (on_err (Errorw ''netlink: fou addlink failed'') (FouAdd h (fou_listener t FAMILY_V6))) (\<lambda>_.
     initIPTables h t FAMILY_V6)))"

definition fou_Init :: "'k host \<Rightarrow> fou_controller \<Rightarrow> ('k, unit) io" where
  "fou_Init h t =
     catch (LinkByName h fouDummy) (\<lambda>r. case r of
       Inr _ \<Rightarrow> ret ()
     | Inl e \<Rightarrow>
         if \<not> errors_As_LinkNotFound e then throw (Errorw ''failed to initialize fou tunnel'' e)
         else
           bind_io (if fc_local4 t \<noteq> None then init4 h t else ret ()) (\<lambda>_.
           bind_io (if fc_local6 t \<noteq> None then init6 h t else ret ()) (\<lambda>_.
           bind_io (on_err (Errorw ''failed to add dummy device'')
             (LinkAdd h (Dummy (NewLinkAttrs\<lparr>la_Name := fouDummy\<rparr>)))) (\<lambda>_. ret ()))))"

definition fou_IsInitialized :: "'k host \<Rightarrow> ('k, bool) io" where
  "fou_IsInitialized h =
     catch (LinkByName h fouDummy) (\<lambda>r. ret (case r of Inr _ \<Rightarrow> True | Inl _ \<Rightarrow> False))"

section \<open>The flow-based device\<close>

definition configureDevice :: "'k host \<Rightarrow> link \<Rightarrow> ('k, unit) io" where
  "configureDevice h link = on_err (Errorw ''netlink: failed to set link up'') (LinkSetUp h link)"

definition setupDevice :: "'k host \<Rightarrow> link \<Rightarrow> ('k, unit) io" where
  "setupDevice h link =
     bind_io
       (catch (LinkByName h (link_name link)) (\<lambda>r. case r of
          Inr l \<Rightarrow> ret l
        | Inl e \<Rightarrow>
            if \<not> errors_As_LinkNotFound e then throw e
            else
              bind_io (on_err (Errorw ''netlink: failed to create device'') (LinkAdd h link)) (\<lambda>_.
              on_err (Errorw ''netlink: failed to retrieve created device'') (LinkByName h (link_name link)))))
       (\<lambda>l. on_err (Errorw ''failed to set up device'') (configureDevice h l))"

definition renameDevice :: "'k host \<Rightarrow> string \<Rightarrow> string \<Rightarrow> ('k, unit) io" where
  "renameDevice h from to =
     catch (LinkByName h from) (\<lambda>r. case r of
       Inl _ \<Rightarrow> ret ()
     | Inr link \<Rightarrow> on_err (Errorw ''netlink: failed to rename device'') (LinkSetName h link to))"

definition flow_attrs :: "string \<Rightarrow> link_attrs" where
  "flow_attrs n = \<lparr>la_Name = n, la_Index = 0, la_TxQLen = 0\<rparr>"

definition setupFlowBasedIP4TunDevice :: "'k host \<Rightarrow> ('k, unit) io" where
  "setupFlowBasedIP4TunDevice h =
     bind_io (on_err (Errorw ''creating pona_ipip4'')
       (setupDevice h (Iptun (flow_attrs ''pona_ipip4'') (zero_tunnel_opts\<lparr>to_FlowBased := True\<rparr>)))) (\<lambda>_.
     on_err (Errorw ''renaming fallback device tunl0'') (renameDevice h ''tunl0'' ''pona_tunl''))"

definition setupFlowBasedIP6TunDevice :: "'k host \<Rightarrow> ('k, unit) io" where
  "setupFlowBasedIP6TunDevice h =
     bind_io (on_err (Errorw ''creating pona_ipip6'')
       (setupDevice h (Ip6tnl (flow_attrs ''pona_ipip6'') (zero_tunnel_opts\<lparr>to_FlowBased := True\<rparr>)))) (\<lambda>_.
     on_err (Errorw ''renaming fallback device tunl0'') (renameDevice h ''ip6tnl0'' ''pona_ip6tnl''))"

section \<open>Peers\<close>

text \<open>Both families build an \<open>Iptun\<close> link; \<open>uint16(t.port)\<close> keeps the low 16 bits.\<close>

definition peer_link :: "fou_controller \<Rightarrow> string \<Rightarrow> addr \<Rightarrow> addr \<Rightarrow> link" where
  "peer_link t linkname addr local =
     Iptun (NewLinkAttrs\<lparr>la_Name := linkname\<rparr>)
       \<lparr>to_Ttl = 64, to_EncapType = FOU_ENCAP_DIRECT, to_EncapDport = word_of_int (fc_port t),
        to_EncapSport = 0, to_Remote = FromAddr addr, to_Local = FromAddr local, to_FlowBased = False\<rparr>"

definition addPeer4 :: "'k host \<Rightarrow> fou_controller \<Rightarrow> addr \<Rightarrow> ('k, link) io" where
  "addPeer4 h t addr =
     (case fc_local4 t of
        None \<Rightarrow> throw ErrIPFamilyMismatch
      | Some local4 \<Rightarrow>
          (case fouName addr of
             Inl e \<Rightarrow> throw (Errorw ''failed to generate fou name'' e)
           | Inr linkname \<Rightarrow>
               catch (LinkByName h linkname) (\<lambda>r. case r of
                 Inr link \<Rightarrow> ret link
               | Inl e \<Rightarrow>
                   if \<not> errors_As_LinkNotFound e then throw (Errorw ''netlink: failed to get link by name'' e)
                   else
                     bind_io (on_err (Errorw ''netlink: failed to add fou link'')
                       (LinkAdd h (peer_link t linkname addr local4))) (\<lambda>link.
                     bind_io (on_err (Errorw ''netlink: failed to setup ipip device'')
                       (setupFlowBasedIP4TunDevice h)) (\<lambda>_. ret link)))))"

definition addPeer6 :: "'k host \<Rightarrow> fou_controller \<Rightarrow> addr \<Rightarrow> ('k, link) io" where
  "addPeer6 h t addr =
     (case fc_local6 t of
        None \<Rightarrow> throw ErrIPFamilyMismatch
      | Some local6 \<Rightarrow>
          (case fouName addr of
             Inl e \<Rightarrow> throw (Errorw ''failed to generate fou name'' e)
           | Inr linkname \<Rightarrow>
               catch (LinkByName h linkname) (\<lambda>r. case r of
                 Inr link \<Rightarrow> ret link
               | Inl e \<Rightarrow>
                   if \<not> errors_As_LinkNotFound e then throw (Errorw ''netlink: failed to get link by name'' e)
                   else
                     bind_io (on_err (Errorw ''netlink: failed to add fou link'')
                       (LinkAdd h (peer_link t linkname addr local6))) (\<lambda>link.
                     bind_io (on_err (Errorw ''netlink: failed to setup ipip device'')
                       (setupFlowBasedIP6TunDevice h)) (\<lambda>_. ret link)))))"

definition AddPeer :: "'k host \<Rightarrow> fou_controller \<Rightarrow> addr \<Rightarrow> ('k, link) io" where
  "AddPeer h t addr =
     (if Is4 addr then addPeer4 h t addr
      else if Is6 addr then addPeer6 h t addr
      else throw (Errorf ''unknown ip families''))"

definition DelPeer :: "'k host \<Rightarrow> fou_controller \<Rightarrow> addr \<Rightarrow> ('k, unit) io" where
  "DelPeer h t addr =
     (case fouName addr of
        Inl e \<Rightarrow> throw (Errorw ''failed to generate fou name'' e)
      | Inr linkName \<Rightarrow>
          catch (LinkByName h linkName) (\<lambda>r. case r of
            Inl e \<Rightarrow> if errors_As_LinkNotFound e then ret ()
                      else throw (Errorw ''failed to delete interface'' e)
          | Inr link \<Rightarrow> LinkDel h link))"

definition fou_tunnel :: "'k host \<Rightarrow> fou_controller \<Rightarrow> 'k tunnel_controller" where
  "fou_tunnel h t =
     \<lparr>tun_Init = fou_Init h t, tun_IsInitialized = fou_IsInitialized h,
      tun_AddPeer = AddPeer h t, tun_DelPeer = DelPeer h t\<rparr>"

section \<open>Names: lemmas\<close>

lemma fouName_Inr_iff: "(\<exists>n. fouName a = Inr n) \<longleftrightarrow> a \<noteq> AddrZero"
  by (cases a) (auto simp: fouName_def)

lemma fouName_form:
  assumes "fouName a = Inr n"
  shows "take 3 n = ''fou'' \<and> n ! 4 = CHR ''_'' \<and> n ! 3 \<in> {CHR ''4'', CHR ''6''} \<and> length n = 13"
  using assms
  by (cases a) (auto simp: fouName_def FoU4LinkPrefix_def FoU6LinkPrefix_def)

text \<open>The devices beside the peers' own: the flow-based ones and the fallback ones, old and new name.\<close>

definition aux_names :: "string set" where
  "aux_names = {''pona_ipip4'', ''pona_ipip6'', ''pona_tunl'', ''pona_ip6tnl''} \<union> fallback_names"

lemma fouName_not_aux: "fouName a = Inr n \<Longrightarrow> n \<notin> aux_names \<and> n \<noteq> fouDummy"
  by (drule fouName_form) (auto simp: aux_names_def fallback_names_def fouDummy_def)

lemma fouName4_inject: "fouName (Addr4 v) = fouName (Addr4 w) \<longleftrightarrow> v = w"
  by (simp add: fouName_def hex_bytes_inject word_bytes_inject)

lemma fouName_families: "fouName a = Inr n \<Longrightarrow> fouName b = Inr n \<Longrightarrow> Is4 a = Is4 b"
  by (cases a; cases b) (auto simp: fouName_def FoU4LinkPrefix_def FoU6LinkPrefix_def)

lemma NewFoU_locals4: "NewFoUTunnelController p a b = Inr t \<Longrightarrow> \<forall>loc. fc_local4 t = Some loc \<longrightarrow> Is4 loc"
  by (auto simp: NewFoUTunnelController_def split: if_splits)

lemma NewFoU_fields: "NewFoUTunnelController p a b = Inr t \<Longrightarrow> fc_port t = p \<and> fc_local4 t = a \<and> fc_local6 t = b"
  by (auto simp: NewFoUTunnelController_def split: if_splits)

section \<open>Effects\<close>

definition aux_only :: "kern \<Rightarrow> kern \<Rightarrow> bool" where
  "aux_only K K' \<longleftrightarrow> (\<forall>n. n \<notin> aux_names \<longrightarrow> k_links K' n = k_links K n) \<and> k_routes K' = k_routes K"

text \<open>Adding the peer named \<open>n\<close>: its link may appear, other links and all routes stay.\<close>

text \<open>
  The device of a peer: what the kernel makes of the link the code asks for, on the
  controller's port and, for an IPv4 peer, between an address of the controller and the
  peer's. The link for an IPv6 peer is an IPv4 one too (\<open>Iptun\<close>), so nothing is known of
  its end points.
\<close>

definition tunnel_between :: "fou_controller \<Rightarrow> addr \<Rightarrow> link \<Rightarrow> bool" where
  "tunnel_between t a l \<longleftrightarrow>
     is_Iptun l \<and> (if Is4 a then \<exists>loc. fc_local4 t = Some loc \<and> to_Local (opts l) = FromAddr loc \<and> to_Remote (opts l) = FromAddr a
       else fc_local6 t \<noteq> None) \<and>
     to_EncapDport (opts l) = word_of_int (fc_port t) \<and> to_EncapType (opts l) = FOU_ENCAP_DIRECT"

definition peer_added :: "string \<Rightarrow> kern \<Rightarrow> kern \<Rightarrow> bool" where
  "peer_added n K K' \<longleftrightarrow>
     (\<forall>m. m \<notin> aux_names \<longrightarrow> k_links K m \<noteq> None \<or> m \<noteq> n \<longrightarrow> k_links K' m = k_links K m) \<and> k_routes K' = k_routes K"

lemma aux_only_refl [simp]: "reflp aux_only"
  by (auto simp: reflp_def aux_only_def)

lemma aux_only_trans [simp]: "transp aux_only"
  by (auto simp: transp_def aux_only_def)

lemma aux_only_eq [simp]: "aux_only K K"
  by (simp add: aux_only_def)

lemma fallbacks_aux: "fallbacks_appear K K' \<Longrightarrow> aux_only K K'"
  by (auto simp: fallbacks_appear_def aux_only_def aux_names_def)

text \<open>The common part of \<open>addPeer4\<close> and \<open>addPeer6\<close>: reuse the link or make it.\<close>

definition make_peer :: "'k host \<Rightarrow> ('k, unit) io \<Rightarrow> string \<Rightarrow> link \<Rightarrow> ('k, link) io" where
  "make_peer h prep n lk =
     catch (LinkByName h n) (\<lambda>r. case r of
       Inr link \<Rightarrow> ret link
     | Inl e \<Rightarrow>
         if \<not> errors_As_LinkNotFound e then throw (Errorw ''netlink: failed to get link by name'' e)
         else
           bind_io (on_err (Errorw ''netlink: failed to add fou link'') (LinkAdd h lk)) (\<lambda>link.
           bind_io (on_err (Errorw ''netlink: failed to setup ipip device'') prep) (\<lambda>_. ret link)))"

lemma AddPeer_alt:
  "AddPeer h t a =
     (case a of
        AddrZero \<Rightarrow> throw (Errorf ''unknown ip families'')
      | Addr4 w \<Rightarrow>
          (case fc_local4 t of None \<Rightarrow> throw ErrIPFamilyMismatch
           | Some l \<Rightarrow> make_peer h (setupFlowBasedIP4TunDevice h) (projr (fouName a)) (peer_link t (projr (fouName a)) a l))
      | Addr6 w z \<Rightarrow>
          (case fc_local6 t of None \<Rightarrow> throw ErrIPFamilyMismatch
           | Some l \<Rightarrow> make_peer h (setupFlowBasedIP6TunDevice h) (projr (fouName a)) (peer_link t (projr (fouName a)) a l)))"
  by (cases a)
    (auto simp: AddPeer_def addPeer4_def addPeer6_def make_peer_def fouName_def split: option.splits)

definition fou_supports :: "fou_controller \<Rightarrow> addr \<Rightarrow> bool" where
  "fou_supports t a \<longleftrightarrow> (Is4 a \<and> fc_local4 t \<noteq> None) \<or> (Is6 a \<and> fc_local6 t \<noteq> None)"

definition fou_has_peer :: "('k \<Rightarrow> kern) \<Rightarrow> 'k \<Rightarrow> addr \<Rightarrow> bool" where
  "fou_has_peer view k a \<longleftrightarrow> (\<exists>n. fouName a = Inr n \<and> k_links (view k) n \<noteq> None)"

definition fou_clash :: "addr \<Rightarrow> addr \<Rightarrow> bool" where
  "fou_clash a b \<longleftrightarrow> fouName a = fouName b"

definition fou_ok :: "'k host \<Rightarrow> ('k \<Rightarrow> bool) \<Rightarrow> ('k \<Rightarrow> kern) \<Rightarrow> 'k \<Rightarrow> bool" where
  "fou_ok h good view k \<longleftrightarrow> host_laws h good view \<and> good k"

context host_laws
begin

lemma LinkByName_within: "within good view aux_only (LinkByName h n)"
  by (rule meets_within[OF LinkByName]) (auto simp: spec_LinkByName_def fail_LinkByName_def)

lemma LinkAdd_within: "link_name l \<in> aux_names \<Longrightarrow> within good view aux_only (LinkAdd h l)"
  by (rule meets_within[OF LinkAdd])
    (auto simp: spec_LinkAdd_def fail_LinkAdd_def aux_only_def dest!: fallbacks_aux)

lemma LinkSetUp_within: "within good view aux_only (LinkSetUp h l)"
  by (rule meets_within[OF LinkSetUp]) (auto simp: spec_LinkSetUp_def unchanged_def aux_only_def)

lemma setupDevice_within: "link_name l \<in> aux_names \<Longrightarrow> within good view aux_only (setupDevice h l)"
  unfolding setupDevice_def configureDevice_def
  by (intro within_bind within_catch within_on_err LinkByName_within LinkSetUp_within LinkAdd_within)
    (auto intro!: within_bind within_on_err LinkAdd_within LinkByName_within)

lemma LinkSetName_within:
  "link_name l \<in> aux_names \<Longrightarrow> n \<in> aux_names \<Longrightarrow> within good view aux_only (LinkSetName h l n)"
  by (rule meets_within[OF LinkSetName]) (auto simp: spec_LinkSetName_def unchanged_def aux_only_def)

lemma renameDevice_within:
  assumes "from \<in> aux_names" "to \<in> aux_names"
  shows "within good view aux_only (renameDevice h from to)"
  unfolding renameDevice_def
  by (rule within_catch_spec[OF aux_only_trans LinkByName_within LinkByName])
    (use assms in \<open>auto simp: spec_LinkByName_def intro!: within_on_err LinkSetName_within\<close>)

lemma setupFlowBased_within:
  "within good view aux_only (setupFlowBasedIP4TunDevice h)"
  "within good view aux_only (setupFlowBasedIP6TunDevice h)"
  unfolding setupFlowBasedIP4TunDevice_def setupFlowBasedIP6TunDevice_def
  by (auto intro!: within_bind within_on_err setupDevice_within renameDevice_within
      simp: aux_names_def fallback_names_def flow_attrs_def)

lemma LinkAdd_peer:
  assumes "spec_LinkAdd lk l K M" "aux_only M K'" "link_name lk \<notin> aux_names"
  shows "peer_added (link_name lk) K K' \<and> k_links K' (link_name lk) = Some l \<and> link_name l = link_name lk"
proof -
  from assms(1) have "link_name l = link_name lk" by (auto simp: spec_LinkAdd_def dest: kept_link_name)
  with assms show ?thesis
    by (force simp: peer_added_def spec_LinkAdd_def aux_only_def dest!: fallbacks_aux)
qed

lemma aux_only_peer_added: "aux_only K K' \<Longrightarrow> peer_added n K K'"
  by (auto simp: peer_added_def aux_only_def)

lemma make_peer_returns:
  assumes g: "good k" and c: "make_peer h prep n lk k = (Inr l, k')"
    and lk: "link_name lk = n" and n: "n \<notin> aux_names" and prep: "within good view aux_only prep"
  shows "good k' \<and> peer_added n (view k) (view k') \<and> k_links (view k') n = Some l \<and> link_name l = n"
proof -
  from c consider (old) "LinkByName h n k = (Inr l, k')"
    | (new) e t u v where "LinkByName h n k = (Inl e, t)" "LinkAdd h lk t = (Inr l, u)" "prep u = (Inr v, k')"
    by (auto simp: make_peer_def io_inv split: if_splits)
  then show ?thesis
  proof cases
    case old
    from meets_Inr[OF LinkByName this g] show ?thesis by (auto simp: spec_LinkByName_def aux_only_peer_added)
  next
    case new
    from meets_Inl[OF LinkByName new(1) g] have t: "good t" "view t = view k" by (auto simp: fail_LinkByName_def)
    from meets_Inr[OF LinkAdd new(2) t(1)] have u: "good u" "spec_LinkAdd lk l (view k) (view u)" by (auto simp: t)
    from within_run[OF prep new(3) u(1)] LinkAdd_peer[OF u(2)] lk n show ?thesis by blast
  qed
qed

lemma make_peer_fails:
  assumes g: "good k" and c: "make_peer h prep n lk k = (Inl e, k')"
    and lk: "link_name lk = n" and n: "n \<notin> aux_names" and prep: "within good view aux_only prep"
  shows "good k' \<and> foreign e \<and> peer_added n (view k) (view k')"
proof -
  from c consider (look) d where "LinkByName h n k = (Inl d, k')" "e = Errorw ''netlink: failed to get link by name'' d"
    | (add) d t x where "LinkByName h n k = (Inl d, t)" "LinkAdd h lk t = (Inl x, k')"
        "e = Errorw ''netlink: failed to add fou link'' x"
    | (dev) d t l u x where "LinkByName h n k = (Inl d, t)" "LinkAdd h lk t = (Inr l, u)" "prep u = (Inl x, k')"
        "e = Errorw ''netlink: failed to setup ipip device'' x"
    by (auto simp: make_peer_def io_inv split: if_splits)
  then show ?thesis
  proof cases
    case look
    from meets_Inl[OF LinkByName look(1) g] look(2) show ?thesis
      by (auto simp: fail_LinkByName_def aux_only_peer_added)
  next
    case add
    from meets_Inl[OF LinkByName add(1) g] have t: "good t" "view t = view k" by (auto simp: fail_LinkByName_def)
    from meets_Inl[OF LinkAdd add(2) t(1)] add(3) show ?thesis
      by (auto simp: fail_LinkAdd_def t aux_only_peer_added fallbacks_aux)
  next
    case dev
    from meets_Inl[OF LinkByName dev(1) g] have t: "good t" "view t = view k" by (auto simp: fail_LinkByName_def)
    from meets_Inr[OF LinkAdd dev(2) t(1)] have u: "good u" "spec_LinkAdd lk l (view k) (view u)" by (auto simp: t)
    from within_run[OF prep dev(3) u(1)] LinkAdd_peer[OF u(2)] lk n dev(4) show ?thesis by auto
  qed
qed

lemma AddPeer_returns:
  assumes g: "good k" and c: "AddPeer h t a k = (Inr l, k')"
  shows "\<exists>n. fouName a = Inr n \<and> fou_supports t a \<and> good k' \<and> peer_added n (view k) (view k') \<and>
    k_links (view k') n = Some l \<and> link_name l = n"
  using c make_peer_returns[OF g] setupFlowBased_within fouName_not_aux[of a]
  by (cases a) (fastforce simp: AddPeer_alt fou_supports_def fouName_def peer_link_def split: option.splits)+

lemma AddPeer_fails:
  assumes g: "good k" and c: "AddPeer h t a k = (Inl e, k')"
  shows "good k' \<and>
    (k' = k \<and> \<not> fou_supports t a \<and> (a \<noteq> AddrZero \<longrightarrow> e = ErrIPFamilyMismatch) \<or>
     (\<exists>n. fouName a = Inr n \<and> fou_supports t a \<and> foreign e \<and> peer_added n (view k) (view k')))"
  using g c make_peer_fails[OF g] setupFlowBased_within fouName_not_aux[of a]
  by (cases a) (fastforce simp: AddPeer_alt fou_supports_def fouName_def peer_link_def split: option.splits)+

lemma DelPeer_run:
  assumes g: "good k" and n: "fouName a = Inr n" and c: "DelPeer h t a k = (r, k')"
  shows "good k' \<and> (case r of Inl e \<Rightarrow> view k' = view k
     | Inr _ \<Rightarrow> k_links (view k') = (k_links (view k))(n := None))"
proof (cases "LinkByName h n k")
  case (Pair q t)
  show ?thesis
  proof (cases q)
    case (Inl e)
    with Pair meets_Inl[OF LinkByName _ g, of n e t] n c show ?thesis
      by (auto simp: DelPeer_def catch_eq fail_LinkByName_def fun_eq_iff split: if_splits)
  next
    case (Inr l)
    with Pair meets_Inr[OF LinkByName _ g, of n l t] have t: "good t" "view t = view k" "link_name l = n"
      by (auto simp: spec_LinkByName_def)
    from c n Pair Inr have "LinkDel h l t = (r, k')" by (auto simp: DelPeer_def catch_eq)
    with meets_run[OF LinkDel this t(1)] t show ?thesis
      by (auto simp: unchanged_def spec_LinkDel_def split: sum.splits)
  qed
qed

lemma peer_link_kept:
  assumes "kept_link (peer_link t n a loc) l"
  shows "is_Iptun l" "to_EncapDport (opts l) = word_of_int (fc_port t)" "to_EncapType (opts l) = FOU_ENCAP_DIRECT"
    "Is4 a \<Longrightarrow> Is4 loc \<Longrightarrow> opts l = opts (peer_link t n a loc)"
proof -
  show "is_Iptun l" "to_EncapDport (opts l) = word_of_int (fc_port t)" "to_EncapType (opts l) = FOU_ENCAP_DIRECT"
    using assms by (auto simp: kept_link_def Let_def peer_link_def split: if_split_asm)
  assume "Is4 a" "Is4 loc"
  then have "sendable (peer_link t n a loc)" by (auto simp: Is4_iff peer_link_def FromAddr_def)
  with assms show "opts l = opts (peer_link t n a loc)" by (auto simp: kept_link_def Let_def peer_link_def)
qed

lemma AddPeer_new:
  assumes g: "good k" and c: "AddPeer h t a k = (Inr l, k')" and n: "fouName a = Inr n" "k_links (view k) n = None"
  shows "fresh_index (view k) (link_index l) \<and> ((\<forall>loc. fc_local4 t = Some loc \<longrightarrow> Is4 loc) \<longrightarrow> tunnel_between t a l)"
proof -
  from c n obtain prep loc where mp: "make_peer h prep n (peer_link t n a loc) k = (Inr l, k')" and loc: "(if Is4 a then fc_local4 t else fc_local6 t) = Some loc"
    by (cases a) (auto simp: AddPeer_alt split: option.splits)
  from mp consider "LinkByName h n k = (Inr l, k')"
    | e k1 k2 v where "LinkByName h n k = (Inl e, k1)" "LinkAdd h (peer_link t n a loc) k1 = (Inr l, k2)" "prep k2 = (Inr v, k')"
    by (auto simp: make_peer_def io_inv split: if_splits)
  then show ?thesis
  proof cases
    case 1
    from meets_Inr[OF LinkByName this g] n(2) show ?thesis by (simp add: spec_LinkByName_def)
  next
    case (2 e k1 k2 v)
    from meets_Inl[OF LinkByName 2(1) g] have k1: "good k1" "view k1 = view k" by (auto simp: fail_LinkByName_def)
    from meets_Inr[OF LinkAdd 2(2) k1(1)] k1(2) have "fresh_index (view k) (link_index l)"
      and l: "kept_link (peer_link t n a loc) l" by (auto simp: spec_LinkAdd_def)
    moreover have "tunnel_between t a l" if "\<forall>loc. fc_local4 t = Some loc \<longrightarrow> Is4 loc"
      using peer_link_kept[OF l] loc that by (auto simp: tunnel_between_def peer_link_def split: if_split_asm)
    ultimately show ?thesis by blast
  qed
qed

lemma DelPeer_there:
  assumes g: "good k" and n: "fouName a = Inr n" "k_links (view k) n = Some l" and c: "DelPeer h t a k = (Inr u, k')"
  shows "spec_LinkDel l u (view k) (view k')"
proof -
  obtain q t where q: "LinkByName h n k = (q, t)" by fastforce
  show ?thesis
  proof (cases q)
    case (Inl e)
    with meets_Inl[OF LinkByName q[unfolded Inl] g] n c q show ?thesis
      by (auto simp: DelPeer_def catch_eq fail_LinkByName_def split: if_splits)
  next
    case (Inr l')
    with meets_Inr[OF LinkByName q[unfolded Inr] g] n(2) have t: "good t" "view t = view k" "l' = l" by (auto simp: spec_LinkByName_def)
    with c n q Inr have "LinkDel h l t = (Inr u, k')" by (auto simp: DelPeer_def catch_eq)
    from meets_Inr[OF LinkDel this t(1)] t(2) show ?thesis by simp
  qed
qed

lemma AddPeer_DelPeer:
  assumes g: "good k" and n: "fouName a = Inr n" "k_links (view k) n = None"
    and add: "AddPeer h t a k = (Inr l, k1)" and del: "DelPeer h t a k1 = (Inr u, k2)"
  shows "(\<forall>m. m \<notin> aux_names \<longrightarrow> k_links (view k2) m = k_links (view k) m) \<and> k_routes (view k2) = k_routes (view k)"
proof -
  from AddPeer_returns[OF g add] n(1) have k1: "good k1" "peer_added n (view k) (view k1)" "k_links (view k1) n = Some l" "link_name l = n"
    by auto
  from DelPeer_there[OF k1(1) n(1) k1(3) del] have v: "spec_LinkDel l u (view k1) (view k2)" .
  have "\<forall>f r. r \<in> k_routes (view k) f \<longrightarrow> rt_LinkIndex r \<noteq> link_index l"
    using AddPeer_new[OF g add n] by (auto simp: fresh_index_def)
  with v k1 n(2) show ?thesis by (auto simp: spec_LinkDel_def peer_added_def fun_eq_iff)
qed

end

section \<open>Start-up\<close>

text \<open>What the start-up of one family does to the namespace.\<close>

definition checksum_rule :: "fou_controller \<Rightarrow> string list" where
  "checksum_rule t = [''-p'', ''udp'', ''--dport'', Itoa (fc_port t), ''-j'', ''CHECKSUM'', ''--checksum-fill'']"

definition push_rule :: "family \<Rightarrow> string \<Rightarrow> string \<Rightarrow> string list \<Rightarrow> kern \<Rightarrow> kern" where
  "push_rule f tb c spec K = set_chain f tb c (spec # k_chains K f tb c) K"

definition fou_ready4 :: "fou_controller \<Rightarrow> kern \<Rightarrow> kern" where
  "fou_ready4 t K =
     push_rule FAMILY_V4 ''mangle'' ''POSTROUTING'' (checksum_rule t)
       (K\<lparr>k_sysctl := (k_sysctl K)(''net.ipv4.conf.default.rp_filter'' \<mapsto> ''0'', ''net.ipv4.conf.all.rp_filter'' \<mapsto> ''0''),
          k_forward := insert FAMILY_V4 (k_forward K), k_modules := insert ''fou'' (k_modules K),
          k_fous := insert (fou_wire (fou_listener t FAMILY_V4)) (k_fous K)\<rparr>)"

definition fou_ready6 :: "fou_controller \<Rightarrow> kern \<Rightarrow> kern" where
  "fou_ready6 t K =
     push_rule FAMILY_V6 ''mangle'' ''POSTROUTING'' (checksum_rule t)
       (K\<lparr>k_forward := insert FAMILY_V6 (k_forward K), k_modules := insert ''fou6'' (k_modules K),
          k_fous := insert (fou_wire (fou_listener t FAMILY_V6)) (k_fous K)\<rparr>)"

definition fou_ready :: "fou_controller \<Rightarrow> kern \<Rightarrow> kern" where
  "fou_ready t K =
     (if fc_local6 t \<noteq> None then fou_ready6 t else id) ((if fc_local4 t \<noteq> None then fou_ready4 t else id) K)"

lemmas fou_ready_defs = fou_ready_def fou_ready4_def fou_ready6_def push_rule_def set_chain_def

lemma fou_ready_frame [simp]:
  "k_links (fou_ready t K) = k_links K" "k_routes (fou_ready t K) = k_routes K" "k_rules (fou_ready t K) = k_rules K"
  by (simp_all add: fou_ready_defs)

context host_laws
begin

lemma initIPTables_returns:
  assumes g: "good k" and c: "initIPTables h t f k = (Inr u, k')"
  shows "good k' \<and> view k' = push_rule f ''mangle'' ''POSTROUTING'' (checksum_rule t) (view k)"
proof -
  from c obtain v k1 where n: "ipt_NewWithProtocol h f k = (Inr v, k1)"
    and i: "ipt_Insert h f ''mangle'' ''POSTROUTING'' 1 (checksum_rule t) k1 = (Inr (), k')"
    unfolding initIPTables_def checksum_rule_def by (auto simp: io_inv)
  from meets_Inr[OF ipt_New n g] have "good k1" "view k1 = view k" by (auto simp: spec_none_def)
  with meets_Inr[OF ipt_Insert i] show ?thesis by (simp add: spec_ipt_Insert_def push_rule_def)
qed

lemma init4_returns:
  assumes g: "good k" and c: "init4 h t k = (Inr u, k')"
  shows "good k' \<and> view k' = fou_ready4 t (view k)"
proof -
  from c obtain k1 k2 k3 k4 k5 where
    s1: "Sysctl h ''net.ipv4.conf.default.rp_filter'' ''0'' k = (Inr (), k1)"
    and s2: "Sysctl h ''net.ipv4.conf.all.rp_filter'' ''0'' k1 = (Inr (), k2)"
    and fw: "EnableIP4Forward h k2 = (Inr (), k3)" and mp: "exec_modprobe h ''fou'' k3 = (Inr (), k4)"
    and fa: "FouAdd h (fou_listener t FAMILY_V4) k4 = (Inr (), k5)" and ip: "initIPTables h t FAMILY_V4 k5 = (Inr u, k')"
    unfolding init4_def disableRPFilter_def modProbe_def by (auto simp: io_inv)
  from meets_Inr[OF Sysctl s1 g] have k1: "good k1" "view k1 = (view k)\<lparr>k_sysctl := (k_sysctl (view k))(''net.ipv4.conf.default.rp_filter'' \<mapsto> ''0'')\<rparr>"
    by (auto simp: spec_Sysctl_def)
  from meets_Inr[OF Sysctl s2 k1(1)] have k2: "good k2" "view k2 = (view k1)\<lparr>k_sysctl := (k_sysctl (view k1))(''net.ipv4.conf.all.rp_filter'' \<mapsto> ''0'')\<rparr>"
    by (auto simp: spec_Sysctl_def)
  from meets_Inr[OF EnableIP4Forward fw k2(1)] have k3: "good k3" "view k3 = (view k2)\<lparr>k_forward := insert FAMILY_V4 (k_forward (view k2))\<rparr>"
    by (auto simp: spec_EnableForward_def)
  from meets_Inr[OF modprobe mp k3(1)] have k4: "good k4" "view k4 = (view k3)\<lparr>k_modules := insert ''fou'' (k_modules (view k3))\<rparr>"
    by (auto simp: spec_modprobe_def)
  from meets_Inr[OF FouAdd fa k4(1)] have k5: "good k5" "view k5 = (view k4)\<lparr>k_fous := insert (fou_wire (fou_listener t FAMILY_V4)) (k_fous (view k4))\<rparr>"
    by (auto simp: spec_FouAdd_def)
  from initIPTables_returns[OF k5(1) ip] show ?thesis by (simp add: fou_ready4_def k5(2) k4(2) k3(2) k2(2) k1(2))
qed

lemma init6_returns:
  assumes g: "good k" and c: "init6 h t k = (Inr u, k')"
  shows "good k' \<and> view k' = fou_ready6 t (view k)"
proof -
  from c obtain k3 k4 k5 where
    fw: "EnableIP6Forward h k = (Inr (), k3)" and mp: "exec_modprobe h ''fou6'' k3 = (Inr (), k4)"
    and fa: "FouAdd h (fou_listener t FAMILY_V6) k4 = (Inr (), k5)" and ip: "initIPTables h t FAMILY_V6 k5 = (Inr u, k')"
    unfolding init6_def modProbe_def by (auto simp: io_inv)
  from meets_Inr[OF EnableIP6Forward fw g] have k3: "good k3" "view k3 = (view k)\<lparr>k_forward := insert FAMILY_V6 (k_forward (view k))\<rparr>"
    by (auto simp: spec_EnableForward_def)
  from meets_Inr[OF modprobe mp k3(1)] have k4: "good k4" "view k4 = (view k3)\<lparr>k_modules := insert ''fou6'' (k_modules (view k3))\<rparr>"
    by (auto simp: spec_modprobe_def)
  from meets_Inr[OF FouAdd fa k4(1)] have k5: "good k5" "view k5 = (view k4)\<lparr>k_fous := insert (fou_wire (fou_listener t FAMILY_V6)) (k_fous (view k4))\<rparr>"
    by (auto simp: spec_FouAdd_def)
  from initIPTables_returns[OF k5(1) ip] show ?thesis by (simp add: fou_ready6_def k5(2) k4(2) k3(2))
qed

text \<open>The dummy device is the mark of a finished start-up: it is looked for first and made last.\<close>

lemma fou_Init_returns:
  assumes g: "good k" and c: "fou_Init h t k = (Inr u, k')"
  shows "good k' \<and>
    (if k_links (view k) fouDummy \<noteq> None then view k' = view k
     else \<exists>l. spec_LinkAdd (Dummy (NewLinkAttrs\<lparr>la_Name := fouDummy\<rparr>)) l (fou_ready t (view k)) (view k'))"
proof -
  from c consider (there) l where "LinkByName h fouDummy k = (Inr l, k')"
    | (new) e k0 v k1 w k2 x where "LinkByName h fouDummy k = (Inl e, k0)" "errors_As_LinkNotFound e"
        "(if fc_local4 t \<noteq> None then init4 h t else ret ()) k0 = (Inr v, k1)"
        "(if fc_local6 t \<noteq> None then init6 h t else ret ()) k1 = (Inr w, k2)"
        "LinkAdd h (Dummy (NewLinkAttrs\<lparr>la_Name := fouDummy\<rparr>)) k2 = (Inr x, k')"
    by (auto simp: fou_Init_def catch_cases bind_io_Inr on_err_Inr split: if_splits)
  then show ?thesis
  proof cases
    case there
    from meets_Inr[OF LinkByName this g] show ?thesis by (auto simp: spec_LinkByName_def)
  next
    case new
    from meets_Inl[OF LinkByName new(1) g] new(2) have k0: "good k0" "view k0 = view k" "k_links (view k) fouDummy = None"
      by (auto simp: fail_LinkByName_def)
    from new(3) init4_returns[OF k0(1)] k0 have k1: "good k1" "view k1 = (if fc_local4 t \<noteq> None then fou_ready4 t else id) (view k)"
      by (auto split: if_splits)
    from new(4) init6_returns[OF k1(1)] k1 have k2: "good k2" "view k2 = fou_ready t (view k)"
      by (auto simp: fou_ready_def split: if_splits)
    from meets_Inr[OF LinkAdd new(5) k2(1)] k2(2) k0(3) show ?thesis by auto
  qed
qed

lemma fou_IsInitialized_returns:
  assumes g: "good k" and c: "fou_IsInitialized h k = (r, k')"
  shows "good k' \<and> view k' = view k \<and> (\<exists>b. r = Inr b \<and> (b \<longrightarrow> k_links (view k) fouDummy \<noteq> None))"
proof -
  from c consider l where "LinkByName h fouDummy k = (Inr l, k')" "r = Inr True"
    | e where "LinkByName h fouDummy k = (Inl e, k')" "r = Inr False"
    by (auto simp: fou_IsInitialized_def catch_cases)
  then show ?thesis
    by cases (use meets_Inr[OF LinkByName _ g] meets_Inl[OF LinkByName _ g] in \<open>fastforce simp: spec_LinkByName_def fail_LinkByName_def\<close>)+
qed

end

section \<open>The contract of the tunnel controller\<close>

lemma fou_has_peer_added:
  assumes "peer_added n (view k) (view k')" "fouName b = Inr m"
  shows "k_links (view k) m \<noteq> None \<Longrightarrow> k_links (view k') m \<noteq> None"
    and "k_links (view k') m \<noteq> None \<Longrightarrow> k_links (view k) m \<noteq> None \<or> m = n"
  using assms fouName_not_aux[OF assms(2)] by (auto simp: peer_added_def)

interpretation fou: tunnel_laws "fou_tunnel h t" "fou_ok h good view" "fou_has_peer view" "fou_supports t" fou_clash
  for h :: "'k host" and good view t
proof (unfold_locales, goal_cases)
  case (1 w a r w')
  then show ?case
    using host_laws.AddPeer_returns[of h good view w t a] host_laws.AddPeer_fails[of h good view w t a]
    by (cases r) (auto simp: fou_ok_def fou_tunnel_def)
next
  case (2 w a l w')
  then show ?case
    using host_laws.AddPeer_returns[of h good view w t a l w']
    by (auto simp: fou_ok_def fou_tunnel_def fou_has_peer_def)
next
  case (3 w a r w' b)
  then show ?case
    using host_laws.AddPeer_returns[of h good view w t a] host_laws.AddPeer_fails[of h good view w t a]
    by (cases r) (fastforce simp: fou_ok_def fou_tunnel_def fou_has_peer_def dest: fou_has_peer_added(1))+
next
  case (4 w a r w' b)
  then show ?case
    using host_laws.AddPeer_returns[of h good view w t a] host_laws.AddPeer_fails[of h good view w t a]
    by (cases r) (fastforce simp: fou_ok_def fou_tunnel_def fou_has_peer_def fou_clash_def dest: fou_has_peer_added(2))+
next
  case (5 w a e w')
  then show ?case
    using host_laws.AddPeer_fails[of h good view w t a e w']
    by (auto simp: fou_ok_def fou_tunnel_def foreign_def)
next
  case (6 w a r w')
  then show ?case
    using host_laws.DelPeer_run[of h good view w a _ t r w'] fouName_Inr_iff[of a]
    by (cases "a = AddrZero") (auto simp: fou_ok_def fou_tunnel_def DelPeer_def fouName_def)
next
  case (7 w a u w')
  then show ?case
    using host_laws.DelPeer_run[of h good view w a _ t "Inr u" w']
    by (auto simp: fou_ok_def fou_tunnel_def fou_has_peer_def)
next
  case (8 w a r w' b)
  then show ?case
    using host_laws.DelPeer_run[of h good view w a _ t r w'] fouName_Inr_iff[of a]
    by (cases "a = AddrZero"; cases r)
      (auto simp: fou_ok_def fou_tunnel_def fou_has_peer_def fou_clash_def DelPeer_def fouName_def[of AddrZero])
next
  case (9 w a e w' b)
  then show ?case
    using host_laws.DelPeer_run[of h good view w a _ t "Inl e" w'] fouName_Inr_iff[of a]
    by (cases "a = AddrZero") (auto simp: fou_ok_def fou_tunnel_def fou_has_peer_def DelPeer_def fouName_def[of AddrZero])
next
  case 10
  show ?case by (simp add: fou_clash_def)
next
  case 11
  then show ?case by (simp add: fou_clash_def fou_has_peer_def)
qed

section \<open>Properties\<close>

text \<open>
  C19. A successful \<open>Init\<close> either finds the dummy device and changes nothing, or
  prepares each family that has a local address - reverse path filtering off (IPv4),
  forwarding on, the kernel module loaded, the FoU listener on the configured port, the
  checksum rule in front of the mangle chain - and then adds the dummy device; links,
  rules and routes are otherwise untouched. So a second \<open>Init\<close> changes nothing.
\<close>

theorem fou_Init_ready:
  assumes "host_laws h good view" "good k" "fou_Init h t k = (Inr u, k')"
  shows "good k' \<and> k_links (view k') fouDummy \<noteq> None \<and>
    (if k_links (view k) fouDummy \<noteq> None then view k' = view k
     else \<exists>l. spec_LinkAdd (Dummy (NewLinkAttrs\<lparr>la_Name := fouDummy\<rparr>)) l (fou_ready t (view k)) (view k')) \<and>
    (\<forall>v k''. fou_Init h t k' = (Inr v, k'') \<longrightarrow> view k'' = view k')"
proof -
  note r = host_laws.fou_Init_returns[OF assms(1)]
  from r[OF assms(2,3)] have k': "good k'" "k_links (view k') fouDummy \<noteq> None"
    by (auto simp: spec_LinkAdd_def split: if_splits)
  then have "\<forall>v k''. fou_Init h t k' = (Inr v, k'') \<longrightarrow> view k'' = view k'" using r[OF k'(1)] by auto
  with k' r[OF assms(2,3)] show ?thesis by blast
qed

definition demo_fou :: fou_controller where
  "demo_fou = \<lparr>fc_port = 5555, fc_local4 = Some (Addr4 0x0A000001), fc_local6 = None\<rparr>"

lemma demo_fou_Init: "fst (fou_Init sim_host demo_fou sim_empty) = Inr ()"
  by code_simp

theorem fou_Init_ready_witness:
  "\<exists>k'. fou_Init sim_host demo_fou sim_empty = (Inr (), k') \<and> k_links (sim_view k') fouDummy \<noteq> None"
  using fou_Init_ready[OF sim_kernel.host_laws_axioms sim_good_empty run_pair[OF demo_fou_Init]] run_pair[OF demo_fou_Init]
  by blast

text \<open>
  C18. Adding a new peer and deleting it again gives back the namespace: apart from the
  flow-based and the fallback devices, which stay, every link and every route is as it
  was before.
\<close>

theorem AddPeer_DelPeer_roundtrip:
  assumes "host_laws h good view" "good k" "fouName a = Inr n" "k_links (view k) n = None"
    and "AddPeer h t a k = (Inr l, k1)" "DelPeer h t a k1 = (Inr u, k2)"
  shows "k_links (view k1) n = Some l \<and> (\<forall>m. m \<notin> aux_names \<longrightarrow> k_links (view k2) m = k_links (view k) m) \<and>
    k_routes (view k2) = k_routes (view k)"
  using host_laws.AddPeer_DelPeer[OF assms] host_laws.AddPeer_returns[OF assms(1,2,5)] assms(3) by auto

theorem AddPeer_DelPeer_roundtrip_witness:
  "\<exists>l k1 k2. AddPeer sim_host demo_fou (Addr4 0x0A000002) sim_empty = (Inr l, k1) \<and>
     DelPeer sim_host demo_fou (Addr4 0x0A000002) k1 = (Inr (), k2) \<and> k_routes (sim_view k2) = k_routes (sim_view sim_empty)"
proof -
  let ?a = "AddPeer sim_host demo_fou (Addr4 0x0A000002) sim_empty"
  have n: "fouName (Addr4 0x0A000002) = Inr ''fou4_0a000002''" by code_simp
  have a: "\<not> isl (fst ?a)" by code_simp
  have d: "fst (DelPeer sim_host demo_fou (Addr4 0x0A000002) (snd ?a)) = Inr ()" by code_simp
  obtain l where l: "?a = (Inr l, snd ?a)" using a by (metis prod.collapse isl_def sum.exhaust)
  have "k_links (sim_view sim_empty) ''fou4_0a000002'' = None" by (simp add: sim_view_def sim_empty_def sim_find_def)
  from AddPeer_DelPeer_roundtrip[OF sim_kernel.host_laws_axioms sim_good_empty n this l run_pair[OF d]] l run_pair[OF d]
  show ?thesis by blast
qed

text \<open>
  C29. The name of a tunnel device is 13 bytes long, which the kernel's limit of 15
  allows; no name is used for addresses of both families; two IPv4 addresses never
  share a name. Only the zero address has none.
\<close>

theorem fouName_names:
  "(\<forall>n. fouName a = Inr n \<longrightarrow> length n = 13 \<and> n \<notin> aux_names \<and> n \<noteq> fouDummy \<and> (fouName b = Inr n \<longrightarrow> Is4 a = Is4 b)) \<and>
   (Is4 a \<and> Is4 b \<and> fouName a = fouName b \<longrightarrow> a = b) \<and> ((\<exists>n. fouName a = Inr n) \<longleftrightarrow> a \<noteq> AddrZero)"
proof -
  have "a = b" if "Is4 a" "Is4 b" "fouName a = fouName b" using that fouName4_inject by (auto simp: Is4_iff)
  then show ?thesis using fouName_form[of a] fouName_not_aux[of a] fouName_families[of a _ b] fouName_Inr_iff[of a] by blast
qed

theorem fouName_names_witness:
  "fouName (Addr4 0x0A000002) = Inr ''fou4_0a000002'' \<and> length ''fou4_0a000002'' = 13 \<and> fouName (Addr4 0x0A000003) \<noteq> fouName (Addr4 0x0A000002)"
proof -
  have n: "fouName (Addr4 0x0A000002) = Inr ''fou4_0a000002''" by code_simp
  have "length ''fou4_0a000002'' = 13" using fouName_names[of "Addr4 0x0A000002"] n by blast
  moreover have "fouName (Addr4 0x0A000003) \<noteq> fouName (Addr4 0x0A000002)"
    using fouName_names[of "Addr4 0x0A000003" "Addr4 0x0A000002"] by auto
  ultimately show ?thesis using n by blast
qed

end
