(* ===== verification/Gateway.thy ===== *)
theory Gateway
  imports Fou
begin

text \<open>
  The gateway side of package \<open>nat\<close> (\<open>pkg/nat/gateway.go\<close>): at start-up a
  MASQUERADE rule and a routing rule per address family, then a host route to each
  client through its tunnel.
\<close>

section \<open>The file\<close>

definition egressTableID :: int where "egressTableID = 118"

definition egressProtocolID :: int where "egressProtocolID = 30"

definition egressRulePrio :: int where "egressRulePrio = 2000"

definition egressDummy :: string where "egressDummy = ''nat-dummy''"

record gateway =
  gt_iface :: string
  gt_ipv4 :: "addr option"
  gt_ipv6 :: "addr option"

definition NewGateway :: "string \<Rightarrow> addr option \<Rightarrow> addr option \<Rightarrow> err + gateway" where
  "NewGateway iface ipv4 ipv6 =
     (if (case ipv4 of None \<Rightarrow> False | Some a \<Rightarrow> \<not> Is4 a) then Inl (Errorf ''invalid IPv4 address'')
      else if (case ipv6 of None \<Rightarrow> False | Some a \<Rightarrow> \<not> Is6 a) then Inl (Errorf ''invalid IPv6 address'')
      else Inr \<lparr>gt_iface = iface, gt_ipv4 = ipv4, gt_ipv6 = ipv6\<rparr>)"

definition newRule :: "gateway \<Rightarrow> family \<Rightarrow> rule" where
  "newRule c family =
     (NewRule family)\<lparr>ru_IifName := gt_iface c, ru_Table := egressTableID, ru_Priority := egressRulePrio\<rparr>"

definition masquerade_spec :: "gateway \<Rightarrow> addr \<Rightarrow> string list" where
  "masquerade_spec c ip =
     (let ipn = NewIPNet (FromAddr ip) in
      [''!'', ''-s'', IPNet_String (n_IP ipn) (n_Mask ipn), ''-o'', gt_iface c, ''-j'', ''MASQUERADE''])"

definition gateway_init4 :: "'k host \<Rightarrow> gateway \<Rightarrow> addr \<Rightarrow> ('k, unit) io" where
  "gateway_init4 h c ip =
     bind_io (ipt_NewWithProtocol h FAMILY_V4) (\<lambda>_.
     bind_io (on_err (Errorw ''failed to setup masquerade rule for IPv4'')
       (ipt_Append h FAMILY_V4 ''nat'' ''POSTROUTING'' (masquerade_spec c ip))) (\<lambda>_.
     on_err (Errorw ''netlink: failed to add egress rule for IPv4'') (RuleAdd h (newRule c FAMILY_V4))))"

definition gateway_init6 :: "'k host \<Rightarrow> gateway \<Rightarrow> addr \<Rightarrow> ('k, unit) io" where
  "gateway_init6 h c ip =
     bind_io (ipt_NewWithProtocol h FAMILY_V6) (\<lambda>_.
     bind_io (on_err (Errorw ''failed to setup masquerade rule for IPv6'')
       (ipt_Append h FAMILY_V6 ''nat'' ''POSTROUTING'' (masquerade_spec c ip))) (\<lambda>_.
     on_err (Errorw ''netlink: failed to add egress rule for IPv6'') (RuleAdd h (newRule c FAMILY_V6))))"

text \<open>Here the code asserts the type of the error itself: a wrapped not-found error is not recognised.\<close>

definition gateway_Init :: "'k host \<Rightarrow> gateway \<Rightarrow> ('k, unit) io" where
  "gateway_Init h c =
     catch (LinkByName h egressDummy) (\<lambda>r. case r of
       Inr _ \<Rightarrow> ret ()
     | Inl e \<Rightarrow>
         if e \<noteq> LinkNotFoundError then throw e
         else
           bind_io (case gt_ipv4 c of None \<Rightarrow> ret () | Some ip \<Rightarrow> gateway_init4 h c ip) (\<lambda>_.
           bind_io (case gt_ipv6 c of None \<Rightarrow> ret () | Some ip \<Rightarrow> gateway_init6 h c ip) (\<lambda>_.
           bind_io (on_err (Errorw ''failed to add dummy device'')
             (LinkAdd h (Dummy (NewLinkAttrs\<lparr>la_Name := egressDummy\<rparr>)))) (\<lambda>_. ret ()))))"

definition client_route :: "addr \<Rightarrow> link \<Rightarrow> route" where
  "client_route addr link =
     zero_route\<lparr>rt_Dst := Some (NewIPNet (FromAddr addr)), rt_LinkIndex := link_index link,
       rt_Table := egressTableID, rt_Protocol := egressProtocolID\<rparr>"

definition AddClient :: "'k host \<Rightarrow> gateway \<Rightarrow> addr \<Rightarrow> link \<Rightarrow> ('k, unit) io" where
  "AddClient h c addr link =
     (if Is4 addr \<and> gt_ipv4 c = None then throw NatErrIPFamilyMismatch
      else if Is6 addr \<and> gt_ipv6 c = None then throw NatErrIPFamilyMismatch
      else
        bind_io (on_err (Errorw ''netlink: failed to list routes in table'')
          (RouteListFiltered h (if Is6 addr then FAMILY_V6 else FAMILY_V4) egressTableID)) (\<lambda>routes.
        if (\<exists>r\<in>set routes. case rt_Dst r of None \<Rightarrow> False | Some d \<Rightarrow> IP_Equal (n_IP d) (FromAddr addr))
        then ret ()
        else
          bind_io (on_err (Errorw ''netlink: failed to link up'') (LinkSetUp h link)) (\<lambda>_.
          on_err (Errorw ''netlink: failed to add route to table'') (RouteAdd h (client_route addr link)))))"

definition nat_gateway_of :: "'k host \<Rightarrow> gateway \<Rightarrow> 'k nat_gateway" where
  "nat_gateway_of h c = \<lparr>gw_Init = gateway_Init h c, gw_AddClient = AddClient h c\<rparr>"

lemma NewGateway_fields: "NewGateway i a b = Inr c \<Longrightarrow> gt_iface c = i \<and> gt_ipv4 c = a \<and> gt_ipv6 c = b"
  by (auto simp: NewGateway_def split: if_splits)

section \<open>Effects\<close>

definition routable_addr :: "addr \<Rightarrow> bool" where
  "routable_addr a \<longleftrightarrow> a \<noteq> AddrZero \<and> \<not> Is4In6 a"

definition has_client :: "('k \<Rightarrow> kern) \<Rightarrow> 'k \<Rightarrow> addr \<Rightarrow> bool" where
  "has_client view k a \<longleftrightarrow>
     (\<exists>f. \<exists>r\<in>k_routes (view k) f. rt_Table r = egressTableID \<and>
        (case rt_Dst r of None \<Rightarrow> False | Some d \<Rightarrow> IP_Equal (n_IP d) (FromAddr a)))"

text \<open>Links stay, routes are only added.\<close>

definition routes_grow :: "kern \<Rightarrow> kern \<Rightarrow> bool" where
  "routes_grow K K' \<longleftrightarrow> k_links K' = k_links K \<and> (\<forall>f. k_routes K f \<subseteq> k_routes K' f)"

lemma routes_grow_order [simp]: "reflp routes_grow" "transp routes_grow"
  by (auto simp: reflp_def transp_def routes_grow_def)

lemma IP_Equal_refl [simp]: "IP_Equal a a"
  by (simp add: IP_Equal_def)

lemma replicate_ff: "cidr_bytes (8 * int l) l = replicate l 0xff"
  by (induction l) (auto simp: algebra_simps)

lemma CIDRMask_full [simp]: "CIDRMask 32 32 = replicate 4 0xff" "CIDRMask 128 128 = replicate 16 0xff"
  using replicate_ff[of 4] replicate_ff[of 16] by (simp_all add: CIDRMask_def)

lemma byte_and_ff [simp]: "and b 0xff = (b :: byte)"
proof -
  have "(0xff :: byte) = - 1" by simp
  then have "and b 0xff = and b (- 1)" by (rule arg_cong)
  then show ?thesis by (simp only: and.right_neutral)
qed

lemma NewIPNet_host: "routable_addr a \<Longrightarrow> no_host_bits (NewIPNet (FromAddr a)) \<and> n_IP (NewIPNet (FromAddr a)) = FromAddr a"
  by (cases a) (auto simp: routable_addr_def NewIPNet_def FromAddr_def no_host_bits_def list_all2_conv_all_nth To4_def)

context host_laws
begin

lemma AddClient_within:
  "within good view routes_grow (AddClient h c a l)"
proof -
  have "foreign NatErrIPFamilyMismatch" by (simp add: foreign_def)
  then have "within good view routes_grow (throw NatErrIPFamilyMismatch :: ('k, unit) io)" by (rule within_throw[rotated]) simp
  moreover have "within good view routes_grow (RouteListFiltered h f egressTableID)" for f
    by (rule meets_within[OF RouteListFiltered])
      (auto simp: spec_RouteListFiltered_def unchanged_def intro: reflpD[OF routes_grow_order(1)])
  moreover have "within good view routes_grow (LinkSetUp h l)"
    by (rule meets_within[OF LinkSetUp]) (auto simp: spec_LinkSetUp_def unchanged_def routes_grow_def)
  moreover have "within good view routes_grow (RouteAdd h r)" for r
    by (rule meets_within[OF RouteAdd]) (auto simp: spec_RouteAdd_def unchanged_def routes_grow_def)
  ultimately show ?thesis
    unfolding AddClient_def by (auto intro!: within_bind within_on_err)
qed

lemma AddClient_returns:
  assumes g: "good k" and a: "routable_addr a" and c: "AddClient h c a l k = (Inr u, k')"
  shows "has_client view k' a"
proof -
  let ?f = "if Is6 a then FAMILY_V6 else FAMILY_V4"
  from c obtain rs k1 where rs: "RouteListFiltered h ?f egressTableID k = (Inr rs, k1)"
    and rest: "(\<exists>r\<in>set rs. case rt_Dst r of None \<Rightarrow> False | Some d \<Rightarrow> IP_Equal (n_IP d) (FromAddr a)) \<and> k' = k1 \<or>
      (\<exists>v k2. LinkSetUp h l k1 = (Inr v, k2) \<and> RouteAdd h (client_route a l) k2 = (Inr u, k'))"
    by (auto simp: AddClient_def io_inv split: if_splits)
  from meets_Inr[OF RouteListFiltered rs g] obtain ls where k1: "good k1" "view k1 = view k"
    and ls: "set ls = {r \<in> k_routes (view k) ?f. rt_Table r = egressTableID}" "list_all2 (shown_as ?f) ls rs"
    by (auto simp: spec_RouteListFiltered_def)
  from rest show ?thesis
  proof (elim disjE conjE exE bexE)
    fix r
    assume k': "k' = k1" and r: "r \<in> set rs" "case rt_Dst r of None \<Rightarrow> False | Some d \<Rightarrow> IP_Equal (n_IP d) (FromAddr a)"
    from r(1) ls(2) obtain q where "q \<in> set ls" "shown_as ?f q r"
      by (metis in_set_conv_nth list_all2_conv_all_nth)
    with r(2) have "r \<in> set ls" by (auto simp: shown_as_def split: option.splits)
    with r(2) ls(1) show ?thesis unfolding has_client_def k' k1(2) by blast
  next
    fix v k2
    assume up: "LinkSetUp h l k1 = (Inr v, k2)" and add: "RouteAdd h (client_route a l) k2 = (Inr u, k')"
    from meets_Inr[OF LinkSetUp up k1(1)] have "good k2" by simp
    from meets_Inr[OF RouteAdd add this] obtain s where s: "stored_route (client_route a l) s"
      and in': "s \<in> k_routes (view k') (route_family (client_route a l))"
      by (auto simp: spec_RouteAdd_def)
    from s NewIPNet_host[OF a] have "rt_Table s = egressTableID" "rt_Dst s = Some (NewIPNet (FromAddr a))"
      by (auto simp: stored_route_def client_route_def zero_route_def)
    with in' NewIPNet_host[OF a] show ?thesis unfolding has_client_def by fastforce
  qed
qed

end

section \<open>Start-up\<close>

definition gateway_ready_family :: "gateway \<Rightarrow> family \<Rightarrow> addr \<Rightarrow> kern \<Rightarrow> kern" where
  "gateway_ready_family c f ip K =
     (set_chain f ''nat'' ''POSTROUTING'' (k_chains K f ''nat'' ''POSTROUTING'' @ [masquerade_spec c ip]) K)
       \<lparr>k_rules := (k_rules K)(f := add_mset (newRule c f) (k_rules K f))\<rparr>"

definition gateway_ready :: "gateway \<Rightarrow> kern \<Rightarrow> kern" where
  "gateway_ready c K =
     (case gt_ipv6 c of None \<Rightarrow> id | Some ip \<Rightarrow> gateway_ready_family c FAMILY_V6 ip)
       ((case gt_ipv4 c of None \<Rightarrow> id | Some ip \<Rightarrow> gateway_ready_family c FAMILY_V4 ip) K)"

lemma newRule_fields: "rule_canon (newRule c f) = newRule c f" "ru_Family (newRule c f) = f"
  by (simp_all add: newRule_def NewRule_def rule_canon_def)

context host_laws
begin

lemma gateway_init_family:
  assumes g: "good k" and c: "bind_io (ipt_NewWithProtocol h f) (\<lambda>_.
     bind_io (on_err e1 (ipt_Append h f ''nat'' ''POSTROUTING'' (masquerade_spec c ip))) (\<lambda>_.
     on_err e2 (RuleAdd h (newRule c f)))) k = (Inr u, k')"
  shows "good k' \<and> view k' = gateway_ready_family c f ip (view k)"
proof -
  from c obtain v k1 k2 where n: "ipt_NewWithProtocol h f k = (Inr v, k1)"
    and a: "ipt_Append h f ''nat'' ''POSTROUTING'' (masquerade_spec c ip) k1 = (Inr (), k2)" and r: "RuleAdd h (newRule c f) k2 = (Inr u, k')"
    by (auto simp: io_inv)
  from meets_Inr[OF ipt_New n g] have k1: "good k1" "view k1 = view k" by (auto simp: spec_none_def)
  from meets_Inr[OF ipt_Append a k1(1)] k1(2) have k2: "good k2"
    "view k2 = set_chain f ''nat'' ''POSTROUTING'' (k_chains (view k) f ''nat'' ''POSTROUTING'' @ [masquerade_spec c ip]) (view k)"
    by (auto simp: spec_ipt_Append_def)
  from meets_Inr[OF RuleAdd r k2(1)] k2(2) show ?thesis
    by (simp add: spec_RuleAdd_def newRule_fields gateway_ready_family_def set_chain_def)
qed

lemma gateway_Init_returns:
  assumes g: "good k" and c: "gateway_Init h c k = (Inr u, k')"
  shows "good k' \<and>
    (if k_links (view k) egressDummy \<noteq> None then view k' = view k
     else \<exists>l. spec_LinkAdd (Dummy (NewLinkAttrs\<lparr>la_Name := egressDummy\<rparr>)) l (gateway_ready c (view k)) (view k'))"
proof -
  from c consider (there) l where "LinkByName h egressDummy k = (Inr l, k')"
    | (new) k0 v k1 w k2 x where "LinkByName h egressDummy k = (Inl LinkNotFoundError, k0)"
        "(case gt_ipv4 c of None \<Rightarrow> ret () | Some ip \<Rightarrow> gateway_init4 h c ip) k0 = (Inr v, k1)"
        "(case gt_ipv6 c of None \<Rightarrow> ret () | Some ip \<Rightarrow> gateway_init6 h c ip) k1 = (Inr w, k2)"
        "LinkAdd h (Dummy (NewLinkAttrs\<lparr>la_Name := egressDummy\<rparr>)) k2 = (Inr x, k')"
    by (auto simp: gateway_Init_def catch_cases bind_io_Inr on_err_Inr split: if_splits)
  then show ?thesis
  proof cases
    case there
    from meets_Inr[OF LinkByName this g] show ?thesis by (auto simp: spec_LinkByName_def)
  next
    case new
    from meets_Inl[OF LinkByName new(1) g] have k0: "good k0" "view k0 = view k" "k_links (view k) egressDummy = None"
      by (auto simp: fail_LinkByName_def)
    from new(2) gateway_init_family[OF k0(1)] k0 have k1: "good k1"
      "view k1 = (case gt_ipv4 c of None \<Rightarrow> id | Some ip \<Rightarrow> gateway_ready_family c FAMILY_V4 ip) (view k)"
      by (auto simp: gateway_init4_def split: option.splits)
    from new(3) gateway_init_family[OF k1(1)] k1 have k2: "good k2" "view k2 = gateway_ready c (view k)"
      by (auto simp: gateway_init6_def gateway_ready_def split: option.splits)
    from meets_Inr[OF LinkAdd new(4) k2(1)] k2(2) k0(3) show ?thesis by auto
  qed
qed

end

section \<open>The contract of the gateway\<close>

lemma has_client_grow: "(\<And>f. k_routes (view k) f \<subseteq> k_routes (view k') f) \<Longrightarrow> has_client view k a \<Longrightarrow> has_client view k' a"
  unfolding has_client_def by blast

lemma fou_has_peer_links: "k_links (view k') = k_links (view k) \<Longrightarrow> fou_has_peer view k' b = fou_has_peer view k b"
  by (simp add: fou_has_peer_def)

lemma AddClient_run:
  assumes "fou_ok h good view w" "gw_AddClient (nat_gateway_of h c) a l w = (q, w')"
  shows "fou_ok h good view w' \<and> routes_grow (view w) (view w')"
  using assms within_run[OF host_laws.AddClient_within, of h good view c a l w q w']
  by (auto simp: fou_ok_def nat_gateway_of_def)

interpretation gw: gateway_laws "nat_gateway_of h c" "fou_ok h good view" "fou_has_peer view" routable_addr "has_client view"
  for h :: "'k host" and good view c
proof (unfold_locales, goal_cases)
  case (1 w a l q w')
  then show ?case using AddClient_run[OF 1(1,2)] by blast
next
  case (2 w a l u w')
  then show ?case
    using host_laws.AddClient_returns[of h good view w a c l u w'] by (auto simp: fou_ok_def nat_gateway_of_def)
next
  case (3 w a l q w' b)
  then show ?case using AddClient_run[OF 3(1,2)] has_client_grow[of view w w' b] by (auto simp: routes_grow_def)
next
  case (4 w a l q w' b)
  then show ?case using AddClient_run[OF 4(1,2)] fou_has_peer_links[of view w' w b] by (auto simp: routes_grow_def)
qed

interpretation net: gateway_net "fou_tunnel h t" "nat_gateway_of h c" "fou_ok h good view" "fou_has_peer view"
    "fou_supports t" fou_clash routable_addr "has_client view"
  for h :: "'k host" and good view t c
proof (unfold_locales, goal_cases)
  case (1 w a r w' b)
  then have "k_routes (view w') = k_routes (view w)"
    using host_laws.AddPeer_returns[of h good view w t a] host_laws.AddPeer_fails[of h good view w t a]
    by (cases r) (fastforce simp: fou_ok_def fou_tunnel_def peer_added_def)+
  with 1(3) show ?case by (simp add: has_client_def)
qed

section \<open>Properties\<close>

text \<open>
  C20. A successful \<open>Init\<close> of the gateway either finds its dummy device and changes
  nothing, or appends for each family with an address one MASQUERADE rule to the nat
  chain and one rule that sends what comes in on the interface to table 118, and adds
  the dummy device. A further \<open>Init\<close> changes nothing, so the rules are never doubled.
\<close>

theorem gateway_Init_ready:
  assumes "host_laws h good view" "good k" "gateway_Init h c k = (Inr u, k')"
  shows "good k' \<and> k_links (view k') egressDummy \<noteq> None \<and>
    (if k_links (view k) egressDummy \<noteq> None then view k' = view k
     else \<exists>l. spec_LinkAdd (Dummy (NewLinkAttrs\<lparr>la_Name := egressDummy\<rparr>)) l (gateway_ready c (view k)) (view k')) \<and>
    (\<forall>v k''. gateway_Init h c k' = (Inr v, k'') \<longrightarrow> view k'' = view k')"
proof -
  note r = host_laws.gateway_Init_returns[OF assms(1)]
  from r[OF assms(2,3)] have k': "good k'" "k_links (view k') egressDummy \<noteq> None"
    by (auto simp: spec_LinkAdd_def split: if_splits)
  then have "\<forall>v k''. gateway_Init h c k' = (Inr v, k'') \<longrightarrow> view k'' = view k'" using r[OF k'(1)] by auto
  with k' r[OF assms(2,3)] show ?thesis by blast
qed

definition demo_gateway :: gateway where
  "demo_gateway = \<lparr>gt_iface = ''eth0'', gt_ipv4 = Some (Addr4 0x0A000001), gt_ipv6 = None\<rparr>"

lemma demo_gateway_Init: "fst (gateway_Init sim_host demo_gateway sim_empty) = Inr ()"
  by code_simp

theorem gateway_Init_ready_witness:
  "\<exists>k'. gateway_Init sim_host demo_gateway sim_empty = (Inr (), k') \<and> k_links (sim_view k') egressDummy \<noteq> None"
  using gateway_Init_ready[OF sim_kernel.host_laws_axioms sim_good_empty run_pair[OF demo_gateway_Init]] run_pair[OF demo_gateway_Init]
  by blast

end
