(* ===== verification/Mocks.thy ===== *)
theory Mocks
  imports Tunnel
begin

text \<open>
  The in-memory implementations of the two interfaces that the repository's own tests
  use: \<open>pkg/tunnel/mock/mock.go\<close> and \<open>pkg/nat/mock/mock.go\<close>. Both maps live in
  one world.
\<close>

record mock_world =
  mw_Tunnels :: "addr fset"
  mw_Clients :: "addr \<Rightarrow> string option"

definition NewMocks :: mock_world where
  "NewMocks = \<lparr>mw_Tunnels = {||}, mw_Clients = (\<lambda>_. None)\<rparr>"

definition mock_link :: link where
  "mock_link = Dummy \<lparr>la_Name = ''dummy'', la_Index = 1, la_TxQLen = 0\<rparr>"

definition mock_AddPeer :: "addr \<Rightarrow> (mock_world, link) io" where
  "mock_AddPeer addr m = (Inr mock_link, m\<lparr>mw_Tunnels := finsert addr (mw_Tunnels m)\<rparr>)"

definition mock_DelPeer :: "addr \<Rightarrow> (mock_world, unit) io" where
  "mock_DelPeer addr m = (Inr (), m\<lparr>mw_Tunnels := mw_Tunnels m |-| {|addr|}\<rparr>)"

definition mock_tunnel :: "mock_world tunnel_controller" where
  "mock_tunnel =
     \<lparr>tun_Init = ret (), tun_IsInitialized = ret True, tun_AddPeer = mock_AddPeer, tun_DelPeer = mock_DelPeer\<rparr>"

text \<open>The attributes of a link value are never nil here, so the check before the insertion passes.\<close>

definition mock_AddClient :: "addr \<Rightarrow> link \<Rightarrow> (mock_world, unit) io" where
  "mock_AddClient addr link m = (Inr (), m\<lparr>mw_Clients := (mw_Clients m)(addr \<mapsto> link_name link)\<rparr>)"

definition mock_nat :: "mock_world nat_gateway" where
  "mock_nat = \<lparr>gw_Init = ret (), gw_AddClient = mock_AddClient\<rparr>"

definition mock_has_peer :: "mock_world \<Rightarrow> addr \<Rightarrow> bool" where
  "mock_has_peer m a \<longleftrightarrow> a |\<in>| mw_Tunnels m"

definition mock_has_client :: "mock_world \<Rightarrow> addr \<Rightarrow> bool" where
  "mock_has_client m a \<longleftrightarrow> mw_Clients m a \<noteq> None"

lemmas mock_defs = mock_tunnel_def mock_nat_def mock_AddPeer_def mock_DelPeer_def mock_AddClient_def
  mock_has_peer_def mock_has_client_def

interpretation mock: gateway_net mock_tunnel mock_nat "\<lambda>_. True" mock_has_peer "\<lambda>_. True" "(=)" "\<lambda>_. True" mock_has_client
  by unfold_locales (auto simp: mock_defs)

end
