(* ===== verification/PodWatcher.thy ===== *)
theory PodWatcher
  imports Gateway Mocks
begin

text \<open>
  The pod watcher of the gateway (\<open>internal/controller/pod_watcher.go\<close>): for each pod
  that asks for this egress it keeps a tunnel and a NAT client per pod IP. Its state
  is two maps, pod to addresses and address to pods, and the network behind the
  interfaces \<open>tunnel.Controller\<close> and \<open>nat.Gateway\<close>. The handlers hold a mutex for
  their whole body, so they run one after the other.
\<close>

section \<open>Data\<close>

record pod =
  pod_Namespace :: string
  pod_Name :: string
  pod_Annotations :: "(string \<times> string) list"
  pod_HostNetwork :: bool
  pod_PodIPs :: "string list"
  pod_Phase :: string
  pod_DeletionTimestamp :: "string option"

record 'w pod_watcher =
  pw_EgressName :: string
  pw_EgressNamespace :: string
  pw_podToPodIPs :: "nsname \<Rightarrow> addr list option"
  pw_podIPToPod :: "addr \<Rightarrow> nsname fset option"
  pw_world :: 'w

definition NewPodWatcher :: "string \<Rightarrow> string \<Rightarrow> 'w \<Rightarrow> 'w pod_watcher" where
  "NewPodWatcher egressName egressNamespace w =
     \<lparr>pw_EgressName = egressName, pw_EgressNamespace = egressNamespace,
      pw_podToPodIPs = (\<lambda>_. None), pw_podIPToPod = (\<lambda>_. None), pw_world = w\<rparr>"

definition EgressAnnotationPrefix :: string where
  "EgressAnnotationPrefix = ''egress.pona.cybozu.com/''"

definition pod_key :: "pod \<Rightarrow> nsname" where
  "pod_key p = \<lparr>nn_Namespace = pod_Namespace p, nn_Name = pod_Name p\<rparr>"

section \<open>Which pods\<close>

definition isTerminated :: "pod \<Rightarrow> bool" where
  "isTerminated pod \<longleftrightarrow> pod_Phase pod = ''Succeeded'' \<or> pod_Phase pod = ''Failed''"

text \<open>The list is the annotations in the order \<open>range\<close> visits them.\<close>

fun annotation_loop :: "'w pod_watcher \<Rightarrow> (string \<times> string) list \<Rightarrow> bool" where
  "annotation_loop r [] = False"
| "annotation_loop r ((k, name) # rest) =
     (if \<not> HasPrefix k EgressAnnotationPrefix then annotation_loop r rest
      else if drop (length EgressAnnotationPrefix) k \<noteq> pw_EgressNamespace r then annotation_loop r rest
      else if name = pw_EgressName r then True
      else if (\<exists>n\<in>set (Split name CHR '',''). n = pw_EgressNamespace r) then True
      else annotation_loop r rest)"

definition hasEgressAnnotation :: "'w pod_watcher \<Rightarrow> pod \<Rightarrow> bool" where
  "hasEgressAnnotation r pod = annotation_loop r (pod_Annotations pod)"

definition shouldHandle :: "'w pod_watcher \<Rightarrow> pod \<Rightarrow> bool" where
  "shouldHandle r pod = (if pod_HostNetwork pod then False else hasEgressAnnotation r pod)"

section \<open>Handlers\<close>

abbreviation on_world :: "('w, 'a) io \<Rightarrow> ('w pod_watcher, 'a) io" where
  "on_world \<equiv> lift_io pw_world (\<lambda>w r. r\<lparr>pw_world := w\<rparr>)"

fun parse_ips :: "string list \<Rightarrow> err + addr list" where
  "parse_ips [] = Inr []"
| "parse_ips (v # vs) =
     (case ParseAddr v of Inl e \<Rightarrow> Inl e
      | Inr a \<Rightarrow> (case parse_ips vs of Inl e \<Rightarrow> Inl e | Inr as \<Rightarrow> Inr (a # as)))"

definition existing_ips :: "'w pod_watcher \<Rightarrow> nsname \<Rightarrow> addr list" where
  "existing_ips r key = (case pw_podToPodIPs r key of None \<Rightarrow> [] | Some ips \<Rightarrow> ips)"

definition running_add :: "'w tunnel_controller \<Rightarrow> 'w nat_gateway \<Rightarrow> addr list \<Rightarrow> addr \<Rightarrow> ('w, unit) io" where
  "running_add tun gw existing ip =
     (if ip \<in> set existing then ret ()
      else catch (tun_AddPeer tun ip) (\<lambda>q. case q of
          Inl e \<Rightarrow> if errors_Is e ErrIPFamilyMismatch then ret () else throw e
        | Inr link \<Rightarrow> on_err (Errorw ''failed to setup NAT'') (gw_AddClient gw ip link)))"

definition running_del :: "'w tunnel_controller \<Rightarrow> addr list \<Rightarrow> addr \<Rightarrow> ('w, unit) io" where
  "running_del tun statusPodIPs eip = (if eip \<in> set statusPodIPs then ret () else tun_DelPeer tun eip)"

definition add_key :: "nsname \<Rightarrow> addr \<Rightarrow> (addr \<Rightarrow> nsname fset option) \<Rightarrow> (addr \<Rightarrow> nsname fset option)" where
  "add_key key ip m =
     (case m ip of None \<Rightarrow> m(ip \<mapsto> {|key|}) | Some keySet \<Rightarrow> m(ip \<mapsto> finsert key keySet))"

definition record_ips :: "nsname \<Rightarrow> addr list \<Rightarrow> 'w pod_watcher \<Rightarrow> 'w pod_watcher" where
  "record_ips podKey ips r =
     r\<lparr>pw_podToPodIPs := (pw_podToPodIPs r)(podKey \<mapsto> ips),
       pw_podIPToPod := fold (add_key podKey) ips (pw_podIPToPod r)\<rparr>"

definition handlePodRunning :: "'w tunnel_controller \<Rightarrow> 'w nat_gateway \<Rightarrow> pod \<Rightarrow> ('w pod_watcher, unit) io" where
  "handlePodRunning tun gw pod r =
     (let podKey = pod_key pod; existing = existing_ips r podKey in
      case parse_ips (pod_PodIPs pod) of
        Inl e \<Rightarrow> (Inl e, r)
      | Inr statusPodIPs \<Rightarrow>
          bind_io (on_world (for_each (running_add tun gw existing) statusPodIPs)) (\<lambda>_.
          bind_io (on_world (for_each (running_del tun statusPodIPs) existing)) (\<lambda>_ r'.
          (Inr (), record_ips podKey statusPodIPs r'))) r)"

definition existsOtherLiveTunnels :: "'w pod_watcher \<Rightarrow> nsname \<Rightarrow> addr \<Rightarrow> err + bool" where
  "existsOtherLiveTunnels r key ip =
     (case pw_podIPToPod r ip of
        Some keySet \<Rightarrow>
          if key |\<in>| keySet then Inr (fcard keySet > 1)
          else Inl (Errorf ''keySet in the podIPToPod does not contain my key'')
      | None \<Rightarrow> Inl (Errorf ''podIPToPod does not contain my IP''))"

definition drop_key :: "nsname \<Rightarrow> addr \<Rightarrow> (addr \<Rightarrow> nsname fset option) \<Rightarrow> (addr \<Rightarrow> nsname fset option)" where
  "drop_key key ip m =
     (case m ip of None \<Rightarrow> m
      | Some keySet \<Rightarrow> if keySet |-| {|key|} = {||} then m(ip := None) else m(ip \<mapsto> keySet |-| {|key|}))"

definition deletion_step :: "'w tunnel_controller \<Rightarrow> nsname \<Rightarrow> addr \<Rightarrow> ('w pod_watcher, unit) io" where
  "deletion_step tun key ip r =
     (case existsOtherLiveTunnels r key ip of
        Inl e \<Rightarrow> (Inl e, r)
      | Inr ex \<Rightarrow>
          bind_io (if \<not> ex then on_world (tun_DelPeer tun ip) else ret ()) (\<lambda>_ r'.
          (Inr (), r'\<lparr>pw_podIPToPod := drop_key key ip (pw_podIPToPod r')\<rparr>)) r)"

definition handlePodDeletion :: "'w tunnel_controller \<Rightarrow> nsname \<Rightarrow> ('w pod_watcher, unit) io" where
  "handlePodDeletion tun key r =
     bind_io (for_each (deletion_step tun key) (existing_ips r key)) (\<lambda>_ r'.
     (Inr (), r'\<lparr>pw_podToPodIPs := (pw_podToPodIPs r')(key := None)\<rparr>)) r"

text \<open>\<open>got\<close> is what the API client returns for the request.\<close>

definition Reconcile :: "'w tunnel_controller \<Rightarrow> 'w nat_gateway \<Rightarrow> (err + pod) \<Rightarrow> nsname \<Rightarrow> ('w pod_watcher, unit) io" where
  "Reconcile tun gw got req r =
     (case got of
        Inl e \<Rightarrow>
          if IsNotFound e then on_err (Errorw ''failed to remove tunnel'') (handlePodDeletion tun req) r
          else (Inl (Errorw ''failed to get Pod'' e), r)
      | Inr pod \<Rightarrow>
          if \<not> shouldHandle r pod then (Inr (), r)
          else if isTerminated pod \<or> pod_DeletionTimestamp pod \<noteq> None then
            on_err (Errorw ''failed to remove tunnel for terminated pod'') (handlePodDeletion tun req) r
          else on_err (Errorw ''failed to setup tunnel'') (handlePodRunning tun gw pod) r)"

section \<open>The two maps\<close>

definition keyset :: "(addr \<Rightarrow> nsname fset option) \<Rightarrow> addr \<Rightarrow> nsname fset" where
  "keyset m ip = (case m ip of None \<Rightarrow> {||} | Some S \<Rightarrow> S)"

definition tracked :: "'w pod_watcher \<Rightarrow> addr \<Rightarrow> bool" where
  "tracked r ip \<longleftrightarrow> (\<exists>key. ip \<in> set (existing_ips r key))"

text \<open>The maps are each other's inverse, and no entry is an empty set.\<close>

definition maps_ok :: "'w pod_watcher \<Rightarrow> bool" where
  "maps_ok r \<longleftrightarrow>
     (\<forall>key ip. key |\<in>| keyset (pw_podIPToPod r) ip \<longleftrightarrow> ip \<in> set (existing_ips r key)) \<and>
     (\<forall>ip. pw_podIPToPod r ip \<noteq> Some {||}) \<and> (\<forall>key. distinct (existing_ips r key))"

lemma add_key_at: "add_key k ip m x = (if x = ip then Some (finsert k (keyset m ip)) else m x)"
  by (auto simp: add_key_def keyset_def split: option.splits)

lemma fold_add_key: "fold (add_key k) ips m x = (if x \<in> set ips then Some (finsert k (keyset m x)) else m x)"
  by (induction ips arbitrary: m) (auto simp: add_key_at keyset_def)

lemma drop_key_at:
  "drop_key k ip m x =
     (if x = ip then (if keyset m ip |-| {|k|} = {||} then None else Some (keyset m ip |-| {|k|})) else m x)"
  by (auto simp: drop_key_def keyset_def split: option.splits)

lemma keyset_drop_key: "keyset (drop_key k ip m) x = (if x = ip then keyset m x |-| {|k|} else keyset m x)"
  by (cases "x = ip") (auto simp: keyset_def[of "drop_key k ip m"] drop_key_at, simp_all add: keyset_def)

lemma keyset_fold_drop_key:
  "keyset (fold (drop_key k) ips m) x = (if x \<in> set ips then keyset m x |-| {|k|} else keyset m x)"
  by (induction ips arbitrary: m) (auto simp: keyset_drop_key)

lemma keyset_fold_add_key:
  "keyset (fold (add_key k) ips m) x = (if x \<in> set ips then finsert k (keyset m x) else keyset m x)"
  by (simp add: keyset_def[of "fold (add_key k) ips m"] fold_add_key) (simp add: keyset_def)

lemma drop_key_empty: "\<forall>ip. m ip \<noteq> Some {||} \<Longrightarrow> drop_key k x m ip \<noteq> Some {||}"
  by (auto simp: drop_key_at)

lemma fold_drop_key_empty: "\<forall>ip. m ip \<noteq> Some {||} \<Longrightarrow> \<forall>ip. fold (drop_key k) ips m ip \<noteq> Some {||}"
  by (induction ips arbitrary: m) (auto simp: drop_key_empty)

lemma existing_record [simp]:
  "existing_ips (record_ips key ips r) k = (if k = key then ips else existing_ips r k)"
  by (simp add: existing_ips_def record_ips_def)

lemma maps_ok_record:
  assumes "maps_ok r" "distinct ips" "set (existing_ips r key) \<subseteq> set ips"
  shows "maps_ok (record_ips key ips r)"
proof -
  have "pw_podIPToPod (record_ips key ips r) = fold (add_key key) ips (pw_podIPToPod r)" by (simp add: record_ips_def)
  with assms show ?thesis
    unfolding maps_ok_def existing_record by (auto simp: keyset_fold_add_key fold_add_key)
qed

lemma maps_ok_new [simp]: "maps_ok (NewPodWatcher n ns w)"
  by (simp add: maps_ok_def NewPodWatcher_def keyset_def existing_ips_def)

lemma maps_ok_world [simp]: "maps_ok (r\<lparr>pw_world := w\<rparr>) = maps_ok r"
  by (simp add: maps_ok_def existing_ips_def)

text \<open>What a completed deletion makes of the maps.\<close>

definition forget :: "nsname \<Rightarrow> 'w pod_watcher \<Rightarrow> 'w pod_watcher" where
  "forget key r =
     r\<lparr>pw_podToPodIPs := (pw_podToPodIPs r)(key := None),
       pw_podIPToPod := fold (drop_key key) (existing_ips r key) (pw_podIPToPod r)\<rparr>"

lemma existing_forget [simp]: "existing_ips (forget key r) k = (if k = key then [] else existing_ips r k)"
  by (simp add: existing_ips_def forget_def)

lemma maps_ok_forget: "maps_ok r \<Longrightarrow> maps_ok (forget key r)"
proof -
  assume m: "maps_ok r"
  have "pw_podIPToPod (forget key r) = fold (drop_key key) (existing_ips r key) (pw_podIPToPod r)" by (simp add: forget_def)
  with m fold_drop_key_empty[of "pw_podIPToPod r" key "existing_ips r key"] show ?thesis
    unfolding maps_ok_def existing_forget by (auto simp: keyset_fold_drop_key)
qed

lemma existsOther_ok:
  assumes "key |\<in>| keyset (pw_podIPToPod r) ip"
  shows "existsOtherLiveTunnels r key ip = Inr (keyset (pw_podIPToPod r) ip \<noteq> {|key|})"
proof -
  from assms obtain S where S: "pw_podIPToPod r ip = Some S" "key |\<in>| S" by (auto simp: keyset_def split: option.splits)
  from mk_disjoint_finsert[OF S(2)] obtain T where T: "S = finsert key T" "key |\<notin>| T" by blast
  then have "fcard S > 1 \<longleftrightarrow> S \<noteq> {|key|}"
    by (cases "T = {||}") (auto simp: fcard_finsert_disjoint fcard_0_eq intro: gr0I)
  with S show ?thesis by (simp add: existsOtherLiveTunnels_def keyset_def)
qed

section \<open>The handlers over any network that keeps the contracts\<close>

lemma running_del_none:
  "set es \<subseteq> set ips \<Longrightarrow> for_each (running_del tun ips) es w = (q, w') \<longleftrightarrow> q = Inr () \<and> w' = w"
  by (induction es arbitrary: w) (auto simp: running_del_def bind_io_def ret_def)

text \<open>A run of \<open>handlePodRunning\<close> that drops no address.\<close>

lemma handlePodRunning_grow:
  assumes "parse_ips (pod_PodIPs p) = Inr ips" "set (existing_ips r (pod_key p)) \<subseteq> set ips"
  shows "handlePodRunning tun gw p r =
    (case for_each (running_add tun gw (existing_ips r (pod_key p))) ips (pw_world r) of
       (Inl e, w) \<Rightarrow> (Inl e, r\<lparr>pw_world := w\<rparr>)
     | (Inr _, w) \<Rightarrow> (Inr (), record_ips (pod_key p) ips (r\<lparr>pw_world := w\<rparr>)))"
proof -
  have none: "for_each (running_del tun ips) (existing_ips r (pod_key p)) w = (Inr (), w)" for w
    using running_del_none[OF assms(2), of tun w] by blast
  show ?thesis
    by (auto simp: handlePodRunning_def Let_def assms(1) bind_io_def lift_io_def none split: prod.splits sum.splits)
qed

text \<open>The pod is the only one with this address.\<close>

definition alone :: "'w pod_watcher \<Rightarrow> nsname \<Rightarrow> addr \<Rightarrow> bool" where
  "alone r key a \<longleftrightarrow> keyset (pw_podIPToPod r) a = {|key|}"

context tunnel_laws
begin

text \<open>One round of the deletion loop, and the loop: which peers are left.\<close>

lemma deletion_step_returns:
  assumes w: "ok (pw_world r)" and k: "key |\<in>| keyset (pw_podIPToPod r) ip" and c: "deletion_step tun key ip r = (Inr u, r')"
  shows "ok (pw_world r') \<and> r' = r\<lparr>pw_world := pw_world r', pw_podIPToPod := drop_key key ip (pw_podIPToPod r)\<rparr> \<and>
    (\<forall>b. has_peer (pw_world r') b \<longleftrightarrow> has_peer (pw_world r) b \<and> \<not> (alone r key ip \<and> clash ip b))"
proof (cases "alone r key ip")
  case True
  with existsOther_ok[OF k] have "existsOtherLiveTunnels r key ip = Inr False" by (simp add: alone_def)
  with c obtain v w' where d: "tun_DelPeer tun ip (pw_world r) = (Inr v, w')"
    and r': "r' = r\<lparr>pw_world := w', pw_podIPToPod := drop_key key ip (pw_podIPToPod r)\<rparr>"
    by (auto simp: deletion_step_def bind_io_Inr lift_io_eq)
  have "has_peer w' b \<longleftrightarrow> has_peer (pw_world r) b \<and> \<not> clash ip b" for b
    using del_gone[OF w d] del_frame[OF w d, of b] clash_peer[OF del_ok[OF w d], of ip b] by blast
  with True r' del_ok[OF w d] show ?thesis by simp
next
  case False
  with existsOther_ok[OF k] have "existsOtherLiveTunnels r key ip = Inr True" by (simp add: alone_def)
  with c w False show ?thesis by (auto simp: deletion_step_def bind_io_Inr)
qed

lemma deletion_loop_returns:
  assumes "ok (pw_world r)" "distinct ips" "\<forall>ip\<in>set ips. key |\<in>| keyset (pw_podIPToPod r) ip"
    and c: "for_each (deletion_step tun key) ips r = (Inr u, r')"
  shows "ok (pw_world r') \<and> r' = r\<lparr>pw_world := pw_world r', pw_podIPToPod := fold (drop_key key) ips (pw_podIPToPod r)\<rparr> \<and>
    (\<forall>b. has_peer (pw_world r') b \<longleftrightarrow> has_peer (pw_world r) b \<and> \<not> (\<exists>a\<in>set ips. alone r key a \<and> clash a b))"
  using assms
proof (induction ips arbitrary: r)
  case Nil
  then show ?case by auto
next
  case (Cons x xs)
  from Cons.prems(4) obtain v t where step: "deletion_step tun key x r = (Inr v, t)"
    and rest: "for_each (deletion_step tun key) xs t = (Inr u, r')" by (auto simp: bind_io_Inr)
  from deletion_step_returns[OF Cons.prems(1) _ step] Cons.prems(3) have t: "ok (pw_world t)"
    and tr: "t = r\<lparr>pw_world := pw_world t, pw_podIPToPod := drop_key key x (pw_podIPToPod r)\<rparr>"
    and peers: "\<And>b. has_peer (pw_world t) b \<longleftrightarrow> has_peer (pw_world r) b \<and> \<not> (alone r key x \<and> clash x b)" by auto
  from tr have m: "pw_podIPToPod t = drop_key key x (pw_podIPToPod r)"
    by (metis pod_watcher.select_convs(4) pod_watcher.surjective pod_watcher.update_convs(4))
  have al: "alone t key a = alone r key a" if "a \<in> set xs" for a
    using that Cons.prems(2) by (auto simp: alone_def m keyset_drop_key)
  have "\<forall>ip\<in>set xs. key |\<in>| keyset (pw_podIPToPod t) ip"
    using Cons.prems(2,3) by (auto simp: m keyset_drop_key)
  from Cons.IH[OF t _ this rest] Cons.prems(2) have "ok (pw_world r')"
    "r' = t\<lparr>pw_world := pw_world r', pw_podIPToPod := fold (drop_key key) xs (pw_podIPToPod t)\<rparr>"
    "\<And>b. has_peer (pw_world r') b \<longleftrightarrow> has_peer (pw_world t) b \<and> \<not> (\<exists>a\<in>set xs. alone t key a \<and> clash a b)" by auto
  moreover from this(2) have "r' = r\<lparr>pw_world := pw_world r', pw_podIPToPod := fold (drop_key key) (x # xs) (pw_podIPToPod r)\<rparr>"
    by (subst (asm) tr) (simp add: m)
  ultimately show ?case using peers al by auto
qed

lemma handlePodDeletion_returns:
  assumes "ok (pw_world r)" "maps_ok r" "handlePodDeletion tun key r = (Inr u, r')"
  shows "ok (pw_world r') \<and> r' = (forget key r)\<lparr>pw_world := pw_world r'\<rparr> \<and>
    (\<forall>b. has_peer (pw_world r') b \<longleftrightarrow>
       has_peer (pw_world r) b \<and> \<not> (\<exists>a\<in>set (existing_ips r key). alone r key a \<and> clash a b))"
proof -
  from assms(3) obtain v t where loop: "for_each (deletion_step tun key) (existing_ips r key) r = (Inr v, t)"
    and r': "r' = t\<lparr>pw_podToPodIPs := (pw_podToPodIPs t)(key := None)\<rparr>"
    by (auto simp: handlePodDeletion_def bind_io_Inr)
  from assms(2) have "distinct (existing_ips r key)" "\<forall>ip\<in>set (existing_ips r key). key |\<in>| keyset (pw_podIPToPod r) ip"
    by (auto simp: maps_ok_def)
  from deletion_loop_returns[OF assms(1) this loop] have "ok (pw_world t)"
    and t: "t = r\<lparr>pw_world := pw_world t, pw_podIPToPod := fold (drop_key key) (existing_ips r key) (pw_podIPToPod r)\<rparr>"
    and "\<forall>b. has_peer (pw_world t) b \<longleftrightarrow> has_peer (pw_world r) b \<and> \<not> (\<exists>a\<in>set (existing_ips r key). alone r key a \<and> clash a b)"
    by auto
  moreover have "r' = (forget key r)\<lparr>pw_world := pw_world t\<rparr>"
  proof -
    from t obtain w where "t = r\<lparr>pw_world := w, pw_podIPToPod := fold (drop_key key) (existing_ips r key) (pw_podIPToPod r)\<rparr>" by blast
    then show ?thesis unfolding r' by (simp add: forget_def)
  qed
  ultimately show ?thesis by simp
qed

end

definition peers_exact ::
  "('w \<Rightarrow> addr \<Rightarrow> bool) \<Rightarrow> (addr \<Rightarrow> bool) \<Rightarrow> (addr \<Rightarrow> addr \<Rightarrow> bool) \<Rightarrow> 'w pod_watcher \<Rightarrow> bool" where
  "peers_exact has_peer supports clash r \<longleftrightarrow>
     (\<forall>a. has_peer (pw_world r) a \<longleftrightarrow> (\<exists>b. tracked r b \<and> supports b \<and> clash b a))"

text \<open>No two tracked addresses share a tunnel device.\<close>

definition no_collision :: "(addr \<Rightarrow> addr \<Rightarrow> bool) \<Rightarrow> 'w pod_watcher \<Rightarrow> bool" where
  "no_collision clash r \<longleftrightarrow> (\<forall>x y a. tracked r x \<longrightarrow> tracked r y \<longrightarrow> clash x a \<longrightarrow> clash y a \<longrightarrow> x = y)"

lemma tracked_record:
  "set (existing_ips r key) \<subseteq> set ips \<Longrightarrow> tracked (record_ips key ips r) b \<longleftrightarrow> tracked r b \<or> b \<in> set ips"
  by (auto simp: tracked_def split: if_splits)

lemma tracked_world [simp]: "tracked (r\<lparr>pw_world := w\<rparr>) = tracked r"
  by (auto simp: tracked_def existing_ips_def fun_eq_iff)

lemma tracked_forget: "tracked (forget key r) b \<longleftrightarrow> (\<exists>k. k \<noteq> key \<and> b \<in> set (existing_ips r k))"
  by (auto simp: tracked_def)

text \<open>
  What the environment guarantees of a request: the pod found is the pod asked for,
  its addresses are distinct, and an address once reported stays until the pod goes.
\<close>

definition event_ok :: "(addr \<Rightarrow> addr \<Rightarrow> bool) \<Rightarrow> (err + pod) \<Rightarrow> nsname \<Rightarrow> 'w pod_watcher \<Rightarrow> bool" where
  "event_ok clash got req r \<longleftrightarrow> no_collision clash r \<and>
     (\<forall>p. got = Inr p \<longrightarrow> pod_key p = req \<and>
        (\<forall>ips. parse_ips (pod_PodIPs p) = Inr ips \<longrightarrow> distinct ips \<and> set (existing_ips r req) \<subseteq> set ips))"

text \<open>
  The states a watcher gets into by successful calls of \<open>Reconcile\<close>: \<open>any_reach\<close> by any
  of them, \<open>watch_reach\<close> by those for which the environment keeps its guarantees.
\<close>

inductive any_reach ::
  "'w tunnel_controller \<Rightarrow> 'w nat_gateway \<Rightarrow> ('w \<Rightarrow> bool) \<Rightarrow> ('w \<Rightarrow> addr \<Rightarrow> bool) \<Rightarrow> 'w pod_watcher \<Rightarrow> bool"
  for tun gw ok has_peer where
  any_start: "ok w \<Longrightarrow> (\<And>a. \<not> has_peer w a) \<Longrightarrow> any_reach tun gw ok has_peer (NewPodWatcher n ns w)"
| any_step: "any_reach tun gw ok has_peer r \<Longrightarrow> Reconcile tun gw got req r = (Inr u, r') \<Longrightarrow> any_reach tun gw ok has_peer r'"

inductive watch_reach ::
  "'w tunnel_controller \<Rightarrow> 'w nat_gateway \<Rightarrow> ('w \<Rightarrow> bool) \<Rightarrow> ('w \<Rightarrow> addr \<Rightarrow> bool) \<Rightarrow> (addr \<Rightarrow> addr \<Rightarrow> bool) \<Rightarrow>
   'w pod_watcher \<Rightarrow> bool"
  for tun gw ok has_peer clash where
  start: "ok w \<Longrightarrow> (\<And>a. \<not> has_peer w a) \<Longrightarrow> watch_reach tun gw ok has_peer clash (NewPodWatcher n ns w)"
| step: "watch_reach tun gw ok has_peer clash r \<Longrightarrow> event_ok clash got req r \<Longrightarrow>
    Reconcile tun gw got req r = (Inr u, r') \<Longrightarrow> watch_reach tun gw ok has_peer clash r'"

context gateway_net
begin

text \<open>Whatever its outcome, adding keeps the peers and clients there are.\<close>

definition grown :: "'w \<Rightarrow> 'w \<Rightarrow> bool" where
  "grown w w' \<longleftrightarrow> ok w' \<and> (\<forall>b. has_peer w b \<longrightarrow> has_peer w' b) \<and> (\<forall>b. has_client w b \<longrightarrow> has_client w' b)"

lemma running_add_run:
  assumes w: "ok w" and c: "running_add tun gw ex ip w = (q, w')"
  shows "grown w w' \<and>
    (\<forall>b. has_peer w' b \<longrightarrow> has_peer w b \<or> (clash ip b \<and> supports ip \<and> ip \<notin> set ex)) \<and>
    (q = Inr u \<longrightarrow> ip \<notin> set ex \<longrightarrow> supports ip \<longrightarrow> has_peer w' ip \<and> (routable ip \<longrightarrow> has_client w' ip))"
proof (cases "ip \<in> set ex")
  case True
  with c w show ?thesis by (auto simp: running_add_def grown_def)
next
  case False
  obtain p t where p: "tun_AddPeer tun ip w = (p, t)" by fastforce
  note add = add_ok[OF w p] add_mono[OF w p] add_only[OF w p] add_clients[OF w p]
  show ?thesis
  proof (cases p)
    case (Inl e)
    with c p False have "w' = t" "q = Inr () \<longrightarrow> errors_Is e ErrIPFamilyMismatch"
      by (auto simp: running_add_def catch_eq split: if_splits)
    with add False add_mismatch[OF w p[unfolded Inl]] show ?thesis by (auto simp: grown_def)
  next
    case (Inr l)
    with c p False have cl: "on_err (Errorw ''failed to setup NAT'') (gw_AddClient gw ip l) t = (q, w')"
      by (auto simp: running_add_def catch_eq)
    obtain q' where q': "gw_AddClient gw ip l t = (q', w')" "q = Inr () \<longrightarrow> q' = Inr ()"
      using cl by (cases rule: on_err_state) auto
    note cl' = client_ok[OF add(1) q'(1)] client_mono[OF add(1) q'(1)] client_peers[OF add(1) q'(1)]
    from add_has[OF w p[unfolded Inr]] have "has_peer t ip" "supports ip" by auto
    with add cl' False client_has[OF add(1), of ip l] q' show ?thesis by (auto simp: grown_def)
  qed
qed

lemma grown_trans: "grown w v \<Longrightarrow> grown v u \<Longrightarrow> grown w u"
  by (auto simp: grown_def)

lemma adds_run:
  assumes "ok w" "for_each (running_add tun gw ex) ips w = (q, w')"
  shows "grown w w'"
proof -
  have "keeps (\<lambda>v. grown w v) (for_each (running_add tun gw ex) ips)"
    by (intro keeps_for_each keepsI) (metis grown_def grown_trans running_add_run)
  from keepsD[OF this assms(2)] assms(1) show ?thesis by (simp add: grown_def)
qed

lemma adds_returns:
  assumes w: "ok w" and c: "for_each (running_add tun gw ex) ips w = (Inr u, w')"
  shows "grown w w' \<and>
    (\<forall>b. has_peer w' b \<longrightarrow> has_peer w b \<or> (\<exists>a\<in>set ips. clash a b \<and> supports a)) \<and>
    (\<forall>a\<in>set ips. a \<notin> set ex \<longrightarrow> supports a \<longrightarrow> has_peer w' a \<and> (routable a \<longrightarrow> has_client w' a))"
proof (rule for_each_done[OF c, where P = "\<lambda>ys v. grown w v \<and>
    (\<forall>b. has_peer v b \<longrightarrow> has_peer w b \<or> (\<exists>a\<in>set ys. clash a b \<and> supports a)) \<and>
    (\<forall>a\<in>set ys. a \<notin> set ex \<longrightarrow> supports a \<longrightarrow> has_peer v a \<and> (routable a \<longrightarrow> has_client v a))"], goal_cases)
  case 1
  from w show ?case by (simp add: grown_def)
next
  case (2 ys x zs v q t)
  then have "ok v" by (simp add: grown_def)
  from running_add_run[OF this 2(3), of q] 2(2) have "grown w t" "grown v t" using grown_trans by blast+
  moreover note running_add_run[OF \<open>ok v\<close> 2(3), of q] 2(2)
  ultimately show ?case unfolding grown_def by (auto; blast)
qed

text \<open>The invariant of the watcher.\<close>

definition watcher_inv :: "'w pod_watcher \<Rightarrow> bool" where
  "watcher_inv r \<longleftrightarrow> ok (pw_world r) \<and> maps_ok r \<and> peers_exact has_peer supports clash r"

lemma watcher_inv_running:
  assumes inv: "watcher_inv r" and ips: "parse_ips (pod_PodIPs p) = Inr ips" "distinct ips"
    and ex: "set (existing_ips r (pod_key p)) \<subseteq> set ips" and c: "handlePodRunning tun gw p r = (Inr u, r')"
  shows "watcher_inv r'"
proof -
  let ?key = "pod_key p" and ?ex = "existing_ips r (pod_key p)"
  from c obtain v w where loop: "for_each (running_add tun gw ?ex) ips (pw_world r) = (Inr v, w)"
    and r': "r' = record_ips ?key ips (r\<lparr>pw_world := w\<rparr>)"
    unfolding handlePodRunning_grow[OF ips(1) ex] by (auto split: prod.splits sum.splits)
  from inv have w: "ok (pw_world r)" and m: "maps_ok r" and e: "peers_exact has_peer supports clash r" by (auto simp: watcher_inv_def)
  note A = adds_returns[OF w loop]
  from A have g: "grown (pw_world r) w" by blast
  have world: "pw_world r' = w" by (simp add: r' record_ips_def)
  have ex': "existing_ips (r\<lparr>pw_world := w\<rparr>) = existing_ips r" by (auto simp: existing_ips_def fun_eq_iff)
  have tr: "tracked r' b \<longleftrightarrow> tracked r b \<or> b \<in> set ips" for b
    unfolding r' using tracked_record[of "r\<lparr>pw_world := w\<rparr>" ?key ips] ex by (simp add: ex')
  have "maps_ok r'" unfolding r' using maps_ok_record[of "r\<lparr>pw_world := w\<rparr>"] m ips(2) ex by (simp add: ex')
  moreover have "has_peer w a \<longleftrightarrow> (\<exists>b. tracked r' b \<and> supports b \<and> clash b a)" for a
  proof
    assume "has_peer w a"
    with A e show "\<exists>b. tracked r' b \<and> supports b \<and> clash b a" unfolding peers_exact_def tr by blast
  next
    assume "\<exists>b. tracked r' b \<and> supports b \<and> clash b a"
    then obtain b where b: "tracked r' b" "supports b" "clash b a" by blast
    have "has_peer w b"
    proof (cases "tracked r b")
      case True
      with b e have "has_peer (pw_world r) b" unfolding peers_exact_def using clash_refl by blast
      with g show ?thesis by (simp add: grown_def)
    next
      case False
      with b(1) tr have "b \<in> set ips" by blast
      moreover from False have "b \<notin> set ?ex" unfolding tracked_def by blast
      ultimately show ?thesis using A b(2) by blast
    qed
    with clash_peer[of w b a] b(3) g show "has_peer w a" by (simp add: grown_def)
  qed
  ultimately show ?thesis using g by (simp add: watcher_inv_def peers_exact_def world grown_def)
qed

lemma watcher_inv_deletion:
  assumes inv: "watcher_inv r" and nc: "no_collision clash r" and c: "handlePodDeletion tun key r = (Inr u, r')"
  shows "watcher_inv r'"
proof -
  from inv have w: "ok (pw_world r)" and m: "maps_ok r" and e: "peers_exact has_peer supports clash r" by (auto simp: watcher_inv_def)
  from handlePodDeletion_returns[OF w m c] have ok': "ok (pw_world r')" and r': "r' = (forget key r)\<lparr>pw_world := pw_world r'\<rparr>"
    and peers: "\<And>b. has_peer (pw_world r') b \<longleftrightarrow>
       has_peer (pw_world r) b \<and> \<not> (\<exists>a\<in>set (existing_ips r key). alone r key a \<and> clash a b)" by auto
  have tr: "tracked r' b \<longleftrightarrow> (\<exists>k. k \<noteq> key \<and> b \<in> set (existing_ips r k))" for b
    by (subst r') (simp add: tracked_forget)
  have al: "alone r key b \<longleftrightarrow> b \<in> set (existing_ips r key) \<and> \<not> tracked r' b" for b
    using m by (auto simp: alone_def tr maps_ok_def fset_eq_iff)
  have "has_peer (pw_world r') a \<longleftrightarrow> (\<exists>b. tracked r' b \<and> supports b \<and> clash b a)" for a
  proof
    assume h: "has_peer (pw_world r') a"
    with peers e obtain b where b: "tracked r b" "supports b" "clash b a" unfolding peers_exact_def by blast
    have "tracked r' b"
    proof (rule ccontr)
      assume n: "\<not> tracked r' b"
      from b(1) obtain k where "b \<in> set (existing_ips r k)" unfolding tracked_def by blast
      with n tr[of b] have ex: "b \<in> set (existing_ips r key)" by (cases "k = key") auto
      with al[of b] n have "alone r key b" by simp
      with ex peers[of a] h b(3) show False by blast
    qed
    with b show "\<exists>b. tracked r' b \<and> supports b \<and> clash b a" by blast
  next
    assume "\<exists>b. tracked r' b \<and> supports b \<and> clash b a"
    then obtain b where b: "tracked r' b" "supports b" "clash b a" by blast
    from b(1) tr[of b] have tb: "tracked r b" unfolding tracked_def[of r] by blast
    with b e have "has_peer (pw_world r) a" unfolding peers_exact_def by blast
    moreover have False if "x \<in> set (existing_ips r key)" "alone r key x" "clash x a" for x
    proof -
      from that(1) have "tracked r x" by (auto simp: tracked_def)
      with nc tb b(3) that(3) have "x = b" unfolding no_collision_def by blast
      with al b(1) that(2) show False by blast
    qed
    ultimately show "has_peer (pw_world r') a" using peers by blast
  qed
  moreover have "maps_ok r'" by (subst r') (simp add: maps_ok_forget[OF m])
  ultimately show ?thesis using ok' by (simp add: watcher_inv_def peers_exact_def)
qed

lemma watcher_inv_Reconcile:
  assumes inv: "watcher_inv r" and env: "event_ok clash got req r" and c: "Reconcile tun gw got req r = (Inr u, r')"
  shows "watcher_inv r'"
proof -
  have del: "watcher_inv r'" if "on_err g (handlePodDeletion tun req) r = (Inr u, r')" for g
    using that watcher_inv_deletion[OF inv] env by (auto simp: on_err_Inr event_ok_def)
  show ?thesis
  proof (cases got)
    case (Inl e)
    with c del show ?thesis by (auto simp: Reconcile_def split: if_splits)
  next
    case (Inr p)
    have "watcher_inv r'" if run: "on_err g (handlePodRunning tun gw p) r = (Inr u, r')" for g
    proof -
      from run have h: "handlePodRunning tun gw p r = (Inr u, r')" by (simp add: on_err_Inr)
      then obtain ips where ips: "parse_ips (pod_PodIPs p) = Inr ips"
        by (auto simp: handlePodRunning_def Let_def split: sum.splits)
      with env Inr have "distinct ips" "set (existing_ips r (pod_key p)) \<subseteq> set ips" by (auto simp: event_ok_def)
      from watcher_inv_running[OF inv ips this h] show ?thesis .
    qed
    with Inr c inv del show ?thesis by (auto simp: Reconcile_def split: if_splits)
  qed
qed

lemma watcher_inv_reach: "watch_reach tun gw ok has_peer clash r \<Longrightarrow> watcher_inv r"
proof (induction rule: watch_reach.induct)
  case (start w n ns)
  then show ?case
    by (auto simp: watcher_inv_def peers_exact_def tracked_def existing_ips_def)
      (auto simp: NewPodWatcher_def)
next
  case (step r got req u r')
  then show ?case using watcher_inv_Reconcile by blast
qed

end

section \<open>Retries, repetition and annotations\<close>

text \<open>A deletion that stopped after its first address can never complete.\<close>

lemma deletion_stuck:
  assumes "existing_ips r key = ip # rest" "key |\<notin>| keyset (pw_podIPToPod r) ip"
  shows "\<exists>e. handlePodDeletion tun key r = (Inl e, r)"
proof -
  from assms(2) obtain e where "existsOtherLiveTunnels r key ip = Inl e"
    by (auto simp: existsOtherLiveTunnels_def keyset_def split: option.splits)
  then show ?thesis by (auto simp: handlePodDeletion_def assms(1) bind_io_def deletion_step_def)
qed

lemma deletion_step_fail: "deletion_step tun key ip r = (Inl e, r') \<Longrightarrow> r' = r\<lparr>pw_world := pw_world r'\<rparr>"
  by (auto simp: deletion_step_def bind_io_Inl lift_io_eq split: sum.splits if_splits)

lemma deletion_partial:
  assumes ex: "existing_ips r key = a # b # rest" "a \<noteq> b"
    and a: "deletion_step tun key a r = (Inr u, r1)" and b: "deletion_step tun key b r1 = (Inl e, r2)"
  shows "handlePodDeletion tun key r = (Inl e, r2) \<and> existing_ips r2 key = a # b # rest \<and>
    key |\<notin>| keyset (pw_podIPToPod r2) a"
proof -
  from a have r1: "existing_ips r1 = existing_ips r" "pw_podIPToPod r1 = drop_key key a (pw_podIPToPod r)"
    by (auto simp: deletion_step_def bind_io_Inr lift_io_eq existing_ips_def fun_eq_iff split: sum.splits if_splits)
  from deletion_step_fail[OF b] have "existing_ips r2 key = existing_ips r1 key" "pw_podIPToPod r2 = pw_podIPToPod r1"
    unfolding existing_ips_def by (metis pod_watcher.select_convs(3,4) pod_watcher.surjective pod_watcher.update_convs(5))+
  moreover have "existing_ips r1 key = a # b # rest" using ex(1) by (simp add: r1)
  moreover have "handlePodDeletion tun key r = (Inl e, r2)"
    by (simp add: handlePodDeletion_def ex(1) bind_io_def a b)
  ultimately show ?thesis by (simp add: r1 keyset_drop_key)
qed

lemma fold_add_key_id:
  assumes "\<forall>ip\<in>set ips. key |\<in>| keyset m ip"
  shows "fold (add_key key) ips m = m"
proof
  fix x
  show "fold (add_key key) ips m x = m x"
    using assms by (auto simp: fold_add_key keyset_def finsert_absorb split: option.splits)
qed

lemma running_again:
  assumes "maps_ok r" "pw_podToPodIPs r (pod_key p) = Some ips" "parse_ips (pod_PodIPs p) = Inr ips"
  shows "handlePodRunning tun gw p r = (Inr (), r)"
proof -
  have ex: "existing_ips r (pod_key p) = ips" using assms(2) by (simp add: existing_ips_def)
  have "for_each (running_add tun gw ips) xs w = (Inr (), w)" if "set xs \<subseteq> set ips" for xs w
    using that by (induction xs) (auto simp: running_add_def bind_io_def ret_def)
  moreover have "record_ips (pod_key p) ips r = r"
  proof -
    have "\<forall>ip\<in>set ips. pod_key p |\<in>| keyset (pw_podIPToPod r) ip" using assms(1) ex by (auto simp: maps_ok_def)
    then show ?thesis using map_upd_triv[of "pw_podToPodIPs r", OF assms(2)] by (simp add: record_ips_def fold_add_key_id)
  qed
  ultimately show ?thesis using handlePodRunning_grow[OF assms(3), of r tun gw] ex by simp
qed

lemma annotation_loop_iff:
  "annotation_loop r as \<longleftrightarrow>
     (\<exists>(k, name)\<in>set as. k = EgressAnnotationPrefix @ pw_EgressNamespace r \<and>
        (name = pw_EgressName r \<or> pw_EgressNamespace r \<in> set (Split name CHR '','')))"
  by (induction r as rule: annotation_loop.induct) (auto simp: HasPrefix_iff)

context gateway_net
begin

lemma dels_returns:
  assumes w: "ok w" and c: "for_each (running_del tun ips) es w = (Inr u, w')"
  shows "ok w' \<and> (\<forall>a\<in>set es. a \<notin> set ips \<longrightarrow> \<not> has_peer w' a)"
proof (rule for_each_done[OF c, where P = "\<lambda>ys v. ok v \<and> (\<forall>a\<in>set ys. a \<notin> set ips \<longrightarrow> \<not> has_peer v a)"], goal_cases)
  case 1
  from w show ?case by simp
next
  case (2 ys x zs v q t)
  show ?case
  proof (cases "x \<in> set ips")
    case True
    with 2 show ?thesis by (auto simp: running_del_def)
  next
    case False
    with 2(3) have d: "tun_DelPeer tun x v = (Inr q, t)" by (simp add: running_del_def)
    from 2(2) have v: "ok v" by simp
    have "\<not> has_peer t a" if "\<not> has_peer v a" for a
      using that del_gone[OF v d] del_frame[OF v d, of a] clash_peer[OF del_ok[OF v d], of x a] by blast
    with 2(2) del_ok[OF v d] del_gone[OF v d] show ?thesis by auto
  qed
qed

lemma dels_run:
  assumes "ok w" "for_each (running_del tun ips) es w = (q, w')"
  shows "ok w' \<and> (\<forall>b. has_peer w' b \<longrightarrow> has_peer w b) \<and>
    (\<forall>b. has_peer w b \<longrightarrow> has_peer w' b \<or> (\<exists>a\<in>set es. a \<notin> set ips \<and> clash a b))"
  using assms
proof (induction es arbitrary: w)
  case Nil
  then show ?case by simp
next
  case (Cons x xs)
  obtain p t where x: "running_del tun ips x w = (p, t)" by fastforce
  have t: "ok t \<and> (\<forall>b. has_peer t b \<longrightarrow> has_peer w b) \<and> (\<forall>b. has_peer w b \<longrightarrow> has_peer t b \<or> (x \<notin> set ips \<and> clash x b))"
  proof (cases "x \<in> set ips")
    case True
    with x Cons.prems(1) show ?thesis by (simp add: running_del_def)
  next
    case False
    with x have d: "tun_DelPeer tun x w = (p, t)" by (simp add: running_del_def)
    note D = del_ok[OF Cons.prems(1) d] del_frame[OF Cons.prems(1) d]
    have "has_peer t b \<Longrightarrow> has_peer w b" for b
    proof (cases p)
      case (Inl e)
      with del_fail[OF Cons.prems(1)] d show "has_peer t b \<Longrightarrow> has_peer w b" by blast
    next
      case (Inr v)
      with del_gone[OF Cons.prems(1)] d clash_peer[OF D(1), of x b] D(2)[of b] show "has_peer t b \<Longrightarrow> has_peer w b" by blast
    qed
    with D False show ?thesis by blast
  qed
  from Cons.prems(2) x consider "p = q" "isl p" "w' = t" | "for_each (running_del tun ips) xs t = (q, w')"
    by (cases p) (auto simp: bind_io_def)
  then show ?case
  proof cases
    case 2
    from Cons.IH[OF _ 2] t show ?thesis by auto
  qed (use t in auto)
qed

text \<open>
  What holds after any successful calls, addresses lost or not: a pod's addresses are
  listed under its key, and every tunnel is that of an address that is listed.
\<close>

definition listed_inv :: "'w pod_watcher \<Rightarrow> bool" where
  "listed_inv r \<longleftrightarrow> ok (pw_world r) \<and> (\<forall>key. \<forall>ip\<in>set (existing_ips r key). key |\<in>| keyset (pw_podIPToPod r) ip) \<and>
     (\<forall>a. has_peer (pw_world r) a \<longrightarrow> (\<exists>b. keyset (pw_podIPToPod r) b \<noteq> {||} \<and> supports b \<and> clash b a))"

lemma listed_inv_running:
  assumes inv: "listed_inv r" and c: "handlePodRunning tun gw p r = (Inr u, r')"
  shows "listed_inv r'"
proof -
  from c obtain ips v w1 q w2 where ips: "parse_ips (pod_PodIPs p) = Inr ips"
    and add: "for_each (running_add tun gw (existing_ips r (pod_key p))) ips (pw_world r) = (Inr v, w1)"
    and del: "for_each (running_del tun ips) (existing_ips r (pod_key p)) w1 = (Inr q, w2)"
    and r': "r' = record_ips (pod_key p) ips (r\<lparr>pw_world := w2\<rparr>)"
    by (auto simp: handlePodRunning_def Let_def bind_io_Inr lift_io_eq split: sum.splits)
  from inv have w: "ok (pw_world r)" by (simp add: listed_inv_def)
  note A = adds_returns[OF w add]
  then have "ok w1" by (simp add: grown_def)
  note D = dels_run[OF this del]
  have k: "keyset (pw_podIPToPod r') x = (if x \<in> set ips then finsert (pod_key p) (keyset (pw_podIPToPod r) x) else keyset (pw_podIPToPod r) x)" for x
    by (simp add: r' record_ips_def keyset_fold_add_key)
  have e: "existing_ips r' x = (if x = pod_key p then ips else existing_ips r x)" for x
    by (simp add: r') (simp add: existing_ips_def)
  have "\<exists>b. keyset (pw_podIPToPod r') b \<noteq> {||} \<and> supports b \<and> clash b a" if "has_peer w2 a" for a
    using that A D inv unfolding listed_inv_def k by (metis finsert_not_fempty)
  moreover have "pw_world r' = w2" by (simp add: r' record_ips_def)
  ultimately show ?thesis using D inv unfolding listed_inv_def k e by auto
qed

lemma listed_inv_deletion:
  assumes inv: "listed_inv r" and c: "handlePodDeletion tun key r = (Inr u, r')"
  shows "listed_inv r'"
proof -
  let ?I = "\<lambda>s. ok (pw_world s) \<and> existing_ips s = existing_ips r \<and>
    (\<forall>k. k \<noteq> key \<longrightarrow> (\<forall>ip\<in>set (existing_ips r k). k |\<in>| keyset (pw_podIPToPod s) ip)) \<and>
    (\<forall>a. has_peer (pw_world s) a \<longrightarrow> (\<exists>b. keyset (pw_podIPToPod s) b \<noteq> {||} \<and> supports b \<and> clash b a))"
  from c obtain v t where loop: "for_each (deletion_step tun key) (existing_ips r key) r = (Inr v, t)"
    and r': "r' = t\<lparr>pw_podToPodIPs := (pw_podToPodIPs t)(key := None)\<rparr>"
    by (auto simp: handlePodDeletion_def bind_io_Inr)
  have "?I t"
  proof (rule for_each_done[OF loop, where P = "\<lambda>_. ?I"], goal_cases)
    case 1
    from inv show ?case by (simp add: listed_inv_def)
  next
    case (2 ys x zs s q s')
    from 2(3) have key: "key |\<in>| keyset (pw_podIPToPod s) x"
      by (auto simp: deletion_step_def existsOtherLiveTunnels_def keyset_def split: option.splits if_splits)
    from deletion_step_returns[OF _ key 2(3)] 2(2) obtain w where ok': "ok w"
      and s': "s' = s\<lparr>pw_world := w, pw_podIPToPod := drop_key key x (pw_podIPToPod s)\<rparr>"
      and peers: "\<And>b. has_peer w b \<longleftrightarrow> has_peer (pw_world s) b \<and> \<not> (alone s key x \<and> clash x b)" by metis
    have left: "keyset (pw_podIPToPod s') b \<noteq> {||}" if "keyset (pw_podIPToPod s) b \<noteq> {||}" "b = x \<Longrightarrow> \<not> alone s key x" for b
      using that key by (auto simp: s' keyset_drop_key alone_def)
    have "\<exists>b. keyset (pw_podIPToPod s') b \<noteq> {||} \<and> supports b \<and> clash b a" if "has_peer w a" for a
      using 2(2) that peers[of a] left by blast
    moreover have "existing_ips s' = existing_ips s" by (auto simp: s' existing_ips_def fun_eq_iff)
    ultimately show ?case using 2(2) ok' by (auto simp: s' keyset_drop_key)
  qed
  moreover from this have "existing_ips r' k = (if k = key then [] else existing_ips r k)" for k
    by (metis (no_types) existing_ips_def fun_upd_apply option.simps(4) pod_watcher.select_convs(3) pod_watcher.surjective pod_watcher.update_convs(3) r')
  ultimately show ?thesis unfolding listed_inv_def by (simp add: r')
qed

lemma listed_inv_reach: "any_reach tun gw ok has_peer r \<Longrightarrow> listed_inv r"
proof (induction rule: any_reach.induct)
  case (any_start w n ns)
  then show ?case by (auto simp: listed_inv_def existing_ips_def NewPodWatcher_def)
next
  case (any_step r got req u r')
  then show ?case
    using listed_inv_deletion[OF any_step.IH] listed_inv_running[OF any_step.IH]
    by (auto simp: Reconcile_def on_err_Inr split: sum.splits if_splits)
qed

lemma running_fails:
  assumes w: "ok (pw_world r)" and c: "handlePodRunning tun gw p r = (Inl e, r')"
  shows "r' = r\<lparr>pw_world := pw_world r'\<rparr> \<and> ok (pw_world r') \<and>
    (\<forall>b. has_peer (pw_world r) b \<longrightarrow> has_peer (pw_world r') b \<or>
       (\<exists>ips a. parse_ips (pod_PodIPs p) = Inr ips \<and> a \<in> set (existing_ips r (pod_key p)) \<and> a \<notin> set ips \<and> clash a b))"
proof (cases "parse_ips (pod_PodIPs p)")
  case (Inl d)
  with w c show ?thesis by (simp add: handlePodRunning_def Let_def)
next
  case (Inr ips)
  let ?ex = "existing_ips r (pod_key p)"
  obtain q w1 where add: "for_each (running_add tun gw ?ex) ips (pw_world r) = (q, w1)" by fastforce
  from adds_run[OF w add] have g: "ok w1" "\<And>b. has_peer (pw_world r) b \<Longrightarrow> has_peer w1 b" by (auto simp: grown_def)
  show ?thesis
  proof (cases q)
    case (Inl d)
    with c Inr add g show ?thesis by (auto simp: handlePodRunning_def Let_def bind_io_def lift_io_def)
  next
    case ok1: (Inr v)
    obtain q2 w2 where del: "for_each (running_del tun ips) ?ex w1 = (q2, w2)" by fastforce
    with c Inr add ok1 have "r' = r\<lparr>pw_world := w2\<rparr>"
      by (cases q2) (auto simp: handlePodRunning_def Let_def bind_io_def lift_io_def)
    with dels_run[OF g(1) del] g(2) Inr show ?thesis by auto
  qed
qed

lemma running_drops:
  assumes w: "ok (pw_world r)" and c: "handlePodRunning tun gw p r = (Inr u, r')" and ips: "parse_ips (pod_PodIPs p) = Inr ips"
    and a: "a \<in> set (existing_ips r (pod_key p))" "a \<notin> set ips"
  shows "\<not> has_peer (pw_world r') a \<and> keyset (pw_podIPToPod r') a = keyset (pw_podIPToPod r) a \<and>
    existing_ips r' = (existing_ips r)(pod_key p := ips)"
proof -
  from c ips obtain v w1 q w2 where add: "for_each (running_add tun gw (existing_ips r (pod_key p))) ips (pw_world r) = (Inr v, w1)"
    and del: "for_each (running_del tun ips) (existing_ips r (pod_key p)) w1 = (Inr q, w2)"
    and r': "r' = record_ips (pod_key p) ips (r\<lparr>pw_world := w2\<rparr>)"
    by (auto simp: handlePodRunning_def Let_def bind_io_Inr lift_io_eq)
  from adds_run[OF w add] have "ok w1" by (simp add: grown_def)
  from dels_returns[OF this del] a have "\<not> has_peer w2 a" by blast
  moreover have "existing_ips (r\<lparr>pw_world := w2\<rparr>) = existing_ips r" by (auto simp: existing_ips_def fun_eq_iff)
  ultimately show ?thesis using a(2) by (auto simp: r' fun_eq_iff) (auto simp: record_ips_def keyset_fold_add_key)
qed

end

section \<open>Concrete runs\<close>

definition demo_pod :: "string list \<Rightarrow> pod" where
  "demo_pod ips = \<lparr>pod_Namespace = ''default'', pod_Name = ''client'',
     pod_Annotations = [(EgressAnnotationPrefix @ ''egress-ns'', ''egress'')], pod_HostNetwork = False,
     pod_PodIPs = ips, pod_Phase = ''Running'', pod_DeletionTimestamp = None\<rparr>"

definition demo_tun :: fou_controller where
  "demo_tun = \<lparr>fc_port = 5555, fc_local4 = Some (Addr4 0x0A000001), fc_local6 = None\<rparr>"

definition demo_gw :: gateway where
  "demo_gw = \<lparr>gt_iface = ''eth0'', gt_ipv4 = Some (Addr4 0x0A000001), gt_ipv6 = None\<rparr>"

definition demo_watcher :: "sim pod_watcher" where
  "demo_watcher = NewPodWatcher ''egress'' ''egress-ns'' sim_empty"

abbreviation "demo_T \<equiv> fou_tunnel sim_host demo_tun"
abbreviation "demo_G \<equiv> nat_gateway_of sim_host demo_gw"

lemma demo_Reconcile:
  "fst (Reconcile demo_T demo_G (Inr (demo_pod [''10.1.2.3''])) (pod_key (demo_pod [''10.1.2.3''])) demo_watcher) = Inr ()"
  by code_simp

lemma Reconcile_running:
  "shouldHandle r p \<Longrightarrow> \<not> isTerminated p \<Longrightarrow> pod_DeletionTimestamp p = None \<Longrightarrow> handlePodRunning tun gw p r = (Inr u, r') \<Longrightarrow>
    Reconcile tun gw (Inr p) req r = (Inr u, r')"
  by (simp add: Reconcile_def on_err_def)

lemma demo_handle: "fst (handlePodRunning demo_T demo_G (demo_pod [''10.1.2.3'']) demo_watcher) = Inr ()"
  by code_simp

lemma demo_parse: "parse_ips [''10.1.2.3''] = Inr [Addr4 0x0A010203]"
  by code_simp

lemma demo_ok: "fou_ok sim_host sim_good sim_view sim_empty"
  by (simp add: fou_ok_def sim_kernel.host_laws_axioms)

lemma demo_no_peer: "\<not> fou_has_peer sim_view sim_empty a"
  by (simp add: fou_has_peer_def sim_view_def sim_empty_def sim_find_def)

lemma demo_existing [simp]: "existing_ips (NewPodWatcher n ns w) key = []"
  by (simp add: existing_ips_def NewPodWatcher_def)

lemma demo_event: "event_ok fou_clash (Inr (demo_pod [''10.1.2.3''])) (pod_key (demo_pod [''10.1.2.3''])) demo_watcher"
  using demo_parse by (simp add: event_ok_def no_collision_def tracked_def demo_watcher_def demo_pod_def)

lemma demo_names: "fou_supports demo_tun (Addr4 0x0A010203)" "routable_addr (Addr4 0x0A010203)"
  by (simp_all add: fou_supports_def demo_tun_def routable_addr_def)

section \<open>Properties\<close>

text \<open>
  C1. The gateway's tunnels are exactly those of its pods, as long as the pods keep their
  addresses. The watcher starts in a namespace without tunnels, over the FoU controller and
  the NAT gateway, and makes successful calls of \<open>Reconcile\<close>; for each of them the pod
  found is the one asked for, its addresses are distinct, it has lost none that is tracked,
  and no two tracked addresses share a device. Then the two maps are each other's inverse,
  and the namespace has the tunnel device of an address if and only if some tracked pod has
  an address of a supported family with that device: no running client lacks its tunnel, no
  tunnel leaks. Without the conditions this is false: a lost address breaks it.
\<close>

theorem watcher_exact:
  assumes "watch_reach (fou_tunnel h t) (nat_gateway_of h c) (fou_ok h good view) (fou_has_peer view) fou_clash r"
  shows "maps_ok r \<and>
    (\<forall>a. fou_has_peer view (pw_world r) a \<longleftrightarrow> (\<exists>b. tracked r b \<and> fou_supports t b \<and> fou_clash b a))"
  using net.watcher_inv_reach[OF assms] unfolding net.watcher_inv_def peers_exact_def by blast

theorem watcher_exact_witness:
  "\<exists>r. watch_reach demo_T demo_G (fou_ok sim_host sim_good sim_view) (fou_has_peer sim_view) fou_clash r \<and>
     tracked r (Addr4 0x0A010203) \<and> fou_has_peer sim_view (pw_world r) (Addr4 0x0A010203)"
proof -
  let ?p = "demo_pod [''10.1.2.3'']"
  obtain r where run: "Reconcile demo_T demo_G (Inr ?p) (pod_key ?p) demo_watcher = (Inr (), r)"
    using demo_Reconcile by (metis prod.collapse)
  have "watch_reach demo_T demo_G (fou_ok sim_host sim_good sim_view) (fou_has_peer sim_view) fou_clash demo_watcher"
    unfolding demo_watcher_def using demo_ok demo_no_peer by (rule watch_reach.start)
  from watch_reach.step[OF this demo_event run] have reach:
    "watch_reach demo_T demo_G (fou_ok sim_host sim_good sim_view) (fou_has_peer sim_view) fou_clash r" .
  have "pw_podToPodIPs (snd (Reconcile demo_T demo_G (Inr ?p) (pod_key ?p) demo_watcher)) (pod_key ?p) = Some [Addr4 0x0A010203]"
    by code_simp
  with run have "tracked r (Addr4 0x0A010203)" by (auto simp: tracked_def existing_ips_def intro!: exI[of _ "pod_key ?p"])
  with watcher_exact[OF reach] demo_names reach show ?thesis by (auto simp: fou_clash_def)
qed

text \<open>
  C30. When \<open>handlePodRunning\<close> fails, wherever it stopped, the watcher's maps are as they
  were, and a tunnel that is gone is the tunnel of an address that the pod has lost. When it
  has lost none, no tunnel and no client is gone: the retry starts from a state as good as
  before.
\<close>

theorem handlePodRunning_fails_safe:
  assumes "fou_ok h good view (pw_world r)" "handlePodRunning (fou_tunnel h t) (nat_gateway_of h c) p r = (Inl e, r')"
  shows "r' = r\<lparr>pw_world := pw_world r'\<rparr> \<and> fou_ok h good view (pw_world r') \<and>
    (\<forall>b. fou_has_peer view (pw_world r) b \<longrightarrow> fou_has_peer view (pw_world r') b \<or>
       (\<exists>ips a. parse_ips (pod_PodIPs p) = Inr ips \<and> a \<in> set (existing_ips r (pod_key p)) \<and> a \<notin> set ips \<and> fouName a = fouName b)) \<and>
    ((\<forall>ips. parse_ips (pod_PodIPs p) = Inr ips \<longrightarrow> set (existing_ips r (pod_key p)) \<subseteq> set ips) \<longrightarrow>
       (\<forall>b. fou_has_peer view (pw_world r) b \<longrightarrow> fou_has_peer view (pw_world r') b) \<and>
       (\<forall>b. has_client view (pw_world r) b \<longrightarrow> has_client view (pw_world r') b))"
proof -
  have "has_client view (pw_world r) b \<longrightarrow> has_client view (pw_world r') b"
    if lost: "\<forall>ips. parse_ips (pod_PodIPs p) = Inr ips \<longrightarrow> set (existing_ips r (pod_key p)) \<subseteq> set ips" for b
  proof (cases "parse_ips (pod_PodIPs p)")
    case (Inl d)
    with assms show ?thesis by (simp add: handlePodRunning_def Let_def)
  next
    case (Inr ips)
    from assms(2) obtain w
      where loop: "for_each (running_add (fou_tunnel h t) (nat_gateway_of h c) (existing_ips r (pod_key p))) ips (pw_world r) = (Inl e, w)"
      and r': "r' = r\<lparr>pw_world := w\<rparr>"
      unfolding handlePodRunning_grow[OF Inr lost[rule_format, OF Inr]] by (auto split: prod.splits sum.splits)
    from net.adds_run[OF assms(1) loop] show ?thesis by (auto simp: r' net.grown_def)
  qed
  with net.running_fails[OF assms] show ?thesis unfolding fou_clash_def by blast
qed

text \<open>A namespace in memory in which the route to 10.1.2.4 is refused.\<close>

definition refusing_host :: "sim host" where
  "refusing_host = sim_host\<lparr>RouteAdd := \<lambda>r s.
     if rt_Dst r = Some (NewIPNet [10, 1, 2, 4]) then (Inl (LibErr ''no buffer space available''), s) else sim_RouteAdd r s\<rparr>"

lemma refusing_laws: "host_laws refusing_host sim_good sim_view"
proof -
  have "meets sim_good sim_view (RouteAdd refusing_host rt) (spec_RouteAdd rt) unchanged" for rt
    using sim_kernel.RouteAdd[of rt] by (auto simp: meets_def refusing_host_def unchanged_def sim_host_def)
  with sim_kernel.host_laws_axioms show ?thesis unfolding host_laws_def by (simp add: refusing_host_def)
qed

theorem handlePodRunning_fails_safe_witness:
  "\<exists>r e r'. handlePodRunning (fou_tunnel refusing_host demo_tun) (nat_gateway_of refusing_host demo_gw) (demo_pod [''10.1.2.3'']) demo_watcher = (Inr (), r) \<and>
     handlePodRunning (fou_tunnel refusing_host demo_tun) (nat_gateway_of refusing_host demo_gw) (demo_pod [''10.1.2.3'', ''10.1.2.4'']) r = (Inl e, r') \<and>
     r' = r\<lparr>pw_world := pw_world r'\<rparr> \<and> fou_has_peer sim_view (pw_world r') (Addr4 0x0A010203)"
proof -
  let ?p = "demo_pod [''10.1.2.3'']" and ?q = "demo_pod [''10.1.2.3'', ''10.1.2.4'']"
  let ?T = "fou_tunnel refusing_host demo_tun" and ?G = "nat_gateway_of refusing_host demo_gw"
  let ?r = "snd (handlePodRunning ?T ?G ?p demo_watcher)"
  have "fst (handlePodRunning ?T ?G ?p demo_watcher) = Inr ()" by code_simp
  then have run: "handlePodRunning ?T ?G ?p demo_watcher = (Inr (), ?r)" by (rule run_pair)
  have "isl (fst (handlePodRunning ?T ?G ?q ?r))" by code_simp
  then obtain e r' where run': "handlePodRunning ?T ?G ?q ?r = (Inl e, r')" by (metis isl_def prod.collapse)
  have ok: "fou_ok refusing_host sim_good sim_view (pw_world demo_watcher)"
    using refusing_laws by (simp add: fou_ok_def demo_watcher_def NewPodWatcher_def)
  have p: "parse_ips (pod_PodIPs ?p) = Inr [Addr4 0x0A010203]" using demo_parse by (simp add: demo_pod_def)
  have inv: "net.watcher_inv refusing_host sim_good sim_view demo_tun demo_watcher"
    using ok demo_no_peer by (simp add: net.watcher_inv_def demo_watcher_def peers_exact_def tracked_def) (simp add: NewPodWatcher_def)
  from net.watcher_inv_running[OF inv p _ _ run] have r: "net.watcher_inv refusing_host sim_good sim_view demo_tun ?r"
    by (simp add: demo_watcher_def)
  have "pw_podToPodIPs ?r (pod_key ?p) = Some [Addr4 0x0A010203]" by code_simp
  then have ex: "existing_ips ?r (pod_key ?p) = [Addr4 0x0A010203]" by (simp add: existing_ips_def)
  then have "tracked ?r (Addr4 0x0A010203)" by (auto simp: tracked_def intro!: exI[of _ "pod_key ?p"])
  with r demo_names have peer: "fou_has_peer sim_view (pw_world ?r) (Addr4 0x0A010203)" and ok': "fou_ok refusing_host sim_good sim_view (pw_world ?r)"
    unfolding net.watcher_inv_def peers_exact_def fou_clash_def by blast+
  have q: "parse_ips (pod_PodIPs ?q) = Inr [Addr4 0x0A010203, Addr4 0x0A010204]" unfolding demo_pod_def by code_simp
  have "pod_key ?q = pod_key ?p" by (simp add: pod_key_def demo_pod_def)
  with handlePodRunning_fails_safe[OF ok' run'] q ex peer run run' show ?thesis by auto
qed

text \<open>
  C7. In a state whose two maps are each other's inverse, as they are while the pods keep
  their addresses, a completed \<open>handlePodDeletion\<close> forgets the pod in
  both maps and removes exactly the tunnel devices of the addresses that no other pod has:
  the device of an address that another pod shares stays. After a pod has lost an address
  the maps disagree, and a stale key keeps the device of an
  address that no pod has any more.
\<close>

theorem handlePodDeletion_exact:
  assumes "fou_ok h good view (pw_world r)" "maps_ok r" "handlePodDeletion (fou_tunnel h t) key r = (Inr u, r')"
  shows "r' = (forget key r)\<lparr>pw_world := pw_world r'\<rparr> \<and> maps_ok r' \<and>
    (\<forall>b. fou_has_peer view (pw_world r') b \<longleftrightarrow> fou_has_peer view (pw_world r) b \<and>
       \<not> (\<exists>a. a \<in> set (existing_ips r key) \<and> (\<forall>k. k \<noteq> key \<longrightarrow> a \<notin> set (existing_ips r k)) \<and> fouName a = fouName b))"
proof -
  have al: "alone r key a \<longleftrightarrow> a \<in> set (existing_ips r key) \<and> (\<forall>k. k \<noteq> key \<longrightarrow> a \<notin> set (existing_ips r k))" for a
    using assms(2) by (auto simp: alone_def maps_ok_def fset_eq_iff)
  from fou.handlePodDeletion_returns[OF assms] have r': "r' = (forget key r)\<lparr>pw_world := pw_world r'\<rparr>"
    and peers: "\<forall>b. fou_has_peer view (pw_world r') b \<longleftrightarrow> fou_has_peer view (pw_world r) b \<and>
       \<not> (\<exists>a\<in>set (existing_ips r key). alone r key a \<and> fou_clash a b)" by auto
  have "maps_ok r'" by (subst r') (simp add: maps_ok_forget[OF assms(2)])
  with r' peers show ?thesis unfolding al fou_clash_def by blast
qed

theorem handlePodDeletion_exact_witness:
  "\<exists>r r'. handlePodRunning demo_T demo_G (demo_pod [''10.1.2.3'']) demo_watcher = (Inr (), r) \<and>
     handlePodDeletion demo_T (pod_key (demo_pod [''10.1.2.3''])) r = (Inr (), r') \<and> maps_ok r'"
proof -
  let ?p = "demo_pod [''10.1.2.3'']"
  obtain r where run: "handlePodRunning demo_T demo_G ?p demo_watcher = (Inr (), r)"
    using demo_handle by (metis prod.collapse)
  have "fst (handlePodDeletion demo_T (pod_key ?p) (snd (handlePodRunning demo_T demo_G ?p demo_watcher))) = Inr ()"
    by code_simp
  then obtain r' where del: "handlePodDeletion demo_T (pod_key ?p) r = (Inr (), r')" using run by (metis prod.collapse snd_conv)
  have inv: "net.watcher_inv sim_host sim_good sim_view demo_tun demo_watcher"
    using demo_ok demo_no_peer by (simp add: net.watcher_inv_def demo_watcher_def peers_exact_def tracked_def) (simp add: NewPodWatcher_def)
  have "parse_ips (pod_PodIPs ?p) = Inr [Addr4 0x0A010203]" using demo_parse by (simp add: demo_pod_def)
  from net.watcher_inv_running[OF inv this _ _ run] have "fou_ok sim_host sim_good sim_view (pw_world r)" "maps_ok r"
    by (auto simp: net.watcher_inv_def demo_watcher_def)
  from handlePodDeletion_exact[OF this del] run del show ?thesis by blast
qed

text \<open>
  C38. Whatever the pods do, addresses lost or repeated included: in every state that the
  watcher reaches from a namespace without tunnels by successful calls of \<open>Reconcile\<close>, each
  address recorded for a pod is listed with the pod's key in the map from addresses to pods,
  so that its deletion finds it there, and every tunnel device is that of an address of a
  supported family that the map lists: none is forgotten.
\<close>

theorem watcher_lists_tunnels:
  assumes "any_reach (fou_tunnel h t) (nat_gateway_of h c) (fou_ok h good view) (fou_has_peer view) r"
  shows "(\<forall>key. \<forall>ip\<in>set (existing_ips r key). \<exists>S. pw_podIPToPod r ip = Some S \<and> key |\<in>| S) \<and>
    (\<forall>a. fou_has_peer view (pw_world r) a \<longrightarrow>
       (\<exists>b S. pw_podIPToPod r b = Some S \<and> S \<noteq> {||} \<and> fou_supports t b \<and> fouName b = fouName a))"
proof -
  from net.listed_inv_reach[OF assms] have inv: "net.listed_inv h good view t r" .
  have "\<exists>S. pw_podIPToPod r ip = Some S \<and> key |\<in>| S" if "key |\<in>| keyset (pw_podIPToPod r) ip" for key ip
    using that by (auto simp: keyset_def split: option.splits)
  moreover have "\<exists>S. pw_podIPToPod r b = Some S \<and> S \<noteq> {||}" if "keyset (pw_podIPToPod r) b \<noteq> {||}" for b
    using that by (auto simp: keyset_def split: option.splits)
  ultimately show ?thesis using inv unfolding net.listed_inv_def fou_clash_def by metis
qed

theorem watcher_lists_tunnels_witness:
  "\<exists>r r'. handlePodRunning demo_T demo_G (demo_pod [''10.1.2.3'']) demo_watcher = (Inr (), r) \<and>
     handlePodRunning demo_T demo_G (demo_pod [''10.1.2.4'']) r = (Inr (), r') \<and>
     (\<exists>S. pw_podIPToPod r' (Addr4 0x0A010204) = Some S \<and> pod_key (demo_pod []) |\<in>| S)"
proof -
  let ?p = "demo_pod [''10.1.2.3'']" and ?q = "demo_pod [''10.1.2.4'']"
  let ?reach = "any_reach demo_T demo_G (fou_ok sim_host sim_good sim_view) (fou_has_peer sim_view)"
  have key: "pod_key ?p = pod_key (demo_pod [])" "pod_key ?q = pod_key (demo_pod [])" by (simp_all add: pod_key_def demo_pod_def)
  have h: "shouldHandle demo_watcher ?p" "\<not> isTerminated ?p" "\<not> isTerminated ?q" by code_simp+
  let ?r = "snd (handlePodRunning demo_T demo_G ?p demo_watcher)"
  let ?r' = "snd (handlePodRunning demo_T demo_G ?q ?r)"
  have h': "shouldHandle ?r ?q" by code_simp
  have run: "handlePodRunning demo_T demo_G ?p demo_watcher = (Inr (), ?r)" using run_pair[OF demo_handle] .
  have "fst (handlePodRunning demo_T demo_G ?q ?r) = Inr ()" by code_simp
  then have run': "handlePodRunning demo_T demo_G ?q ?r = (Inr (), ?r')" by (rule run_pair)
  have d: "pod_DeletionTimestamp ?p = None" "pod_DeletionTimestamp ?q = None" by (simp_all add: demo_pod_def)
  have "?reach demo_watcher" unfolding demo_watcher_def using demo_ok demo_no_peer by (rule any_start)
  moreover have "Reconcile demo_T demo_G (Inr ?p) (pod_key ?p) demo_watcher = (Inr (), ?r)"
    using h(1,2) d(1) run by (rule Reconcile_running)
  ultimately have "?reach ?r" by (rule any_step)
  moreover have "Reconcile demo_T demo_G (Inr ?q) (pod_key ?q) ?r = (Inr (), ?r')"
    using h' h(3) d(2) run' by (rule Reconcile_running)
  ultimately have reach: "?reach ?r'" by (rule any_step)
  have "pw_podToPodIPs ?r' (pod_key ?q) = Some [Addr4 0x0A010204]" by code_simp
  then have "Addr4 0x0A010204 \<in> set (existing_ips ?r' (pod_key (demo_pod [])))" by (simp add: existing_ips_def key(2)[symmetric])
  with watcher_lists_tunnels[OF reach] run run' show ?thesis by blast
qed

text \<open>
  \<open>handlePodRunning\<close> is idempotent: for a pod whose recorded addresses are the ones
  it reports, the call succeeds, calls neither the tunnel controller nor the NAT
  gateway, and leaves the watcher as it is, whatever these two are.
\<close>

lemma handlePodRunning_idempotent:
  assumes "maps_ok r" "pw_podToPodIPs r (pod_key p) = Some ips" "parse_ips (pod_PodIPs p) = Inr ips"
  shows "handlePodRunning tun gw p r = (Inr (), r)"
  by (rule running_again[OF assms])

text \<open>
  C34. A deletion that fails at its second address cannot be retried. The first address
  has lost the pod's key while the list of addresses still starts with it, so
  \<open>existsOtherLiveTunnels\<close> reports an error and every later \<open>handlePodDeletion\<close> of this
  pod fails at once, even with a controller that would succeed: the second tunnel
  stays for good.
\<close>

theorem handlePodDeletion_no_retry:
  assumes "existing_ips r key = a # b # rest" "a \<noteq> b"
    and "deletion_step tun key a r = (Inr u, r1)" "deletion_step tun key b r1 = (Inl e, r2)"
  shows "handlePodDeletion tun key r = (Inl e, r2) \<and> (\<exists>e'. handlePodDeletion tun' key r2 = (Inl e', r2))"
  using deletion_partial[OF assms] deletion_stuck[of r2 key a "b # rest" tun'] by blast

theorem handlePodDeletion_no_retry_witness:
  "\<exists>tun r r2 e e'. handlePodDeletion tun (pod_key (demo_pod [])) r = (Inl e, r2) \<and>
     handlePodDeletion mock_tunnel (pod_key (demo_pod [])) r2 = (Inl e', r2)"
proof -
  let ?a = "Addr4 1" and ?b = "Addr4 2" and ?key = "pod_key (demo_pod [])"
  let ?t = "mock_tunnel\<lparr>tun_DelPeer := \<lambda>x w. if x = ?b then (Inl (LibErr ''busy''), w) else mock_DelPeer x w\<rparr>"
  let ?r = "record_ips ?key [?a, ?b] (NewPodWatcher ''egress'' ''egress-ns'' NewMocks)"
  let ?r1 = "snd (deletion_step ?t ?key ?a ?r)"
  have ex: "existing_ips ?r ?key = [?a, ?b]" "?a \<noteq> ?b" by simp_all
  have "fst (deletion_step ?t ?key ?a ?r) = Inr ()" by code_simp
  then have 1: "deletion_step ?t ?key ?a ?r = (Inr (), ?r1)" by (rule run_pair)
  have "fst (deletion_step ?t ?key ?b ?r1) = Inl (LibErr ''busy'')" by code_simp
  then have 2: "deletion_step ?t ?key ?b ?r1 = (Inl (LibErr ''busy''), snd (deletion_step ?t ?key ?b ?r1))" by (rule run_pair)
  from handlePodDeletion_no_retry[OF ex 1 2, of mock_tunnel] show ?thesis by blast
qed

text \<open>
  C37. Which annotations make the watcher handle a pod: one whose key is the prefix
  followed by the egress's namespace, and whose value is the egress's name, or is a
  comma-separated list that contains the egress's namespace. In a list of several
  names the watcher does not look for its own name.
\<close>

theorem shouldHandle_iff:
  "shouldHandle r pod \<longleftrightarrow> \<not> pod_HostNetwork pod \<and>
     (\<exists>(k, name)\<in>set (pod_Annotations pod). k = EgressAnnotationPrefix @ pw_EgressNamespace r \<and>
        (name = pw_EgressName r \<or> pw_EgressNamespace r \<in> set (Split name CHR '','')))"
  by (simp add: shouldHandle_def hasEgressAnnotation_def annotation_loop_iff)

text \<open>
  C35. A pod that loses an address. The call that sees it removes the tunnel of that
  address even when another pod still has the address, and leaves the pod's key in the
  address's set: the two maps no longer agree, and a later deletion of the other pod
  counts the stale key as a live tunnel.
\<close>

theorem handlePodRunning_lost_address:
  assumes "fou_ok h good view (pw_world r)" "maps_ok r" "parse_ips (pod_PodIPs p) = Inr ips"
    and "handlePodRunning (fou_tunnel h t) (nat_gateway_of h c) p r = (Inr u, r')"
    and "a \<in> set (existing_ips r (pod_key p))" "a \<notin> set ips"
  shows "\<not> fou_has_peer view (pw_world r') a \<and> \<not> maps_ok r' \<and>
    (\<forall>k. k \<noteq> pod_key p \<longrightarrow> a \<in> set (existing_ips r k) \<longrightarrow>
       a \<in> set (existing_ips r' k) \<and> existsOtherLiveTunnels r' k a = Inr True)"
proof -
  note d = net.running_drops[OF assms(1,4,3,5,6)]
  from assms(2,5) have key: "pod_key p |\<in>| keyset (pw_podIPToPod r') a" using d by (simp add: maps_ok_def)
  moreover have "a \<notin> set (existing_ips r' (pod_key p))" using d assms(6) by simp
  ultimately have "\<not> maps_ok r'" unfolding maps_ok_def by blast
  moreover have "existsOtherLiveTunnels r' k a = Inr True" if "k \<noteq> pod_key p" "a \<in> set (existing_ips r k)" for k
  proof -
    from that(2) assms(2) d have "k |\<in>| keyset (pw_podIPToPod r') a" by (simp add: maps_ok_def)
    from existsOther_ok[OF this] key that(1) show ?thesis by auto
  qed
  ultimately show ?thesis using d by auto
qed

theorem handlePodRunning_lost_address_witness:
  "\<exists>r r'. handlePodRunning demo_T demo_G (demo_pod [''10.1.2.3'']) demo_watcher = (Inr (), r) \<and> maps_ok r \<and>
     handlePodRunning demo_T demo_G (demo_pod [''10.1.2.4'']) r = (Inr (), r') \<and> \<not> maps_ok r'"
proof -
  let ?p = "demo_pod [''10.1.2.3'']" and ?q = "demo_pod [''10.1.2.4'']"
  obtain r where run: "handlePodRunning demo_T demo_G ?p demo_watcher = (Inr (), r)" using run_pair[OF demo_handle] by blast
  have "fst (handlePodRunning demo_T demo_G ?q (snd (handlePodRunning demo_T demo_G ?p demo_watcher))) = Inr ()" by code_simp
  with run obtain r' where run': "handlePodRunning demo_T demo_G ?q r = (Inr (), r')" using run_pair by (metis snd_conv)
  have inv: "net.watcher_inv sim_host sim_good sim_view demo_tun demo_watcher"
    using demo_ok demo_no_peer by (simp add: net.watcher_inv_def demo_watcher_def peers_exact_def tracked_def) (simp add: NewPodWatcher_def)
  have p: "parse_ips (pod_PodIPs ?p) = Inr [Addr4 0x0A010203]" using demo_parse by (simp add: demo_pod_def)
  from net.watcher_inv_running[OF inv this _ _ run] have r: "fou_ok sim_host sim_good sim_view (pw_world r)" "maps_ok r"
    by (auto simp: net.watcher_inv_def demo_watcher_def)
  have q: "parse_ips (pod_PodIPs ?q) = Inr [Addr4 0x0A010204]" unfolding demo_pod_def by code_simp
  have "pw_podToPodIPs (snd (handlePodRunning demo_T demo_G ?p demo_watcher)) (pod_key ?q) = Some [Addr4 0x0A010203]" by code_simp
  with run have "Addr4 0x0A010203 \<in> set (existing_ips r (pod_key ?q))" by (simp add: existing_ips_def)
  from handlePodRunning_lost_address[OF r q run' this] run run' r show ?thesis by auto
qed

end
