(* ===== verification/NatGatewayMain.thy ===== *)
theory NatGatewayMain
  imports PodWatcher EgressController
begin

text \<open>
  The start of the gateway binary (\<open>cmd/nat-gateway/main.go\<close>): it reads the name of
  its egress and its own addresses from the environment, starts the tunnel controller
  and the NAT gateway with them and builds the pod watcher. Flags, logging, metrics and
  the manager of controller-runtime are left out. Where the code logs an error and
  exits with status 1, the model fails with that error.
\<close>

section \<open>The program\<close>

definition env_unset :: "string \<Rightarrow> err" where
  "env_unset name = Errorf (name @ '' environment variable must be set'')"

fun parse_addresses :: "string list \<Rightarrow> addr option \<Rightarrow> addr option \<Rightarrow> err + addr option \<times> addr option" where
  "parse_addresses [] ipv4 ipv6 = Inr (ipv4, ipv6)"
| "parse_addresses (addr # rest) ipv4 ipv6 =
     (case ParseAddr addr of
        Inl _ \<Rightarrow> Inl (Errorf (EnvAddresses @ '' contains invalid address''))
      | Inr n \<Rightarrow> if Is4 n then parse_addresses rest (Some n) ipv6 else parse_addresses rest ipv4 (Some n))"

record 'k gateway_process =
  gp_fou :: fou_controller
  gp_gateway :: gateway
  gp_watcher :: "'k pod_watcher"

definition nat_gateway_main :: "'k host \<Rightarrow> (string \<Rightarrow> string) \<Rightarrow> int \<Rightarrow> ('k, 'k gateway_process) io" where
  "nat_gateway_main h Getenv FoUPort =
     (let myNS = Getenv EnvPodNamespace; myName = Getenv EnvEgressName; myAddresses = Split (Getenv EnvAddresses) CHR '','' in
      if myNS = [] then throw (env_unset EnvPodNamespace)
      else if myName = [] then throw (env_unset EnvEgressName)
      else if length myAddresses = 0 then throw (env_unset EnvAddresses)
      else
        (case parse_addresses myAddresses None None of
           Inl e \<Rightarrow> throw e
         | Inr (ipv4, ipv6) \<Rightarrow>
             (case NewFoUTunnelController FoUPort ipv4 ipv6 of
                Inl e \<Rightarrow> throw e
              | Inr fc \<Rightarrow>
                  bind_io (fou_Init h fc) (\<lambda>_.
                  case NewGateway ''eth0'' ipv4 ipv6 of
                    Inl e \<Rightarrow> throw e
                  | Inr nc \<Rightarrow>
                      bind_io (gateway_Init h nc) (\<lambda>_ k.
                      (Inr \<lparr>gp_fou = fc, gp_gateway = nc, gp_watcher = NewPodWatcher myName myNS k\<rparr>, k))))))"

section \<open>Lemmas\<close>

text \<open>The last address of each kind, starting from what was there.\<close>

definition last_addr :: "(addr \<Rightarrow> bool) \<Rightarrow> addr list \<Rightarrow> addr option \<Rightarrow> addr option" where
  "last_addr P as d = (case filter P as of [] \<Rightarrow> d | xs \<Rightarrow> Some (last xs))"

lemma last_addr_Cons: "last_addr P (a # as) d = last_addr P as (if P a then Some a else d)"
  by (auto simp: last_addr_def split: list.splits)

lemma parse_addresses_Inr:
  "parse_addresses ss ipv4 ipv6 = Inr q \<longleftrightarrow>
     (\<forall>s\<in>set ss. \<exists>a. ParseAddr s = Inr a) \<and>
     q = (last_addr Is4 (map (\<lambda>s. projr (ParseAddr s)) ss) ipv4, last_addr (\<lambda>a. \<not> Is4 a) (map (\<lambda>s. projr (ParseAddr s)) ss) ipv6)"
proof (induction ss arbitrary: ipv4 ipv6)
  case Nil
  show ?case by (auto simp: last_addr_def)
next
  case (Cons s ss)
  show ?case by (cases "ParseAddr s") (auto simp: Cons last_addr_Cons)
qed

lemma egressDummy_not_fou: "fouName a \<noteq> Inr egressDummy"
  using fouName_form[of a egressDummy] by (auto simp: egressDummy_def)

lemma gateway_ready_links [simp]: "k_links (gateway_ready c K) = k_links K"
  by (simp add: gateway_ready_def gateway_ready_family_def set_chain_def split: option.splits)

text \<open>A dummy device is no peer.\<close>

lemma dummy_no_peer:
  assumes "spec_LinkAdd (Dummy (NewLinkAttrs\<lparr>la_Name := d\<rparr>)) l K K'" "fouName a = Inr n" "n \<noteq> d"
  shows "k_links K' n = k_links K n"
proof -
  from assms(1) obtain M where "fallbacks_appear K M" "K' = M\<lparr>k_links := (k_links M)(d \<mapsto> l)\<rparr>"
    by (auto simp: spec_LinkAdd_def NewLinkAttrs_def)
  with fallbacks_aux[of K M] fouName_not_aux[OF assms(2)] assms(3) show ?thesis by (auto simp: aux_only_def)
qed

lemma nat_gateway_main_inv:
  assumes "nat_gateway_main h env port k = (Inr p, k')"
  obtains ipv4 ipv6 k1 where "env EnvPodNamespace \<noteq> []" "env EnvEgressName \<noteq> []"
    "parse_addresses (Split (env EnvAddresses) CHR '','') None None = Inr (ipv4, ipv6)"
    "NewFoUTunnelController port ipv4 ipv6 = Inr (gp_fou p)" "fou_Init h (gp_fou p) k = (Inr (), k1)"
    "NewGateway ''eth0'' ipv4 ipv6 = Inr (gp_gateway p)" "gateway_Init h (gp_gateway p) k1 = (Inr (), k')"
    "gp_watcher p = NewPodWatcher (env EnvEgressName) (env EnvPodNamespace) k'"
  using assms unfolding nat_gateway_main_def Let_def
  by (auto simp: bind_io_Inr split: if_split_asm sum.split_asm)

context host_laws
begin

lemma nat_gateway_main_ready:
  assumes g: "good k" and c: "nat_gateway_main h env port k = (Inr p, k')"
  shows "good k' \<and> (\<forall>a. fou_has_peer view k' a \<longleftrightarrow> fou_has_peer view k a) \<and>
    k_links (view k') fouDummy \<noteq> None \<and> k_links (view k') egressDummy \<noteq> None"
  using c
proof (rule nat_gateway_main_inv)
  fix ipv4 ipv6 k1
  assume fi: "fou_Init h (gp_fou p) k = (Inr (), k1)" and gi: "gateway_Init h (gp_gateway p) k1 = (Inr (), k')"
  note F = fou_Init_returns[OF g fi]
  then have k1: "good k1" "k_links (view k1) fouDummy \<noteq> None" by (auto simp: spec_LinkAdd_def split: if_split_asm)
  note G = gateway_Init_returns[OF k1(1) gi]
  then have k': "good k'" "k_links (view k') egressDummy \<noteq> None" by (auto simp: spec_LinkAdd_def split: if_split_asm)
  have n1: "k_links (view k1) n = k_links (view k) n" if "fouName a = Inr n" for a n
    using F dummy_no_peer[OF _ that] fouName_not_aux[OF that] by (auto split: if_split_asm)
  have n2: "k_links (view k') n = k_links (view k1) n" if "fouName a = Inr n" for a n
    using G dummy_no_peer[OF _ that] egressDummy_not_fou[of a] that by (auto split: if_split_asm)
  have "fouDummy \<notin> fallback_names" "fouDummy \<noteq> egressDummy" by (auto simp: fouDummy_def egressDummy_def fallback_names_def)
  then have "k_links (view k') fouDummy \<noteq> None" using G k1(2)
    by (auto simp: spec_LinkAdd_def fallbacks_appear_def NewLinkAttrs_def split: if_split_asm) (metis option.simps(3))
  with k' n1 n2 show ?thesis by (auto simp: fou_has_peer_def)
qed

end

text \<open>The state of a process that has started.\<close>

definition gateway_started ::
  "'k host \<Rightarrow> ('k \<Rightarrow> bool) \<Rightarrow> ('k \<Rightarrow> kern) \<Rightarrow> (string \<Rightarrow> string) \<Rightarrow> int \<Rightarrow> 'k gateway_process \<Rightarrow> 'k \<Rightarrow> bool" where
  "gateway_started h good view env port p k' \<longleftrightarrow>
    watch_reach (fou_tunnel h (gp_fou p)) (nat_gateway_of h (gp_gateway p)) (fou_ok h good view) (fou_has_peer view) fou_clash (gp_watcher p) \<and>
    pw_EgressName (gp_watcher p) = env EnvEgressName \<and> pw_EgressNamespace (gp_watcher p) = env EnvPodNamespace \<and>
    fc_port (gp_fou p) = port \<and> fc_local4 (gp_fou p) = gt_ipv4 (gp_gateway p) \<and> fc_local6 (gp_fou p) = gt_ipv6 (gp_gateway p) \<and>
    k_links (view k') fouDummy \<noteq> None \<and> k_links (view k') egressDummy \<noteq> None"

lemma nat_gateway_main_basics:
  assumes "host_laws h good view" "good k" "nat_gateway_main h env port k = (Inr p, k')"
  shows "pw_EgressName (gp_watcher p) = env EnvEgressName \<and> pw_EgressNamespace (gp_watcher p) = env EnvPodNamespace \<and>
    fc_port (gp_fou p) = port \<and> fc_local4 (gp_fou p) = gt_ipv4 (gp_gateway p) \<and> fc_local6 (gp_fou p) = gt_ipv6 (gp_gateway p)"
  using assms(3) by (rule nat_gateway_main_inv) (simp add: NewFoU_fields NewGateway_fields, simp add: NewPodWatcher_def)

lemma nat_gateway_main_started:
  assumes "host_laws h good view" "good k" "\<And>a. \<not> fou_has_peer view k a" "nat_gateway_main h env port k = (Inr p, k')"
  shows "gateway_started h good view env port p k'"
proof -
  from nat_gateway_main_inv[OF assms(4)] have w: "gp_watcher p = NewPodWatcher (env EnvEgressName) (env EnvPodNamespace) k'" by metis
  from host_laws.nat_gateway_main_ready[OF assms(1,2,4)] assms(3) have r: "good k'" "\<And>a. \<not> fou_has_peer view k' a"
    "k_links (view k') fouDummy \<noteq> None" "k_links (view k') egressDummy \<noteq> None" by auto
  have "watch_reach (fou_tunnel h (gp_fou p)) (nat_gateway_of h (gp_gateway p)) (fou_ok h good view) (fou_has_peer view) fou_clash (gp_watcher p)"
    unfolding w by (rule watch_reach.start) (use r assms(1) in \<open>simp_all add: fou_ok_def\<close>)
  with r nat_gateway_main_basics[OF assms(1,2,4)] show ?thesis by (simp add: gateway_started_def)
qed

section \<open>Properties\<close>

text \<open>
  C14. A gateway process that has started has both of its controllers initialised on the same
  addresses and its port, watches the egress named by its environment, tracks no address, and
  has left the tunnels of the namespace as they were. In a namespace without tunnels it is
  then an initial state of the watcher, from which the exactness of its tunnels holds while
  the pods keep their addresses. In one with tunnels, as a container restarted in the same
  pod finds them, it is not: they stay, and nothing tracks them.
\<close>

theorem nat_gateway_main_starts:
  assumes "host_laws h good view" "good k" "nat_gateway_main h env port k = (Inr p, k')"
  shows "pw_EgressName (gp_watcher p) = env EnvEgressName \<and> pw_EgressNamespace (gp_watcher p) = env EnvPodNamespace \<and>
    fc_port (gp_fou p) = port \<and> fc_local4 (gp_fou p) = gt_ipv4 (gp_gateway p) \<and> fc_local6 (gp_fou p) = gt_ipv6 (gp_gateway p) \<and>
    k_links (view k') fouDummy \<noteq> None \<and> k_links (view k') egressDummy \<noteq> None \<and>
    pw_world (gp_watcher p) = k' \<and> (\<forall>a. \<not> tracked (gp_watcher p) a) \<and> (\<forall>a. fou_has_peer view k' a \<longleftrightarrow> fou_has_peer view k a) \<and>
    ((\<forall>a. \<not> fou_has_peer view k a) \<longrightarrow>
       watch_reach (fou_tunnel h (gp_fou p)) (nat_gateway_of h (gp_gateway p)) (fou_ok h good view) (fou_has_peer view) fou_clash (gp_watcher p))"
proof -
  from nat_gateway_main_inv[OF assms(3)] have w: "gp_watcher p = NewPodWatcher (env EnvEgressName) (env EnvPodNamespace) k'" by metis
  then have "\<not> tracked (gp_watcher p) a" "pw_world (gp_watcher p) = k'" for a by (simp_all add: tracked_def) (simp add: NewPodWatcher_def)
  with nat_gateway_main_basics[OF assms] host_laws.nat_gateway_main_ready[OF assms] nat_gateway_main_started[OF assms(1,2) _ assms(3)] show ?thesis
    by (simp add: gateway_started_def)
qed

definition demo_getenv :: "string \<Rightarrow> string" where
  "demo_getenv n = (if n = EnvPodNamespace then ''internet'' else if n = EnvEgressName then ''egress-a''
     else if n = EnvAddresses then ''10.1.0.7'' else [])"

lemma demo_main: "\<not> isl (fst (nat_gateway_main sim_host demo_getenv 5555 sim_empty))"
  by code_simp

theorem nat_gateway_main_starts_witness:
  "\<exists>p k'. nat_gateway_main sim_host demo_getenv 5555 sim_empty = (Inr p, k') \<and> pw_EgressName (gp_watcher p) = ''egress-a'' \<and>
     k_links (sim_view k') fouDummy \<noteq> None \<and> k_links (sim_view k') egressDummy \<noteq> None"
proof -
  obtain p k' where r: "nat_gateway_main sim_host demo_getenv 5555 sim_empty = (Inr p, k')"
    using demo_main by (metis isl_def prod.collapse sum.exhaust)
  have "\<not> fou_has_peer sim_view sim_empty a" for a by (simp add: fou_has_peer_def sim_view_def sim_empty_def sim_find_def)
  moreover have "demo_getenv EnvEgressName = ''egress-a''" by code_simp
  ultimately show ?thesis
    using nat_gateway_main_starts[OF sim_kernel.host_laws_axioms sim_good_empty r] r by auto
qed

text \<open>
  Which addresses the gateway uses: the variable is split at commas, every part must
  be an address or the process exits, and of several addresses of a family the last
  one counts; an IPv4-mapped address counts as IPv6. An unset variable is an address
  that does not parse: the check for an empty list is never true.
\<close>

lemma nat_gateway_main_addresses:
  assumes "nat_gateway_main h env port k = (Inr p, k')"
  shows "(\<forall>s\<in>set (Split (env EnvAddresses) CHR '',''). \<exists>a. ParseAddr s = Inr a) \<and>
    (let as = map (\<lambda>s. projr (ParseAddr s)) (Split (env EnvAddresses) CHR '','') in
     gt_ipv4 (gp_gateway p) = last_addr Is4 as None \<and> gt_ipv6 (gp_gateway p) = last_addr (\<lambda>a. \<not> Is4 a) as None) \<and>
    env EnvAddresses \<noteq> []"
  using assms
proof (rule nat_gateway_main_inv)
  fix ipv4 ipv6
  assume a: "parse_addresses (Split (env EnvAddresses) CHR '','') None None = Inr (ipv4, ipv6)"
    and g: "NewGateway ''eth0'' ipv4 ipv6 = Inr (gp_gateway p)"
  have "\<forall>a. ParseAddr [] \<noteq> Inr a" by (simp add: ParseAddr_def parse_addr_opt_def)
  moreover from g have "gt_ipv4 (gp_gateway p) = ipv4" "gt_ipv6 (gp_gateway p) = ipv6"
    by (simp_all add: NewGateway_fields)
  ultimately show ?thesis using a[unfolded parse_addresses_Inr] by (auto simp: Let_def)
qed

end
