(* ===== verification/NatClient.thy ===== *)
theory NatClient
  imports HostSim "HOL-Library.AList"
begin

text \<open>
  The client side of package \<open>nat\<close> (\<open>pkg/nat/client.go\<close>), which \<open>ponad\<close> runs in
  the network namespace of a pod: one policy rule per family that sends traffic to
  table 117, throw routes for the local networks and one route per subnet through the
  tunnel. A Go map from prefixes to routes is an association list with distinct keys;
  the order in which \<open>range\<close> visits it is the argument \<open>ord\<close>.
\<close>

section \<open>The file\<close>

definition ncProtocolID :: int where "ncProtocolID = 30"

definition ncTableID :: int where "ncTableID = 117"

definition throwMetric :: int where "throwMetric = 500"

definition routeMetric :: int where "routeMetric = 100"

definition ncPrio :: int where "ncPrio = 1900"

text \<open>A \<open>MustParsePrefix\<close> that panics would stop the program at start-up; none of these does.\<close>

definition v4PrivateList :: "netip_prefix list" where
  "v4PrivateList = map (the \<circ> MustParsePrefix) [''10.0.0.0/8'', ''172.16.0.0/12'', ''192.168.0.0/16'']"

definition v6PrivateList :: "netip_prefix list" where
  "v6PrivateList = map (the \<circ> MustParsePrefix) [''fc00::/7'']"

definition v4LinkLocal :: netip_prefix where
  "v4LinkLocal = the (MustParsePrefix ''169.254.0.0/16'')"

definition v6LinkLocal :: netip_prefix where
  "v6LinkLocal = the (MustParsePrefix ''fe80::/10'')"

definition v4DefaultGW :: netip_prefix where
  "v4DefaultGW = the (MustParsePrefix ''0.0.0.0/0'')"

definition v6DefaultGW :: netip_prefix where
  "v6DefaultGW = the (MustParsePrefix ''::/0'')"

record nat_client =
  nc_useipv4 :: bool
  nc_useipv6 :: bool

definition NewNatClient :: "bool \<Rightarrow> bool \<Rightarrow> err + nat_client" where
  "NewNatClient useipv4 useipv6 = Inr \<lparr>nc_useipv4 = useipv4, nc_useipv6 = useipv6\<rparr>"

definition newRuleForClient :: "family \<Rightarrow> int \<Rightarrow> int \<Rightarrow> rule" where
  "newRuleForClient family table prio = (NewRule family)\<lparr>ru_Table := table, ru_Priority := prio\<rparr>"

definition clear :: "'k host \<Rightarrow> family \<Rightarrow> ('k, unit) io" where
  "clear h family =
     (let defaultGW = (if family = FAMILY_V4 then v4DefaultGW else v6DefaultGW) in
      bind_io (on_err (Errorw ''netlink: rule list failed'') (RuleList h family)) (\<lambda>rules.
      bind_io (for_each (\<lambda>r.
          if ru_Priority r \<noteq> ncPrio then ret ()
          else on_err (Errorw ''netlink: failed to delete a rule'')
            (RuleDel h (if ru_Dst r = None then r\<lparr>ru_Dst := Some (ToIPNet defaultGW)\<rparr> else r))) rules) (\<lambda>_.
      bind_io (on_err (Errorw ''netlink: route list failed'') (RouteListFiltered h family ncTableID)) (\<lambda>routes.
      for_each (\<lambda>r.
          on_err (Errorw ''netlink: failed to delete a route in table'')
            (RouteDel h (if rt_Dst r = None then r\<lparr>rt_Dst := Some (ToIPNet defaultGW)\<rparr> else r))) routes))))"

definition nc_init_family :: "'k host \<Rightarrow> family \<Rightarrow> string \<Rightarrow> ('k, unit) io" where
  "nc_init_family h family msg =
     bind_io (clear h family) (\<lambda>_.
     on_err (Errorw msg) (RuleAdd h (newRuleForClient family ncTableID ncPrio)))"

definition nc_Init :: "'k host \<Rightarrow> nat_client \<Rightarrow> ('k, unit) io" where
  "nc_Init h c =
     bind_io (if nc_useipv4 c then nc_init_family h FAMILY_V4 ''netlink: failed to add v4 natclient rule'' else ret ()) (\<lambda>_.
     if nc_useipv6 c then nc_init_family h FAMILY_V6 ''netlink: failed to add v6 natclient rule'' else ret ())"

definition nc_IsInitialized :: "'k host \<Rightarrow> nat_client \<Rightarrow> ('k, bool) io" where
  "nc_IsInitialized h c =
     (if nc_useipv4 c then
        bind_io (on_err (Errorw ''netlink: failed to list v4 rule'') (RuleListFiltered h FAMILY_V4 ncTableID)) (\<lambda>rules.
        if length rules \<noteq> 1 then ret False else ret True)
      else if nc_useipv6 c then
        bind_io (on_err (Errorw ''netlink: failed to list v6 rule'') (RuleListFiltered h FAMILY_V6 ncTableID)) (\<lambda>rules.
        if length rules \<noteq> 1 then ret False else ret True)
      else ret True)"

text \<open>A destination that does not convert is an error of its own (it wraps a nil error).\<close>

fun collect_loop :: "int \<Rightarrow> route list \<Rightarrow> (netip_prefix \<times> route) list \<Rightarrow> err + (netip_prefix \<times> route) list" where
  "collect_loop linkIndex [] routes = Inr routes"
| "collect_loop linkIndex (r # ro) routes =
     (case rt_Dst r of
        Some dst \<Rightarrow>
          if rt_LinkIndex r = linkIndex then
            (case FromIPNet dst of
               None \<Rightarrow> Inl (Errorf ''failed to convert to netip.Addr from net.IP'')
             | Some d \<Rightarrow> collect_loop linkIndex ro (AList.update d r routes))
          else collect_loop linkIndex ro routes
      | None \<Rightarrow> collect_loop linkIndex ro routes)"

definition collectRoute1 :: "'k host \<Rightarrow> int \<Rightarrow> family \<Rightarrow> ('k, (netip_prefix \<times> route) list) io" where
  "collectRoute1 h linkIndex family =
     bind_io (on_err (Errorw ''netlink: failed to list v4 routes'') (RouteListFiltered h family ncTableID)) (\<lambda>ro.
     case collect_loop linkIndex ro [] of Inl e \<Rightarrow> throw e | Inr routes \<Rightarrow> ret routes)"

definition maps_Copy :: "('a \<times> 'b) list \<Rightarrow> ('a \<times> 'b) list \<Rightarrow> ('a \<times> 'b) list" where
  "maps_Copy dst src = fold (\<lambda>(k, v). AList.update k v) src dst"

definition collectRoutes :: "'k host \<Rightarrow> int \<Rightarrow> ('k, (netip_prefix \<times> route) list) io" where
  "collectRoutes h linkIndex =
     bind_io (on_err (Errorw ''failed to collect routes'') (collectRoute1 h linkIndex FAMILY_V4)) (\<lambda>r4.
     bind_io (on_err (Errorw ''failed to collect routes'') (collectRoute1 h linkIndex FAMILY_V6)) (\<lambda>r6.
     ret (maps_Copy r4 r6)))"

definition subnetsSet :: "netip_prefix list \<Rightarrow> netip_prefix fset" where
  "subnetsSet subnets = fold finsert subnets {||}"

definition throw_route :: "netip_prefix \<Rightarrow> route" where
  "throw_route n =
     zero_route\<lparr>rt_Table := ncTableID, rt_Dst := Some (ToIPNet n), rt_Type := RTN_THROW,
       rt_Protocol := ncProtocolID, rt_Priority := throwMetric\<rparr>"

definition addThrow :: "'k host \<Rightarrow> netip_prefix \<Rightarrow> ('k, unit) io" where
  "addThrow h n = on_err (Errorw ''netlink: failed to add route'') (RouteAdd h (throw_route n))"

definition subnet_route :: "link \<Rightarrow> netip_prefix \<Rightarrow> route" where
  "subnet_route link n =
     zero_route\<lparr>rt_Table := ncTableID, rt_Dst := Some (ToIPNet n), rt_LinkIndex := link_index link,
       rt_Protocol := ncProtocolID, rt_Priority := routeMetric\<rparr>"

definition addRoute :: "'k host \<Rightarrow> link \<Rightarrow> netip_prefix \<Rightarrow> ('k, unit) io" where
  "addRoute h link n = on_err (Errorw ''netlink: failed to add route'') (RouteAdd h (subnet_route link n))"

definition delRoute :: "'k host \<Rightarrow> route \<Rightarrow> ('k, unit) io" where
  "delRoute h n = RouteDel h n"

definition throw_list :: "netip_prefix list" where
  "throw_list = v4PrivateList @ v6PrivateList @ [v4LinkLocal, v6LinkLocal]"

type_synonym range_order = "(netip_prefix \<times> route) list \<Rightarrow> (netip_prefix \<times> route) list"

definition UpdateRoutes :: "'k host \<Rightarrow> range_order \<Rightarrow> link \<Rightarrow> netip_prefix list \<Rightarrow> ('k, unit) io" where
  "UpdateRoutes h ord link subnets =
     bind_io (on_err (Errorw ''failed to collect routes'') (collectRoutes h (link_index link))) (\<lambda>current.
     let adds = filter (\<lambda>n. map_of current n = None) subnets;
         sset = subnetsSet subnets;
         dels = map snd (filter (\<lambda>(subnet, route). subnet |\<notin>| sset) (ord current)) in
     bind_io (on_err (Errorw ''netlink: failed to link up'') (LinkSetUp h link)) (\<lambda>_.
     bind_io (for_each (addThrow h) throw_list) (\<lambda>_.
     bind_io (for_each (addRoute h link) adds) (\<lambda>_.
     for_each (delRoute h) dels))))"

section \<open>The constants\<close>

lemma v4_constants:
  "v4PrivateList = [PrefixFrom (Addr4 0x0A000000) 8, PrefixFrom (Addr4 0xAC100000) 12, PrefixFrom (Addr4 0xC0A80000) 16]"
  "v4LinkLocal = PrefixFrom (Addr4 0xA9FE0000) 16" "v4DefaultGW = PrefixFrom (Addr4 0) 0"
  by code_simp+

lemma v6_private: "MustParsePrefix ''fc00::/7'' = Some (PrefixFrom (Addr6 0xfc000000000000000000000000000000 []) 7)"
proof -
  have "parse_addr_opt ''fc00::'' = Some (Addr6 (bytes_word [0xfc, 0, 0, 0, 0, 0, 0, 0, 0, 0, 0, 0, 0, 0, 0, 0]) [])"
    by (rule parse_addr6[where ip = "[0xfc, 0]" and el = "Some 2"]; code_simp)
  moreover have "bytes_word [0xfc, 0, 0, 0, 0, 0, 0, 0, 0, 0, 0, 0, 0, 0, 0, 0] = (0xfc000000000000000000000000000000 :: 128 word)"
    by (simp add: bytes_word_def)
  moreover have "dec_val ''7'' = 7" "split_slash ''fc00::/7'' = Some (''fc00::'', ''7'')" by code_simp+
  ultimately show ?thesis using parse_prefix6[of "''fc00::/7''" "''fc00::''" "''7''"] by (auto simp: is_digit_def)
qed

lemma v6_link_local: "MustParsePrefix ''fe80::/10'' = Some (PrefixFrom (Addr6 0xfe800000000000000000000000000000 []) 10)"
proof -
  have "parse_addr_opt ''fe80::'' = Some (Addr6 (bytes_word [0xfe, 0x80, 0, 0, 0, 0, 0, 0, 0, 0, 0, 0, 0, 0, 0, 0]) [])"
    by (rule parse_addr6[where ip = "[0xfe, 0x80]" and el = "Some 2"]; code_simp)
  moreover have "bytes_word [0xfe, 0x80, 0, 0, 0, 0, 0, 0, 0, 0, 0, 0, 0, 0, 0, 0] = (0xfe800000000000000000000000000000 :: 128 word)"
    by (simp add: bytes_word_def)
  moreover have "dec_val ''10'' = 10" "split_slash ''fe80::/10'' = Some (''fe80::'', ''10'')" by code_simp+
  ultimately show ?thesis
    using parse_prefix6[of "''fe80::/10''" "''fe80::''" "''10''"] by (auto simp: is_digit_def digit_val_def)
qed

lemma v6_default: "MustParsePrefix ''::/0'' = Some (PrefixFrom (Addr6 0 []) 0)"
proof -
  have "split_slash ''::/0'' = Some (''::'', ''0'')" "dec_val ''0'' = 0" "addr_kind ''::'' = Some CHR '':''" by code_simp+
  then show ?thesis using parse_prefix6[of "''::/0''" "''::''" "''0''" 0]
    by (auto simp: is_digit_def parse_addr_opt_def parseIPv6_def)
qed

lemma v6_constants:
  "v6PrivateList = [PrefixFrom (Addr6 0xfc000000000000000000000000000000 []) 7]"
  "v6LinkLocal = PrefixFrom (Addr6 0xfe800000000000000000000000000000 []) 10"
  "v6DefaultGW = PrefixFrom (Addr6 0 []) 0"
  by (simp_all add: v6PrivateList_def v6LinkLocal_def v6DefaultGW_def v6_private v6_link_local v6_default)

lemma word_bytes_zero [simp]: "word_bytes n 0 = replicate n 0"
  by (auto simp: word_bytes_def intro!: nth_equalityI)

lemma default_gw_net: "ToIPNet (if f = FAMILY_V4 then v4DefaultGW else v6DefaultGW) = default_net f"
  by (cases f) (simp_all add: v4_constants v6_constants ToIPNet_def FromAddr_def PrefixFrom_def Bits_def
      default_net_def CIDRMask_def cidr_bytes_zero)

section \<open>Start-up\<close>

definition routes_typed :: "kern \<Rightarrow> bool" where
  "routes_typed K \<longleftrightarrow> (\<forall>f. \<forall>r\<in>k_routes K f. rt_Table r = ncTableID \<longrightarrow> rt_Dst r \<noteq> None \<and> route_family r = f)"

text \<open>What \<open>clear\<close> leaves: every rule of another priority, every route of another table.\<close>

definition cleared :: "family \<Rightarrow> kern \<Rightarrow> kern" where
  "cleared f K =
     K\<lparr>k_rules := (k_rules K)(f := filter_mset (\<lambda>r. ru_Priority r \<noteq> ncPrio) (k_rules K f)),
       k_routes := (k_routes K)(f := {r \<in> k_routes K f. rt_Table r \<noteq> ncTableID})\<rparr>"

definition with_rule :: "rule \<Rightarrow> kern \<Rightarrow> kern" where
  "with_rule r K = K\<lparr>k_rules := (k_rules K)(ru_Family r := add_mset r (k_rules K (ru_Family r)))\<rparr>"

definition client_ready :: "family \<Rightarrow> kern \<Rightarrow> kern" where
  "client_ready f K = with_rule (newRuleForClient f ncTableID ncPrio) (cleared f K)"

definition fill_rule :: "family \<Rightarrow> rule \<Rightarrow> rule" where
  "fill_rule f r = (if ru_Dst r = None then r\<lparr>ru_Dst := Some (default_net f)\<rparr> else r)"

definition fill_route :: "family \<Rightarrow> route \<Rightarrow> route" where
  "fill_route f r = (if rt_Dst r = None then r\<lparr>rt_Dst := Some (default_net f)\<rparr> else r)"

lemma clear_alt:
  "clear h f =
     bind_io (on_err (Errorw ''netlink: rule list failed'') (RuleList h f)) (\<lambda>rules.
     bind_io (for_each (\<lambda>r. if ru_Priority r \<noteq> ncPrio then ret ()
        else on_err (Errorw ''netlink: failed to delete a rule'') (RuleDel h (fill_rule f r))) rules) (\<lambda>_.
     bind_io (on_err (Errorw ''netlink: route list failed'') (RouteListFiltered h f ncTableID)) (\<lambda>routes.
     for_each (\<lambda>r. on_err (Errorw ''netlink: failed to delete a route in table'') (RouteDel h (fill_route f r))) routes)))"
  unfolding clear_def Let_def fill_rule_def fill_route_def default_gw_net ..

lemma canon_fill_rule: "ru_Family r = f \<Longrightarrow> rule_canon (fill_rule f r) = rule_canon r"
  by (cases r) (auto simp: rule_canon_def fill_rule_def)

lemma ru_Family_fill [simp]: "ru_Family (fill_rule f r) = ru_Family r"
  by (simp add: fill_rule_def)

lemma ru_Priority_canon [simp]: "ru_Priority (rule_canon r) = ru_Priority r"
  by (simp add: rule_canon_def)

lemma fill_route_shown: "shown_as f l r \<Longrightarrow> rt_Dst l \<noteq> None \<Longrightarrow> fill_route f r = l"
  by (cases l) (auto simp: shown_as_def fill_route_def)

lemma mset_map_partition: "mset (map f xs) = mset (map f (filter P xs)) + mset (map f (filter (\<lambda>x. \<not> P x) xs))"
  by (induction xs) auto

context host_laws
begin

lemma clear_rules:
  assumes g: "good k" and rs: "mset (map rule_canon rs) = k_rules (view k) f" "\<forall>r\<in>set rs. ru_Family r = f"
    and c: "for_each (\<lambda>r. if ru_Priority r \<noteq> ncPrio then ret ()
        else on_err (Errorw msg) (RuleDel h (fill_rule f r))) rs k = (Inr u, k')"
  shows "good k' \<and> view k' = (view k)\<lparr>k_rules := (k_rules (view k))(f := filter_mset (\<lambda>r. ru_Priority r \<noteq> ncPrio) (k_rules (view k) f))\<rparr>"
proof -
  define gone where "gone ys = mset (map rule_canon (filter (\<lambda>r. ru_Priority r = ncPrio) ys))" for ys
  let ?P = "\<lambda>ys s. good s \<and> view s = (view k)\<lparr>k_rules := (k_rules (view k))(f := k_rules (view k) f - gone ys)\<rparr>"
  have "?P rs k'"
  proof (rule for_each_done[OF c])
    show "?P [] k" using g by (simp add: gone_def)
  next
    fix ys x zs s v t
    assume split: "rs = ys @ x # zs" and P: "?P ys s"
      and step: "(if ru_Priority x \<noteq> ncPrio then ret () else on_err (Errorw msg) (RuleDel h (fill_rule f x))) s = (Inr v, t)"
    show "?P (ys @ [x]) t"
    proof (cases "ru_Priority x = ncPrio")
      case False
      with step P show ?thesis by (simp add: gone_def)
    next
      case True
      with step have "RuleDel h (fill_rule f x) s = (Inr v, t)" by (simp add: io_inv)
      from meets_Inr[OF RuleDel this] P have t: "good t" "spec_RuleDel (fill_rule f x) v (view s) (view t)" by auto
      have x: "ru_Family x = f" "rule_canon (fill_rule f x) = rule_canon x"
        using rs(2) split by (auto simp: canon_fill_rule)
      have "rule_canon x \<in># k_rules (view k) f - gone ys"
        unfolding rs(1)[symmetric] split gone_def
        using mset_map_partition[of rule_canon ys "\<lambda>r. ru_Priority r = ncPrio"] by simp
      with t P x show ?thesis by (auto simp: spec_RuleDel_def gone_def True)
    qed
  qed
  moreover have "k_rules (view k) f - gone rs = filter_mset (\<lambda>r. ru_Priority r \<noteq> ncPrio) (k_rules (view k) f)"
  proof -
    have "k_rules (view k) f = gone rs + mset (map rule_canon (filter (\<lambda>r. ru_Priority r \<noteq> ncPrio) rs))"
      unfolding rs(1)[symmetric] gone_def by (rule mset_map_partition)
    moreover have "filter_mset (\<lambda>r. ru_Priority r \<noteq> ncPrio) (mset (map rule_canon rs)) =
        mset (map rule_canon (filter (\<lambda>r. ru_Priority r \<noteq> ncPrio) rs))"
      by (induction rs) auto
    ultimately show ?thesis unfolding rs(1) by (metis add_diff_cancel_left')
  qed
  ultimately show ?thesis by simp
qed

lemma clear_routes:
  assumes g: "good k" and typed: "routes_typed (view k)"
    and ls: "distinct ls" "set ls = {r \<in> k_routes (view k) f. rt_Table r = ncTableID}" "list_all2 (shown_as f) ls rs"
    and c: "for_each (\<lambda>r. on_err (Errorw msg) (RouteDel h (fill_route f r))) rs k = (Inr u, k')"
  shows "good k' \<and> view k' = (view k)\<lparr>k_routes := (k_routes (view k))(f := {r \<in> k_routes (view k) f. rt_Table r \<noteq> ncTableID})\<rparr>"
proof -
  from typed ls(2) have "\<forall>l\<in>set ls. rt_Dst l \<noteq> None \<and> route_family l = f" by (auto simp: routes_typed_def)
  with ls(3) have rs: "map (fill_route f) rs = ls"
    by (intro nth_equalityI) (auto simp: list_all2_conv_all_nth fill_route_shown)
  let ?P = "\<lambda>ys s. good s \<and> view s = (view k)\<lparr>k_routes := (k_routes (view k))(f := k_routes (view k) f - set (map (fill_route f) ys))\<rparr>"
  have "?P rs k'"
  proof (rule for_each_done[OF c])
    show "?P [] k" using g by simp
  next
    fix ys x zs s v t
    assume split: "rs = ys @ x # zs" and P: "?P ys s" and step: "on_err (Errorw msg) (RouteDel h (fill_route f x)) s = (Inr v, t)"
    let ?x = "fill_route f x"
    from step have "RouteDel h ?x s = (Inr v, t)" by (simp add: io_inv)
    from meets_Inr[OF RouteDel this] P have t: "good t" "spec_RouteDel ?x v (view s) (view t)" by auto
    from rs split ls(1) have "?x \<in> set ls" "?x \<notin> set (map (fill_route f) ys)" by auto
    with typed ls(2) have "?x \<in> k_routes (view s) f" "route_family ?x = f" using P by (auto simp: routes_typed_def)
    with t have "view t = (view s)\<lparr>k_routes := (k_routes (view s))(f := k_routes (view s) f - {?x})\<rparr>"
      by (simp add: spec_RouteDel_def)
    moreover have "k_routes (view k) f - set (map (fill_route f) ys) - {?x} = k_routes (view k) f - set (map (fill_route f) (ys @ [x]))"
      by auto
    ultimately show "?P (ys @ [x]) t" using P t(1) by simp
  qed
  moreover from ls(2) have "k_routes (view k) f - set ls = {r \<in> k_routes (view k) f. rt_Table r \<noteq> ncTableID}" by auto
  ultimately show ?thesis unfolding rs by simp
qed

lemma clear_returns:
  assumes g: "good k" and typed: "routes_typed (view k)" and c: "clear h f k = (Inr u, k')"
  shows "good k' \<and> view k' = cleared f (view k)"
proof -
  from c obtain rs k1 v k2 qs k3 where l: "RuleList h f k = (Inr rs, k1)"
    and d: "for_each (\<lambda>r. if ru_Priority r \<noteq> ncPrio then ret ()
        else on_err (Errorw ''netlink: failed to delete a rule'') (RuleDel h (fill_rule f r))) rs k1 = (Inr v, k2)"
    and m: "RouteListFiltered h f ncTableID k2 = (Inr qs, k3)"
    and e: "for_each (\<lambda>r. on_err (Errorw ''netlink: failed to delete a route in table'') (RouteDel h (fill_route f r))) qs k3 = (Inr u, k')"
    unfolding clear_alt bind_io_Inr on_err_Inr by blast
  from meets_Inr[OF RuleList l g] have k1: "good k1" "view k1 = view k"
    and rs: "mset (map rule_canon rs) = k_rules (view k1) f" "\<forall>r\<in>set rs. ru_Family r = f" by (auto simp: spec_RuleList_def)
  from clear_rules[OF k1(1) rs d] have k2: "good k2" and v2: "view k2 =
    (view k)\<lparr>k_rules := (k_rules (view k))(f := filter_mset (\<lambda>r. ru_Priority r \<noteq> ncPrio) (k_rules (view k) f))\<rparr>"
    by (auto simp: k1)
  from meets_Inr[OF RouteListFiltered m k2] obtain ls where k3: "good k3" "view k3 = view k2"
    and ls: "distinct ls" "set ls = {r \<in> k_routes (view k3) f. rt_Table r = ncTableID}" "list_all2 (shown_as f) ls qs"
    by (auto simp: spec_RouteListFiltered_def)
  from typed have "routes_typed (view k3)" by (simp add: k3 v2 routes_typed_def)
  from clear_routes[OF k3(1) this ls e] show ?thesis by (simp add: k3 v2 cleared_def)
qed

lemma nc_init_family_returns:
  assumes g: "good k" and typed: "routes_typed (view k)" and c: "nc_init_family h f msg k = (Inr u, k')"
  shows "good k' \<and> view k' = client_ready f (view k)"
proof -
  let ?r = "newRuleForClient f ncTableID ncPrio"
  from c obtain v k1 where "clear h f k = (Inr v, k1)" and add: "RuleAdd h ?r k1 = (Inr u, k')"
    by (auto simp: nc_init_family_def io_inv)
  from clear_returns[OF g typed this(1)] have k1: "good k1" "view k1 = cleared f (view k)" by auto
  have r: "rule_canon ?r = ?r" by (simp add: rule_canon_def newRuleForClient_def NewRule_def)
  from meets_Inr[OF RuleAdd add k1(1)] k1(2) show ?thesis
    by (simp add: spec_RuleAdd_def r client_ready_def with_rule_def)
qed

lemma routes_typed_ready [simp]: "routes_typed K \<Longrightarrow> routes_typed (client_ready f K)"
  by (auto simp: routes_typed_def client_ready_def with_rule_def cleared_def)

lemma nc_Init_returns:
  assumes g: "good k" and typed: "routes_typed (view k)" and c: "nc_Init h cl k = (Inr u, k')"
  shows "good k' \<and> view k' =
    (if nc_useipv6 cl then client_ready FAMILY_V6 else id) ((if nc_useipv4 cl then client_ready FAMILY_V4 else id) (view k))"
proof -
  from c obtain v k1 where c4: "(if nc_useipv4 cl then nc_init_family h FAMILY_V4 ''netlink: failed to add v4 natclient rule'' else ret ()) k = (Inr v, k1)"
    and c6: "(if nc_useipv6 cl then nc_init_family h FAMILY_V6 ''netlink: failed to add v6 natclient rule'' else ret ()) k1 = (Inr u, k')"
    by (auto simp: nc_Init_def bind_io_Inr)
  from c4 have k1: "good k1 \<and> view k1 = (if nc_useipv4 cl then client_ready FAMILY_V4 else id) (view k)"
    using nc_init_family_returns[OF g typed] g by (auto split: if_splits)
  with typed have "routes_typed (view k1)" by (cases "nc_useipv4 cl") simp_all
  with k1 nc_init_family_returns[of k1 FAMILY_V6 "''netlink: failed to add v6 natclient rule''" u k'] c6
  show ?thesis by (cases "nc_useipv6 cl") simp_all
qed

lemma nc_IsInitialized_returns:
  assumes g: "good k" and c: "nc_IsInitialized h cl k = (Inr b, k')"
  shows "good k' \<and> view k' = view k \<and>
    b = (if nc_useipv4 cl then size (filter_mset (\<lambda>r. ru_Table r = ncTableID) (k_rules (view k) FAMILY_V4)) = 1
         else if nc_useipv6 cl then size (filter_mset (\<lambda>r. ru_Table r = ncTableID) (k_rules (view k) FAMILY_V6)) = 1
         else True)"
proof -
  have "good k' \<and> view k' = view k \<and> b = (size (filter_mset (\<lambda>r. ru_Table r = ncTableID) (k_rules (view k) f)) = 1)"
    if "RuleListFiltered h f ncTableID k = (Inr rs, k')" "b = (length rs = 1)" for f rs
  proof -
    from meets_Inr[OF RuleListFiltered that(1) g] have "good k' \<and> view k' = view k"
      and "mset (map rule_canon rs) = filter_mset (\<lambda>r. ru_Table r = ncTableID) (k_rules (view k) f)"
      by (auto simp: spec_RuleListFiltered_def)
    moreover from this(2) have "length rs = size (filter_mset (\<lambda>r. ru_Table r = ncTableID) (k_rules (view k) f))"
      by (metis length_map size_mset)
    ultimately show ?thesis using that(2) by simp
  qed
  with g c show ?thesis by (auto simp: nc_IsInitialized_def io_inv split: if_splits)
qed

end

section \<open>Routes\<close>

definition clean_prefix :: "netip_prefix \<Rightarrow> bool" where
  "clean_prefix n \<longleftrightarrow> Prefix_IsValid n \<and> \<not> Is4In6 (p_ip n) \<and> no_host_bits (ToIPNet n)"

definition prefix_family :: "netip_prefix \<Rightarrow> family" where
  "prefix_family n = ip_family (FromAddr (p_ip n))"

text \<open>The routes of table 117 through the device with index \<open>i\<close>.\<close>

definition via :: "kern \<Rightarrow> int \<Rightarrow> (family \<times> route) set" where
  "via K i = {(f, r). r \<in> k_routes K f \<and> rt_Table r = ncTableID \<and> rt_LinkIndex r = i}"

text \<open>They are the client's own: one per destination, with the client's metric.\<close>

definition own_routes :: "(family \<times> route) set \<Rightarrow> bool" where
  "own_routes V \<longleftrightarrow>
     (\<forall>(f, r)\<in>V. rt_Priority r = routeMetric \<and>
        (\<exists>n. clean_prefix n \<and> rt_Dst r = Some (ToIPNet n) \<and> f = prefix_family n)) \<and>
     (\<forall>(f, q)\<in>V. \<forall>(g, r)\<in>V. rt_Dst q = rt_Dst r \<longrightarrow> q = r)"

definition dsts :: "(family \<times> route) set \<Rightarrow> netip_prefix set" where
  "dsts V = {n. clean_prefix n \<and> (\<exists>(f, r)\<in>V. rt_Dst r = Some (ToIPNet n))}"

lemma ToIPNet_inject: "clean_prefix m \<Longrightarrow> clean_prefix n \<Longrightarrow> ToIPNet m = ToIPNet n \<longleftrightarrow> m = n"
  by (metis FromIPNet_ToIPNet_id clean_prefix_def option.inject)

lemma FromIPNet_clean: "clean_prefix n \<Longrightarrow> FromIPNet (ToIPNet n) = Some n"
  by (simp add: clean_prefix_def FromIPNet_ToIPNet_id)

lemma own_routes_dst:
  assumes "own_routes V" "(f, r) \<in> V"
  obtains n where "n \<in> dsts V" "rt_Dst r = Some (ToIPNet n)" "f = prefix_family n" "clean_prefix n" "rt_Priority r = routeMetric"
  using assms by (fastforce simp: own_routes_def dsts_def)

lemma own_routes_unique:
  assumes V: "own_routes V" and q: "(f, q) \<in> V" and r: "(g, r) \<in> V" and eq: "rt_Dst q = rt_Dst r"
  shows "q = r \<and> f = g"
proof
  from V q r eq show "q = r" unfolding own_routes_def by blast
  from own_routes_dst[OF V q] obtain m where m: "rt_Dst q = Some (ToIPNet m)" "f = prefix_family m" "clean_prefix m" .
  from own_routes_dst[OF V r] obtain n where n: "rt_Dst r = Some (ToIPNet n)" "g = prefix_family n" "clean_prefix n" .
  from eq m n ToIPNet_inject[OF m(3) n(3)] show "f = g" by simp
qed

lemma own_routes_insert:
  assumes "own_routes V" "clean_prefix n" "n \<notin> dsts V" "rt_Dst r = Some (ToIPNet n)" "rt_Priority r = routeMetric"
  shows "own_routes (insert (prefix_family n, r) V) \<and> dsts (insert (prefix_family n, r) V) = insert n (dsts V)"
proof
  from assms(2,3) have "\<forall>(f, q)\<in>V. rt_Dst q \<noteq> rt_Dst r" by (auto simp: dsts_def assms(4))
  with assms(1,2,4,5) show "own_routes (insert (prefix_family n, r) V)" by (fastforce simp: own_routes_def)
  show "dsts (insert (prefix_family n, r) V) = insert n (dsts V)"
    using assms(2,4) by (auto simp: dsts_def ToIPNet_inject)
qed

lemma own_routes_remove:
  assumes "own_routes V" "(f, r) \<in> V" "rt_Dst r = Some (ToIPNet n)" "clean_prefix n"
  shows "own_routes (V - {(f, r)}) \<and> dsts (V - {(f, r)}) = dsts V - {n}"
proof
  show "own_routes (V - {(f, r)})" using assms(1) unfolding own_routes_def by blast
  have "n \<notin> dsts (V - {(f, r)})"
    using own_routes_unique[OF assms(1,2)] assms(3) by (auto simp: dsts_def)
  moreover have "m \<in> dsts (V - {(f, r)})" if m: "m \<in> dsts V" "m \<noteq> n" for m
  proof -
    from m(1) obtain g q where q: "clean_prefix m" "(g, q) \<in> V" "rt_Dst q = Some (ToIPNet m)" by (auto simp: dsts_def)
    with m(2) assms(3,4) ToIPNet_inject[of m n] have "q \<noteq> r" by auto
    with q show ?thesis by (auto simp: dsts_def)
  qed
  moreover have "dsts (V - {(f, r)}) \<subseteq> dsts V" by (auto simp: dsts_def)
  ultimately show "dsts (V - {(f, r)}) = dsts V - {n}" by blast
qed

subsection \<open>Collecting\<close>

text \<open>\<open>collected S C\<close>: the map \<open>C\<close> has an entry for each prefix of a route in \<open>S\<close>, and no other.\<close>

definition key_of :: "route \<Rightarrow> netip_prefix option" where
  "key_of r = (case rt_Dst r of None \<Rightarrow> None | Some d \<Rightarrow> FromIPNet d)"

definition collected :: "route set \<Rightarrow> (netip_prefix \<times> route) list \<Rightarrow> bool" where
  "collected S C \<longleftrightarrow> distinct (map fst C) \<and>
     (\<forall>n r. (n, r) \<in> set C \<longrightarrow> r \<in> S \<and> key_of r = Some n) \<and>
     (\<forall>r n. r \<in> S \<longrightarrow> key_of r = Some n \<longrightarrow> n \<in> fst ` set C)"

lemma update_pairs: "(n, r) \<in> set (AList.update d x C) \<Longrightarrow> (n, r) \<in> set C \<or> (n = d \<and> r = x)"
  by (induction C) (auto split: if_splits)

lemma update_keys: "fst ` set (AList.update d x C) = insert d (fst ` set C)"
  by (simp add: AList.dom_update)

lemma collected_update:
  assumes "collected S C" "key_of r = Some n"
  shows "collected (insert r S) (AList.update n r C)"
  using assms unfolding collected_def update_keys
  by (auto intro: distinct_update dest!: update_pairs)

lemma collected_more:
  assumes "collected S C" "S \<subseteq> T" "\<And>r. r \<in> T \<Longrightarrow> r \<notin> S \<Longrightarrow> key_of r = None"
  shows "collected T C"
proof -
  have "n \<in> fst ` set C" if "r \<in> T" "key_of r = Some n" for r n
    using assms(1) assms(3)[OF that(1)] that(2) unfolding collected_def by fastforce
  with assms(1,2) show ?thesis unfolding collected_def by blast
qed

lemma collect_loop_collected:
  assumes "collect_loop i rs C = Inr D" "collected S C"
  shows "collected (S \<union> {r \<in> set rs. rt_LinkIndex r = i}) D"
  using assms
proof (induction rs arbitrary: S C)
  case (Cons r rs)
  show ?case
  proof (cases "rt_LinkIndex r = i \<and> rt_Dst r \<noteq> None")
    case True
    with Cons.prems(1) obtain n where n: "key_of r = Some n" "collect_loop i rs (AList.update n r C) = Inr D"
      by (auto simp: key_of_def split: option.splits)
    have "insert r S \<union> {r \<in> set rs. rt_LinkIndex r = i} = S \<union> {x \<in> set (r # rs). rt_LinkIndex x = i}" using True by auto
    with Cons.IH[OF n(2) collected_update[OF Cons.prems(2) n(1)]] show ?thesis by (simp only:)
  next
    case False
    then have "collect_loop i rs C = Inr D" using Cons.prems(1) by (auto split: option.splits)
    from collected_more[OF Cons.IH[OF this Cons.prems(2)], of "S \<union> {x \<in> set (r # rs). rt_LinkIndex x = i}"] False
    show ?thesis by (auto simp: key_of_def)
  qed
qed simp

lemma collected_Copy:
  assumes "collected S C" "collected T D"
  shows "collected (S \<union> T) (maps_Copy C D)"
proof -
  have pairs: "(n, r) \<in> set (fold (\<lambda>(k, v). AList.update k v) E C') \<Longrightarrow> (n, r) \<in> set C' \<or> (n, r) \<in> set E" for n r E C'
    by (induction E arbitrary: C') (fastforce dest: update_pairs)+
  have keys: "fst ` set (fold (\<lambda>(k, v). AList.update k v) E C') = fst ` set C' \<union> fst ` set E" for E C'
    by (induction E arbitrary: C') (simp_all add: case_prod_beta update_keys)
  have dist: "distinct (map fst C') \<Longrightarrow> distinct (map fst (fold (\<lambda>(k, v). AList.update k v) E C'))" for E C'
    by (induction E arbitrary: C') (auto simp: distinct_update)
  show ?thesis using assms unfolding collected_def maps_Copy_def keys by (auto simp: dist dest!: pairs)
qed

lemma key_of_own: "clean_prefix n \<Longrightarrow> rt_Dst r = Some (ToIPNet n) \<Longrightarrow> key_of r = Some n"
  by (simp add: key_of_def FromIPNet_clean)

lemma collected_own:
  assumes V: "own_routes V" and C: "collected (snd ` V) C"
  shows "fst ` set C = dsts V"
    and "(n, r) \<in> set C \<Longrightarrow> clean_prefix n \<and> rt_Dst r = Some (ToIPNet n) \<and> (prefix_family n, r) \<in> V"
proof -
  show *: "clean_prefix n \<and> rt_Dst r = Some (ToIPNet n) \<and> (prefix_family n, r) \<in> V" if "(n, r) \<in> set C" for n r
  proof -
    from that C obtain f where f: "(f, r) \<in> V" "key_of r = Some n" by (force simp: collected_def)
    from own_routes_dst[OF V f(1)] obtain m where "rt_Dst r = Some (ToIPNet m)" "f = prefix_family m" "clean_prefix m" .
    with f key_of_own[of m r] show ?thesis by auto
  qed
  have "n \<in> fst ` set C" if "n \<in> dsts V" for n
  proof -
    from that obtain f r where "clean_prefix n" "(f, r) \<in> V" "rt_Dst r = Some (ToIPNet n)" by (auto simp: dsts_def)
    with C key_of_own[of n r] show ?thesis unfolding collected_def by (metis image_eqI snd_conv)
  qed
  with * show "fst ` set C = dsts V" by (fastforce simp: dsts_def)
qed

subsection \<open>Updating\<close>

definition no_default :: "(family \<times> route) set \<Rightarrow> bool" where
  "no_default V \<longleftrightarrow> (\<forall>(f, r)\<in>V. rt_Dst r \<noteq> Some (default_net f))"

lemma no_default_shown: "no_default V \<Longrightarrow> (f, r) \<in> V \<Longrightarrow> shown_as f r q \<Longrightarrow> q = r"
  unfolding no_default_def shown_as_def by blast

lemma snd_families: "snd ` V = {r. (FAMILY_V4, r) \<in> V} \<union> {r. (FAMILY_V6, r) \<in> V}"
proof (rule set_eqI)
  fix r
  have "r \<in> snd ` V \<longleftrightarrow> (\<exists>f. (f, r) \<in> V)" by force
  also have "\<dots> \<longleftrightarrow> (FAMILY_V4, r) \<in> V \<or> (FAMILY_V6, r) \<in> V" by (metis family.exhaust)
  finally show "r \<in> snd ` V \<longleftrightarrow> r \<in> {r. (FAMILY_V4, r) \<in> V} \<union> {r. (FAMILY_V6, r) \<in> V}" by simp
qed

lemma via_pair: "(f, r) \<in> via K i \<longleftrightarrow> r \<in> k_routes K f \<and> rt_Table r = ncTableID \<and> rt_LinkIndex r = i"
  by (simp add: via_def)

lemma subnetsSet_mem: "n |\<in>| subnetsSet ns \<longleftrightarrow> n \<in> set ns"
proof -
  have "n |\<in>| fold finsert ns S \<longleftrightarrow> n \<in> set ns \<or> n |\<in>| S" for S by (induction ns arbitrary: S) auto
  then show ?thesis by (simp add: subnetsSet_def)
qed

definition v4Private10 :: netip_prefix where
  "v4Private10 = PrefixFrom (Addr4 0x0A000000) 8"

text \<open>Table 117 already holds the throw route for 10.0.0.0/8.\<close>

definition has_throw :: "kern \<Rightarrow> bool" where
  "has_throw K \<longleftrightarrow> (\<exists>j\<in>{0, 1}. \<exists>q. (FAMILY_V4, q) \<in> via K j \<and> same_route_key q (throw_route v4Private10))"

lemma throw_list_hd: "\<exists>rest. throw_list = v4Private10 # rest"
  by (simp add: throw_list_def v4_constants v4Private10_def)

lemma v4Private10_facts:
  "no_host_bits (ToIPNet v4Private10)" "route_family (throw_route v4Private10) = FAMILY_V4" "clean_prefix v4Private10"
  by (simp_all only: v4Private10_def clean_prefix_def) code_simp+

lemma collected_Nil: "collected {} []"
  by (simp add: collected_def)

lemma collectRoute1_inv:
  assumes "collectRoute1 h i f k = (Inr C, k')"
  obtains rs where "RouteListFiltered h f ncTableID k = (Inr rs, k')" "collect_loop i rs [] = Inr C"
proof -
  from assms obtain rs k1 where "RouteListFiltered h f ncTableID k = (Inr rs, k1)"
    and "(case collect_loop i rs [] of Inl e \<Rightarrow> throw e | Inr routes \<Rightarrow> ret routes) k1 = (Inr C, k')"
    unfolding collectRoute1_def bind_io_Inr on_err_Inr by blast
  then show thesis by (intro that) (auto split: sum.split_asm)
qed

context host_laws
begin

lemma collectRoute1_returns:
  assumes g: "good k" and nd: "no_default (via (view k) i)" and c: "collectRoute1 h i f k = (Inr C, k')"
  shows "good k' \<and> view k' = view k \<and> collected {r. (f, r) \<in> via (view k) i} C"
proof -
  from collectRoute1_inv[OF c] obtain rs where l: "RouteListFiltered h f ncTableID k = (Inr rs, k')"
    and col: "collect_loop i rs [] = Inr C" .
  from meets_Inr[OF RouteListFiltered l g] obtain ls where k': "good k'" "view k' = view k"
    and ls: "set ls = {r \<in> k_routes (view k) f. rt_Table r = ncTableID}" "list_all2 (shown_as f) ls rs"
    by (auto simp: spec_RouteListFiltered_def)
  have "r \<in> set rs" if r: "(f, r) \<in> via (view k) i" for r
  proof -
    from r ls(1) have "r \<in> set ls" by (simp add: via_pair)
    with ls(2) obtain q where "q \<in> set rs" "shown_as f r q" by (metis in_set_conv_nth list_all2_conv_all_nth)
    with no_default_shown[OF nd r, of q] show ?thesis by simp
  qed
  moreover have "(f, r) \<in> via (view k) i" if r: "r \<in> set rs" "rt_LinkIndex r = i" for r
  proof -
    from r(1) ls(2) obtain q where q: "q \<in> set ls" "shown_as f q r" by (metis in_set_conv_nth list_all2_conv_all_nth)
    with r(2) ls(1) have "(f, q) \<in> via (view k) i" by (auto simp: via_pair shown_as_def)
    with no_default_shown[OF nd this q(2)] show ?thesis by simp
  qed
  moreover have "rt_LinkIndex r = i" if "(f, r) \<in> via (view k) i" for r using that by (simp add: via_pair)
  ultimately have "{} \<union> {r \<in> set rs. rt_LinkIndex r = i} = {r. (f, r) \<in> via (view k) i}" by blast
  with collect_loop_collected[OF col collected_Nil] k' show ?thesis by simp
qed

lemma collectRoutes_returns:
  assumes g: "good k" and nd: "no_default (via (view k) i)" and c: "collectRoutes h i k = (Inr C, k')"
  shows "good k' \<and> view k' = view k \<and> collected (snd ` via (view k) i) C"
proof -
  from c obtain r4 k1 r6 where c4: "collectRoute1 h i FAMILY_V4 k = (Inr r4, k1)"
    and c6: "collectRoute1 h i FAMILY_V6 k1 = (Inr r6, k')" and C: "C = maps_Copy r4 r6"
    by (auto simp: collectRoutes_def io_inv)
  from collectRoute1_returns[OF g nd c4] have k1: "good k1" "view k1 = view k" and r4: "collected {r. (FAMILY_V4, r) \<in> via (view k) i} r4"
    by auto
  from collectRoute1_returns[OF k1(1) _ c6] nd have k': "good k'" "view k' = view k"
    and r6: "collected {r. (FAMILY_V6, r) \<in> via (view k) i} r6" by (auto simp: k1)
  with collected_Copy[OF r4 r6] C show ?thesis by (simp add: snd_families)
qed

lemma LinkSetUp_via:
  "good k \<Longrightarrow> LinkSetUp h l k = (Inr u, k') \<Longrightarrow> good k' \<and> via (view k') i = via (view k) i"
  by (drule (1) meets_Inr[OF LinkSetUp]) (auto simp: spec_LinkSetUp_def via_def)

lemma addThrow_via:
  assumes "good k" "addThrow h n k = (Inr u, k')" "i \<notin> {0, 1}"
  shows "good k' \<and> via (view k') i = via (view k) i"
proof -
  from assms(2) have "RouteAdd h (throw_route n) k = (Inr u, k')" by (simp add: addThrow_def io_inv)
  from meets_Inr[OF RouteAdd this assms(1)] obtain s where k': "good k'" and st: "stored_route (throw_route n) s"
    and v: "view k' = (view k)\<lparr>k_routes := (k_routes (view k))(route_family (throw_route n) := insert s (k_routes (view k) (route_family (throw_route n))))\<rparr>"
    by (auto simp: spec_RouteAdd_def)
  from st have "rt_LinkIndex s \<in> {0, 1}" by (simp add: stored_route_def throw_route_def zero_route_def)
  with assms(3) k' show ?thesis by (auto simp: v via_def split: if_splits)
qed

lemma addRoute_via:
  assumes g: "good k" and c: "addRoute h l n k = (Inr u, k')" and i: "link_index l \<noteq> 0"
    and V: "own_routes (via (view k) (link_index l))" and n: "clean_prefix n"
  shows "good k' \<and> own_routes (via (view k') (link_index l)) \<and> via (view k) (link_index l) \<subseteq> via (view k') (link_index l) \<and>
    dsts (via (view k') (link_index l)) = insert n (dsts (via (view k) (link_index l)))"
proof -
  let ?f = "prefix_family n" and ?V = "via (view k) (link_index l)"
  from c have add: "RouteAdd h (subnet_route l n) k = (Inr u, k')" by (simp add: addRoute_def io_inv)
  have fam: "route_family (subnet_route l n) = ?f"
    by (simp add: route_family_def subnet_route_def prefix_family_def ToIPNet_def)
  from meets_Inr[OF RouteAdd add g] fam obtain s where k': "good k'" and st: "stored_route (subnet_route l n) s"
    and fresh: "\<forall>q\<in>k_routes (view k) ?f. \<not> same_route_key q s"
    and v: "view k' = (view k)\<lparr>k_routes := (k_routes (view k))(?f := insert s (k_routes (view k) ?f))\<rparr>"
    by (auto simp: spec_RouteAdd_def)
  from st n i have s: "rt_Table s = ncTableID" "rt_LinkIndex s = link_index l" "rt_Dst s = Some (ToIPNet n)" "rt_Priority s = routeMetric"
    by (auto simp: stored_route_def subnet_route_def clean_prefix_def routeMetric_def)
  have "n \<notin> dsts ?V"
  proof
    assume "n \<in> dsts ?V"
    then obtain f q where q: "(f, q) \<in> ?V" "rt_Dst q = Some (ToIPNet n)" by (auto simp: dsts_def)
    from own_routes_dst[OF V q(1)] obtain m where "rt_Dst q = Some (ToIPNet m)" "f = prefix_family m" "clean_prefix m"
      "rt_Priority q = routeMetric" .
    with q n s fresh show False by (auto simp: ToIPNet_inject via_pair same_route_key_def)
  qed
  moreover have "via (view k') (link_index l) = insert (?f, s) ?V" using s by (auto simp: v via_def split: if_splits)
  ultimately show ?thesis using own_routes_insert[OF V n _ s(3,4)] k' by auto
qed

lemma delRoute_via:
  assumes g: "good k" and c: "delRoute h r k = (Inr u, k')" and V: "own_routes (via (view k) i)"
    and r: "(prefix_family n, r) \<in> via (view k) i" "rt_Dst r = Some (ToIPNet n)" "clean_prefix n"
  shows "good k' \<and> via (view k') i = via (view k) i - {(prefix_family n, r)} \<and> (\<forall>j. j \<noteq> i \<longrightarrow> via (view k') j = via (view k) j)"
proof -
  from r(2) have fam: "route_family r = prefix_family n" by (simp add: route_family_def prefix_family_def ToIPNet_def)
  with meets_Inr[OF RouteDel c[unfolded delRoute_def] g] r(1) have "good k'"
    and v: "view k' = (view k)\<lparr>k_routes := (k_routes (view k))(prefix_family n := k_routes (view k) (prefix_family n) - {r})\<rparr>"
    by (simp_all add: spec_RouteDel_def via_pair)
  then show ?thesis using r(1) by (auto simp: v via_def split: if_splits)
qed

lemma addThrows_via:
  assumes "good k" "for_each (addThrow h) ns k = (Inr u, k')" "i \<notin> {0, 1}"
  shows "good k' \<and> via (view k') i = via (view k) i"
  by (rule for_each_done[OF assms(2), where P = "\<lambda>_ s. good s \<and> via (view s) i = via (view k) i"])
    (use assms(1,3) addThrow_via in auto)

lemma addRoutes_via:
  assumes "good k" "for_each (addRoute h l) ns k = (Inr u, k')" "link_index l \<noteq> 0"
    "own_routes (via (view k) (link_index l))" "\<forall>n\<in>set ns. clean_prefix n"
  shows "good k' \<and> own_routes (via (view k') (link_index l)) \<and> via (view k) (link_index l) \<subseteq> via (view k') (link_index l) \<and>
    dsts (via (view k') (link_index l)) = dsts (via (view k) (link_index l)) \<union> set ns"
proof (rule for_each_done[OF assms(2), where P = "\<lambda>ys s. good s \<and> own_routes (via (view s) (link_index l)) \<and>
    via (view k) (link_index l) \<subseteq> via (view s) (link_index l) \<and>
    dsts (via (view s) (link_index l)) = dsts (via (view k) (link_index l)) \<union> set ys"])
  fix ys x zs s v t
  assume split: "ns = ys @ x # zs" and P: "good s \<and> own_routes (via (view s) (link_index l)) \<and>
    via (view k) (link_index l) \<subseteq> via (view s) (link_index l) \<and>
    dsts (via (view s) (link_index l)) = dsts (via (view k) (link_index l)) \<union> set ys"
    and step: "addRoute h l x s = (Inr v, t)"
  from split assms(5) have "clean_prefix x" by simp
  with addRoute_via[OF _ step assms(3)] P show "good t \<and> own_routes (via (view t) (link_index l)) \<and>
    via (view k) (link_index l) \<subseteq> via (view t) (link_index l) \<and>
    dsts (via (view t) (link_index l)) = dsts (via (view k) (link_index l)) \<union> set (ys @ [x])" by auto
qed (use assms in auto)

lemma delRoutes_via:
  assumes "good k" "for_each (delRoute h) (map snd ps) k = (Inr u, k')" "own_routes (via (view k) i)" "distinct (map fst ps)"
    "\<And>n r. (n, r) \<in> set ps \<Longrightarrow> clean_prefix n \<and> rt_Dst r = Some (ToIPNet n) \<and> (prefix_family n, r) \<in> via (view k) i"
  shows "good k' \<and> own_routes (via (view k') i) \<and> dsts (via (view k') i) = dsts (via (view k) i) - fst ` set ps \<and>
    (\<forall>j. j \<noteq> i \<longrightarrow> via (view k') j = via (view k) j)"
  using assms
proof (induction ps arbitrary: k)
  case (Cons p ps)
  obtain n r where p: "p = (n, r)" by (cases p)
  with Cons.prems(2) obtain v t where step: "delRoute h r k = (Inr v, t)" and rest: "for_each (delRoute h) (map snd ps) t = (Inr u, k')"
    by (auto simp: bind_io_Inr)
  have r: "clean_prefix n" "rt_Dst r = Some (ToIPNet n)" "(prefix_family n, r) \<in> via (view k) i"
    using Cons.prems(5)[of n r] p by auto
  from delRoute_via[OF Cons.prems(1) step Cons.prems(3) r(3,2,1)]
  have t: "good t" "via (view t) i = via (view k) i - {(prefix_family n, r)}" "\<forall>j. j \<noteq> i \<longrightarrow> via (view t) j = via (view k) j" by auto
  from own_routes_remove[OF Cons.prems(3) r(3,2,1)] have own: "own_routes (via (view t) i)"
    "dsts (via (view t) i) = dsts (via (view k) i) - {n}" by (auto simp: t)
  have "clean_prefix m \<and> rt_Dst q = Some (ToIPNet m) \<and> (prefix_family m, q) \<in> via (view t) i" if q: "(m, q) \<in> set ps" for m q
  proof -
    from Cons.prems(4) p q have "m \<noteq> n" by force
    with Cons.prems(5)[of m q] q r ToIPNet_inject[of m n] have "q \<noteq> r" by auto
    with Cons.prems(5)[of m q] q t(2) show ?thesis by auto
  qed
  from Cons.IH[OF t(1) rest own(1) _ this] Cons.prems(4) own(2) p t(3) show ?case by auto
qed auto

lemma RouteAdd_throw:
  assumes "good k" "RouteAdd h r k = (Inr u, k')"
  shows "good k' \<and> (has_throw (view k) \<longrightarrow> has_throw (view k'))"
proof -
  from meets_Inr[OF RouteAdd assms(2,1)] have "good k'" "\<forall>j. via (view k) j \<subseteq> via (view k') j"
    by (auto simp: spec_RouteAdd_def via_def)
  then show ?thesis unfolding has_throw_def by blast
qed

lemma for_each_throw:
  assumes "good k" "for_each f ns k = (Inr u, k')"
    and "\<And>n s v t. good s \<Longrightarrow> f n s = (Inr v, t) \<Longrightarrow> good t \<and> (has_throw (view s) \<longrightarrow> has_throw (view t))"
  shows "good k' \<and> (has_throw (view k) \<longrightarrow> has_throw (view k'))"
  by (rule for_each_done[OF assms(2), where P = "\<lambda>_ s. good s \<and> (has_throw (view k) \<longrightarrow> has_throw (view s))"])
    (use assms(1,3) in blast)+

lemma add_throw:
  "good s \<Longrightarrow> addThrow h n s = (Inr v, t) \<Longrightarrow> good t \<and> (has_throw (view s) \<longrightarrow> has_throw (view t))"
  "good s \<Longrightarrow> addRoute h l n s = (Inr v, t) \<Longrightarrow> good t \<and> (has_throw (view s) \<longrightarrow> has_throw (view t))"
  unfolding addThrow_def addRoute_def on_err_Inr by (rule RouteAdd_throw; assumption)+

lemma adds_throw:
  "good s \<Longrightarrow> for_each (addThrow h) ns s = (Inr v, t) \<Longrightarrow> good t \<and> (has_throw (view s) \<longrightarrow> has_throw (view t))"
  by (erule (1) for_each_throw) (erule (1) add_throw(1))

lemma routes_throw:
  "good s \<Longrightarrow> for_each (addRoute h l) ns s = (Inr v, t) \<Longrightarrow> good t \<and> (has_throw (view s) \<longrightarrow> has_throw (view t))"
  by (erule (1) for_each_throw) (erule (1) add_throw(2))

lemma addThrow_has:
  assumes "good k" "addThrow h v4Private10 k = (Inr u, k')"
  shows "good k' \<and> has_throw (view k') \<and> \<not> has_throw (view k)"
proof -
  from assms(2) have "RouteAdd h (throw_route v4Private10) k = (Inr u, k')" by (simp add: addThrow_def io_inv)
  from meets_Inr[OF RouteAdd this assms(1)] obtain s where k': "good k'" and st: "stored_route (throw_route v4Private10) s"
    and fresh: "\<forall>q\<in>k_routes (view k) FAMILY_V4. \<not> same_route_key q s" and "s \<in> k_routes (view k') FAMILY_V4"
    by (auto simp: spec_RouteAdd_def v4Private10_facts)
  moreover from st have "rt_LinkIndex s \<in> {0, 1}" "same_route_key s (throw_route v4Private10)"
    by (auto simp: stored_route_def throw_route_def zero_route_def same_route_key_def throwMetric_def v4Private10_facts)
  ultimately show ?thesis by (fastforce simp: has_throw_def via_pair same_route_key_def throw_route_def)
qed

lemma for_each_addThrow_has:
  assumes "good k" "for_each (addThrow h) throw_list k = (Inr u, k')"
  shows "good k' \<and> has_throw (view k') \<and> \<not> has_throw (view k)"
proof -
  from throw_list_hd obtain rest where "throw_list = v4Private10 # rest" ..
  from assms(2)[unfolded this for_each.simps] obtain v t where "addThrow h v4Private10 k = (Inr v, t)" and rest: "for_each (addThrow h) rest t = (Inr u, k')"
    by (auto simp: bind_io_Inr)
  from addThrow_has[OF assms(1) this(1)] adds_throw[OF _ rest] show ?thesis by blast
qed

lemma UpdateRoutes_returns:
  assumes g: "good k" and c: "UpdateRoutes h ord l subnets k = (Inr u, k')" and ord: "\<And>xs. mset (ord xs) = mset xs"
    and i: "link_index l \<notin> {0, 1}" and V: "own_routes (via (view k) (link_index l))" "no_default (via (view k) (link_index l))"
    and sub: "\<forall>n\<in>set subnets. clean_prefix n"
  shows "good k' \<and> own_routes (via (view k') (link_index l)) \<and> dsts (via (view k') (link_index l)) = set subnets \<and>
    has_throw (view k')"
proof -
  let ?i = "link_index l"
  from c obtain C k1 v k2 w k3 x k4 where col: "collectRoutes h ?i k = (Inr C, k1)" and up: "LinkSetUp h l k1 = (Inr v, k2)"
    and th: "for_each (addThrow h) throw_list k2 = (Inr w, k3)"
    and ad: "for_each (addRoute h l) (filter (\<lambda>n. map_of C n = None) subnets) k3 = (Inr x, k4)"
    and de: "for_each (delRoute h) (map snd (filter (\<lambda>(subnet, route). subnet |\<notin>| subnetsSet subnets) (ord C))) k4 = (Inr u, k')"
    unfolding UpdateRoutes_def bind_io_Inr on_err_Inr Let_def by blast
  from collectRoutes_returns[OF g V(2) col] have k1: "good k1" "view k1 = view k" and C: "collected (snd ` via (view k) ?i) C" by auto
  from LinkSetUp_via[OF k1(1) up, of ?i] addThrows_via[OF _ th i] have k3: "good k3" "via (view k3) ?i = via (view k) ?i"
    by (auto simp: k1)
  have "own_routes (via (view k3) ?i)" using V(1) k3(2) by simp
  from addRoutes_via[OF k3(1) ad _ this] sub i have k4: "good k4" "own_routes (via (view k4) ?i)"
    and sub4: "via (view k) ?i \<subseteq> via (view k4) ?i"
    and d4: "dsts (via (view k4) ?i) = dsts (via (view k) ?i) \<union> set (filter (\<lambda>n. map_of C n = None) subnets)"
    by (auto simp: k3)
  let ?D = "filter (\<lambda>(subnet, route). subnet |\<notin>| subnetsSet subnets) (ord C)"
  have oC: "set (ord C) = set C" using ord[of C] by (rule mset_eq_setD)
  have "distinct (map fst (ord C))"
    using C mset_eq_imp_distinct_iff[of "map fst (ord C)" "map fst C"] ord[of C] by (simp add: collected_def)
  then have dist: "distinct (map fst ?D)" by (rule distinct_map_filter)
  have "clean_prefix n \<and> rt_Dst r = Some (ToIPNet n) \<and> (prefix_family n, r) \<in> via (view k4) ?i" if "(n, r) \<in> set ?D" for n r
    using collected_own(2)[OF V(1) C, of n r] that sub4 oC by auto
  from delRoutes_via[OF k4(1) de k4(2) dist this] have k': "good k'" "own_routes (via (view k') ?i)"
    and rest: "\<And>j. j \<noteq> ?i \<Longrightarrow> via (view k') j = via (view k4) j"
    and d': "dsts (via (view k') ?i) = dsts (via (view k4) ?i) - fst ` set ?D" by auto
  have keys: "dsts (via (view k) ?i) = fst ` set C" using collected_own(1)[OF V(1) C] by simp
  have "fst ` set ?D = fst ` set C - set subnets" by (force simp: oC subnetsSet_mem)
  with d' d4 keys have "dsts (via (view k') ?i) = set subnets" by (auto simp: map_of_eq_None_iff)
  moreover have "has_throw (view k4)"
    using for_each_addThrow_has[OF _ th] routes_throw[OF k3(1) ad] LinkSetUp_via[OF k1(1) up] by blast
  then have "has_throw (view k')" using rest i by (auto simp: has_throw_def)
  ultimately show ?thesis using k' by simp
qed

text \<open>Whatever the link and the subnets: with the throw route in place the call fails.\<close>

lemma UpdateRoutes_throw:
  assumes g: "good k" and t: "has_throw (view k)" and c: "UpdateRoutes h ord l subnets k = (Inr u, k')"
  shows False
proof -
  from c obtain C k1 v k2 w k3 where col: "collectRoutes h (link_index l) k = (Inr C, k1)" and up: "LinkSetUp h l k1 = (Inr v, k2)"
    and th: "for_each (addThrow h) throw_list k2 = (Inr w, k3)"
    unfolding UpdateRoutes_def bind_io_Inr on_err_Inr Let_def by blast
  have same: "good s \<Longrightarrow> collectRoute1 h i f s = (Inr D, s') \<Longrightarrow> good s' \<and> view s' = view s" for i f s D s'
    by (erule collectRoute1_inv) (drule (1) meets_Inr[OF RouteListFiltered], simp add: spec_RouteListFiltered_def)
  from col obtain r4 kk r6 where c4: "collectRoute1 h (link_index l) FAMILY_V4 k = (Inr r4, kk)"
    and c6: "collectRoute1 h (link_index l) FAMILY_V6 kk = (Inr r6, k1)"
    unfolding collectRoutes_def bind_io_Inr on_err_Inr ret_eq by blast
  from same[OF g c4] same[OF _ c6] have "good k1 \<and> view k1 = view k" by simp
  with LinkSetUp_via[OF _ up] have "good k2" "has_throw (view k2)" using t by (auto simp: has_throw_def)
  with for_each_addThrow_has[OF _ th] show False by blast
qed

end

section \<open>Concrete runs\<close>

lemma word_bytes_fc: "word_bytes 16 (0xfc000000000000000000000000000000 :: 128 word) = 0xfc # replicate 15 0"
proof -
  have "bytes_word [0xfc, 0, 0, 0, 0, 0, 0, 0, 0, 0, 0, 0, 0, 0, 0, 0] = (0xfc000000000000000000000000000000 :: 128 word)"
    by (simp add: bytes_word_def)
  then show ?thesis using word_bytes_word[of "[0xfc, 0, 0, 0, 0, 0, 0, 0, 0, 0, 0, 0, 0, 0, 0, 0]", where 'a=128] by (simp add: numeral_eq_Suc)
qed

lemma word_bytes_fe80: "word_bytes 16 (0xfe800000000000000000000000000000 :: 128 word) = 0xfe # 0x80 # replicate 14 0"
proof -
  have "bytes_word [0xfe, 0x80, 0, 0, 0, 0, 0, 0, 0, 0, 0, 0, 0, 0, 0, 0] = (0xfe800000000000000000000000000000 :: 128 word)"
    by (simp add: bytes_word_def)
  then show ?thesis using word_bytes_word[of "[0xfe, 0x80, 0, 0, 0, 0, 0, 0, 0, 0, 0, 0, 0, 0, 0, 0]", where 'a=128] by (simp add: numeral_eq_Suc)
qed

text \<open>A namespace with one device, for the runs below.\<close>

definition demo_link :: link where
  "demo_link = Dummy \<lparr>la_Name = ''fou4_0a000001'', la_Index = 2, la_TxQLen = 0\<rparr>"

definition demo_sim :: sim where
  "demo_sim = sim_empty\<lparr>s_links := [demo_link], s_next := 3\<rparr>"

lemma throw_routes:
  "map throw_route throw_list =
     map (\<lambda>(ip, m). zero_route\<lparr>rt_Table := 117, rt_Dst := Some \<lparr>n_IP = ip, n_Mask = m\<rparr>, rt_Type := 9, rt_Protocol := 30, rt_Priority := 500\<rparr>)
       [([10, 0, 0, 0], [255, 0, 0, 0]), ([172, 16, 0, 0], [255, 240, 0, 0]), ([192, 168, 0, 0], [255, 255, 0, 0]),
        (0xfc # replicate 15 0, 0xfe # replicate 15 0), ([169, 254, 0, 0], [255, 255, 0, 0]),
        (0xfe # 0x80 # replicate 14 0, 0xff # 0xc0 # replicate 14 0)]"
proof -
  have 4: "map throw_route v4PrivateList = map (\<lambda>(ip, m). zero_route\<lparr>rt_Table := 117, rt_Dst := Some \<lparr>n_IP = ip, n_Mask = m\<rparr>, rt_Type := 9, rt_Protocol := 30, rt_Priority := 500\<rparr>)
       [([10, 0, 0, 0], [255, 0, 0, 0]), ([172, 16, 0, 0], [255, 240, 0, 0]), ([192, 168, 0, 0], [255, 255, 0, 0])]"
    by code_simp
  have 5: "throw_route v4LinkLocal = zero_route\<lparr>rt_Table := 117, rt_Dst := Some \<lparr>n_IP = [169, 254, 0, 0], n_Mask = [255, 255, 0, 0]\<rparr>, rt_Type := 9, rt_Protocol := 30, rt_Priority := 500\<rparr>"
    by code_simp
  have m: "CIDRMask 7 128 = 0xfe # replicate 15 0" "CIDRMask 10 128 = 0xff # 0xc0 # replicate 14 0" by code_simp+
  show ?thesis
    by (simp add: throw_list_def 4 5 v6_constants)
      (simp add: throw_route_def ncTableID_def RTN_THROW_def ncProtocolID_def throwMetric_def ToIPNet_def FromAddr_def PrefixFrom_def Bits_def word_bytes_fc word_bytes_fe80 m)
qed

lemma addThrow_map: "for_each (addThrow h) ns = for_each (\<lambda>r. on_err (Errorw ''netlink: failed to add route'') (RouteAdd h r)) (map throw_route ns)"
  by (induction ns) (simp_all add: addThrow_def)

lemma demo_facts:
  "sim_good demo_sim" "link_index demo_link = 2" "via (sim_view demo_sim) i = {}" "own_routes {}" "no_default {}"
  by (simp_all add: demo_sim_def demo_link_def sim_good_def sim_empty_def via_def sim_view_def own_routes_def no_default_def)

lemma demo_clean: "clean_prefix (PrefixFrom (Addr4 0xC0000200) 24)"
  unfolding clean_prefix_def by code_simp

lemma demo_run: "fst (UpdateRoutes sim_host (\<lambda>x. x) demo_link [PrefixFrom (Addr4 0xC0000200) 24] demo_sim) = Inr ()"
  unfolding UpdateRoutes_def addThrow_map throw_routes by code_simp

lemma init_run: "fst (nc_Init sim_host \<lparr>nc_useipv4 = True, nc_useipv6 = True\<rparr> sim_empty) = Inr ()"
  by code_simp

section \<open>Properties\<close>

text \<open>
  C8. Initialising the client brings each family it uses into one definite state: of
  the rules with the client's priority exactly the client's own rule is left, table
  117 is empty, and every other rule and route, and everything else in the namespace,
  is as it was. The state before does not matter, so a repeated start is harmless.
\<close>

theorem nc_Init_ready:
  assumes "host_laws h good view" "good k" "routes_typed (view k)" "nc_Init h c k = (Inr u, k')"
  shows "good k' \<and> view k' = (if nc_useipv6 c then client_ready FAMILY_V6 else id)
      ((if nc_useipv4 c then client_ready FAMILY_V4 else id) (view k))"
  by (rule host_laws.nc_Init_returns[OF assms])

theorem nc_Init_ready_witness:
  "\<exists>k'. nc_Init sim_host \<lparr>nc_useipv4 = True, nc_useipv6 = True\<rparr> sim_empty = (Inr (), k') \<and>
     sim_view k' = client_ready FAMILY_V6 (client_ready FAMILY_V4 (sim_view sim_empty))"
proof -
  obtain k' where r: "nc_Init sim_host \<lparr>nc_useipv4 = True, nc_useipv6 = True\<rparr> sim_empty = (Inr (), k')"
    using init_run by (metis prod.collapse)
  have "routes_typed (sim_view sim_empty)" by (simp add: routes_typed_def sim_view_def sim_empty_def)
  from nc_Init_ready[OF sim_kernel.host_laws_axioms sim_good_empty this r] r show ?thesis by auto
qed

text \<open>
  C33. Asking whether the client is initialised changes nothing, and the answer is
  whether table 117 is named by exactly one rule: of the IPv4 rules if the client uses
  IPv4, else of the IPv6 rules if it uses IPv6. With both families in use the IPv6
  rules have no influence on the answer.
\<close>

theorem nc_IsInitialized_answer:
  assumes "host_laws h good view" "good k" "nc_IsInitialized h c k = (Inr b, k')"
  shows "view k' = view k \<and>
    b = (if nc_useipv4 c then size (filter_mset (\<lambda>r. ru_Table r = ncTableID) (k_rules (view k) FAMILY_V4)) = 1
         else if nc_useipv6 c then size (filter_mset (\<lambda>r. ru_Table r = ncTableID) (k_rules (view k) FAMILY_V6)) = 1
         else True)"
  using host_laws.nc_IsInitialized_returns[OF assms] by blast

theorem nc_IsInitialized_answer_witness:
  "\<exists>k k'. sim_good k \<and> k_rules (sim_view k) FAMILY_V6 = {#} \<and>
     nc_IsInitialized sim_host \<lparr>nc_useipv4 = True, nc_useipv6 = True\<rparr> k = (Inr True, k') \<and> sim_view k' = sim_view k"
proof -
  let ?k = "sim_empty\<lparr>s_rules := [newRuleForClient FAMILY_V4 ncTableID ncPrio]\<rparr>"
  have g: "sim_good ?k" "k_rules (sim_view ?k) FAMILY_V6 = {#}"
    by (simp_all add: sim_good_def sim_empty_def rule_canon_def newRuleForClient_def NewRule_def sim_view_def)
  have "fst (nc_IsInitialized sim_host \<lparr>nc_useipv4 = True, nc_useipv6 = True\<rparr> ?k) = Inr True" by code_simp
  then obtain k' where r: "nc_IsInitialized sim_host \<lparr>nc_useipv4 = True, nc_useipv6 = True\<rparr> ?k = (Inr True, k')"
    by (metis prod.collapse)
  from nc_IsInitialized_answer[OF sim_kernel.host_laws_axioms g(1) r] g r show ?thesis by blast
qed

text \<open>
  C6. A successful \<open>UpdateRoutes\<close> makes the routes of table 117 through the given
  device exactly the routes to the given subnets: missing ones are added, stale ones
  are deleted, in whatever order the map is visited.
\<close>

theorem UpdateRoutes_exact:
  assumes "host_laws h good view" "good k" "UpdateRoutes h ord l subnets k = (Inr u, k')"
    and "\<And>xs. mset (ord xs) = mset xs" "link_index l \<notin> {0, 1}"
    and "own_routes (via (view k) (link_index l))" "no_default (via (view k) (link_index l))"
    and "\<forall>n\<in>set subnets. clean_prefix n"
  shows "own_routes (via (view k') (link_index l)) \<and> dsts (via (view k') (link_index l)) = set subnets"
  using host_laws.UpdateRoutes_returns[OF assms] by blast

theorem UpdateRoutes_exact_witness:
  "\<exists>k'. UpdateRoutes sim_host (\<lambda>x. x) demo_link [PrefixFrom (Addr4 0xC0000200) 24] demo_sim = (Inr (), k') \<and>
     dsts (via (sim_view k') 2) = {PrefixFrom (Addr4 0xC0000200) 24}"
proof -
  obtain k' where r: "UpdateRoutes sim_host (\<lambda>x. x) demo_link [PrefixFrom (Addr4 0xC0000200) 24] demo_sim = (Inr (), k')"
    using demo_run by (metis prod.collapse)
  from UpdateRoutes_exact[OF sim_kernel.host_laws_axioms demo_facts(1) r] r demo_facts demo_clean show ?thesis by auto
qed

text \<open>
  C32. \<open>UpdateRoutes\<close> succeeds at most once per namespace: it adds the throw routes
  without looking for them first and the kernel refuses a route that is there, so
  after a successful call every further call fails, for any device and any subnets.
\<close>

theorem UpdateRoutes_once:
  assumes "host_laws h good view" "good k" "UpdateRoutes h ord l subnets k = (Inr u, k')"
    and "\<And>xs. mset (ord xs) = mset xs" "link_index l \<notin> {0, 1}"
    and "own_routes (via (view k) (link_index l))" "no_default (via (view k) (link_index l))"
    and "\<forall>n\<in>set subnets. clean_prefix n"
    and "UpdateRoutes h ord' l' subnets' k' = (r, k'')"
  shows "\<exists>e. r = Inl e"
proof (cases r)
  case (Inr v)
  from host_laws.UpdateRoutes_returns[OF assms(1-8)] have "good k'" "has_throw (view k')" by auto
  from host_laws.UpdateRoutes_throw[OF assms(1) this] assms(9) Inr show ?thesis by blast
qed blast

theorem UpdateRoutes_once_witness:
  "\<exists>k' e k''. UpdateRoutes sim_host (\<lambda>x. x) demo_link [PrefixFrom (Addr4 0xC0000200) 24] demo_sim = (Inr (), k') \<and>
     UpdateRoutes sim_host (\<lambda>x. x) demo_link [PrefixFrom (Addr4 0xC0000200) 24] k' = (Inl e, k'')"
proof -
  obtain k' where r: "UpdateRoutes sim_host (\<lambda>x. x) demo_link [PrefixFrom (Addr4 0xC0000200) 24] demo_sim = (Inr (), k')"
    using demo_run by (metis prod.collapse)
  obtain q k'' where q: "UpdateRoutes sim_host (\<lambda>x. x) demo_link [PrefixFrom (Addr4 0xC0000200) 24] k' = (q, k'')" by fastforce
  from UpdateRoutes_once[OF sim_kernel.host_laws_axioms demo_facts(1) r _ _ _ _ _ q] demo_facts demo_clean
  obtain e where "q = Inl e" by auto
  with r q show ?thesis by blast
qed

end
