(* ===== verification/Cni.thy ===== *)
theory Cni
  imports NetIPUtil
begin

text \<open>
  The CNI side of a node: package \<open>cni\<close> (\<open>pkg/cni/cni.go\<close>), the messages of
  \<open>pkg/cnirpc\<close> and the plugin binary \<open>cmd/pona\<close>. The plugin reads its network
  configuration from standard input, hands the request to the daemon over gRPC and
  turns the daemon's answer into a CNI result or a CNI error. The CNI library, JSON and
  gRPC are not part of the repository: what is called of them are the fields of the
  record \<open>cni_lib\<close> and of the record \<open>plugin_env\<close>.
\<close>

section \<open>Messages\<close>

record cni_args =
  ca_ContainerId :: string
  ca_Netns :: string
  ca_Ifname :: string
  ca_Args :: "string \<Rightarrow> string option"
  ca_Path :: string
  ca_StdinData :: string

definition PodNameKey :: string where "PodNameKey = ''K8S_POD_NAME''"

definition PodNamespaceKey :: string where "PodNamespaceKey = ''K8S_POD_NAMESPACE''"

definition PodContainerKey :: string where "PodContainerKey = ''K8S_POD_INFRA_CONTAINER_ID''"

text \<open>The codes of \<open>cnirpc.ErrorCode\<close> that the sources use.\<close>

definition ErrorCode_UNKNOWN_CONTAINER :: int where "ErrorCode_UNKNOWN_CONTAINER = 3"

definition ErrorCode_INTERNAL :: int where "ErrorCode_INTERNAL = 999"

text \<open>
  \<open>types.Error\<close> of the CNI library, with its documented codes. The code is a
  \<open>uint\<close> of 64 bits.
\<close>

record types_error =
  te_Code :: "64 word"
  te_Msg :: string
  te_Details :: string

definition ErrDecodingFailure :: "64 word" where "ErrDecodingFailure = 6"

definition ErrInvalidNetworkConfig :: "64 word" where "ErrInvalidNetworkConfig = 7"

definition ErrTryAgainLater :: "64 word" where "ErrTryAgainLater = 11"

definition ErrInternal :: "64 word" where "ErrInternal = 999"

definition types_NewError :: "64 word \<Rightarrow> string \<Rightarrow> string \<Rightarrow> types_error" where
  "types_NewError code msg details = \<lparr>te_Code = code, te_Msg = msg, te_Details = details\<rparr>"

section \<open>Package cni\<close>

text \<open>\<open>'c\<close> is the library's \<open>types.NetConf\<close>.\<close>

record 'c plugin_conf =
  pc_NetConf :: 'c
  pc_Socket :: string

record plugin_env_args =
  K8S_POD_NAMESPACE :: string
  K8S_POD_NAME :: string
  K8S_POD_INFRA_CONTAINER_ID :: string

text \<open>
  The calls to JSON and to the CNI library. \<open>'r\<close> is a result of any version
  (\<open>types.Result\<close>), \<open>'x\<close> a result of version 1.0.0 (\<open>cni100.Result\<close>).
\<close>

record ('c, 'r, 'x) cni_lib =
  json_Unmarshal :: "string \<Rightarrow> err + 'c plugin_conf"
  ParsePrevResult :: "'c \<Rightarrow> err + 'c"
  PrevResult :: "'c \<Rightarrow> 'r option"
  CNIVersion :: "'c \<Rightarrow> string"
  cni100_GetResult :: "'r option \<Rightarrow> err + 'x"
  cni100_NewResult :: "string \<Rightarrow> err + 'r"
  result_IPs :: "'x \<Rightarrow> net_ipnet list"
  json_Marshal :: "'x \<Rightarrow> err + string"
  LoadArgs :: "string \<Rightarrow> err + plugin_env_args"

definition ParseConfig :: "('c, 'r, 'x) cni_lib \<Rightarrow> string \<Rightarrow> err + 'c plugin_conf" where
  "ParseConfig lib stdin =
     (case json_Unmarshal lib stdin of
        Inl e \<Rightarrow> Inl (Errorw ''failed to parse network configuration'' e)
      | Inr conf \<Rightarrow>
          (case ParsePrevResult lib (pc_NetConf conf) of
             Inl e \<Rightarrow> Inl (Errorw ''failed to parse prev result'' e)
           | Inr nc \<Rightarrow> Inr (conf\<lparr>pc_NetConf := nc\<rparr>)))"

definition GetPrevResult :: "('c, 'r, 'x) cni_lib \<Rightarrow> cni_args \<Rightarrow> err + 'x" where
  "GetPrevResult lib cniargs =
     (case ParseConfig lib (ca_StdinData cniargs) of
        Inl _ \<Rightarrow> Inl (Errorf ''failed to parse config'')
      | Inr conf \<Rightarrow>
          (case cni100_GetResult lib (PrevResult lib (pc_NetConf conf)) of
             Inl _ \<Rightarrow> Inl (Errorf ''failed to get prevresult'')
           | Inr r \<Rightarrow> Inr r))"

section \<open>The plugin\<close>

text \<open>\<open>skel.CmdArgs\<close> of the CNI library.\<close>

record cmd_args =
  sk_ContainerID :: string
  sk_Netns :: string
  sk_IfName :: string
  sk_Args :: string
  sk_Path :: string
  sk_StdinData :: string

definition Map :: "plugin_env_args \<Rightarrow> string \<Rightarrow> string option" where
  "Map e = [PodNamespaceKey \<mapsto> K8S_POD_NAMESPACE e, PodNameKey \<mapsto> K8S_POD_NAME e,
            PodContainerKey \<mapsto> K8S_POD_INFRA_CONTAINER_ID e]"

definition makeCNIArgs :: "('c, 'r, 'x) cni_lib \<Rightarrow> cmd_args \<Rightarrow> err + cni_args" where
  "makeCNIArgs lib args =
     (case LoadArgs lib (sk_Args args) of
        Inl e \<Rightarrow> Inl (Errorw ''failed to load args'' e)
      | Inr a \<Rightarrow> Inr \<lparr>ca_ContainerId = sk_ContainerID args, ca_Netns = sk_Netns args, ca_Ifname = sk_IfName args,
            ca_Args = Map a, ca_Path = sk_Path args, ca_StdinData = sk_StdinData args\<rparr>)"

text \<open>
  The gRPC library: \<open>grpc_NewClient\<close> makes a connection, \<open>rpc_Add\<close> is the call
  \<open>Add\<close> of the service on it, \<open>status_Convert\<close> the status of an error (code,
  message, details). \<open>PrintResult\<close> writes a result to standard output, \<open>Error\<close> is
  the text of an error.
\<close>

record ('w, 'n, 'r) plugin_env =
  grpc_NewClient :: "string \<Rightarrow> ('w, 'n) io"
  rpc_Add :: "'n \<Rightarrow> cni_args \<Rightarrow> ('w, string) io"
  status_Convert :: "err \<Rightarrow> grpc_code \<times> string \<times> cni_error option list"
  PrintResult :: "'r \<Rightarrow> string \<Rightarrow> ('w, unit) io"
  err_Error :: "err \<Rightarrow> string"

definition connect :: "('w, 'n, 'r) plugin_env \<Rightarrow> string \<Rightarrow> ('w, 'n) io" where
  "connect env sockPath = on_err (Errorw ''failed to connect to'') (grpc_NewClient env sockPath)"

text \<open>
  A detail of another type leaves \<open>cniErr\<close> nil: the error built for that case is not
  returned, and the field access that follows panics (\<open>None\<close>).
\<close>

definition convertError :: "('w, 'n, 'r) plugin_env \<Rightarrow> err \<Rightarrow> types_error option" where
  "convertError env err =
     (case status_Convert env err of (code, message, details) \<Rightarrow>
        if length details \<noteq> 1 then Some (types_NewError ErrInternal message (err_Error env err))
        else (case details ! 0 of
                None \<Rightarrow> None
              | Some cniErr \<Rightarrow> Some (types_NewError (word_of_int (ce_Code cniErr)) (ce_Msg cniErr) (ce_Details cniErr))))"

text \<open>How a command of the plugin ends.\<close>

datatype outcome = Done | CniError types_error | PlainError err | Panic

definition cmdAdd :: "('c, 'r, 'x) cni_lib \<Rightarrow> ('w, 'n, 'r) plugin_env \<Rightarrow> cmd_args \<Rightarrow> 'w \<Rightarrow> outcome \<times> 'w" where
  "cmdAdd lib env args w =
     (case ParseConfig lib (sk_StdinData args) of
        Inl e \<Rightarrow> (CniError (types_NewError ErrDecodingFailure ''failed to parse config from stdin data'' (err_Error env e)), w)
      | Inr conf \<Rightarrow>
          if PrevResult lib (pc_NetConf conf) = None then
            (CniError (types_NewError ErrInternal ''ponad must be called as chained plugin'' []), w)
          else
            (case makeCNIArgs lib args of
               Inl e \<Rightarrow> (CniError (types_NewError ErrInvalidNetworkConfig ''failed to transform args to RPC arg'' (err_Error env e)), w)
             | Inr cniArgs \<Rightarrow>
                 (case connect env (pc_Socket conf) w of
                    (Inl e, w1) \<Rightarrow> (CniError (types_NewError ErrTryAgainLater ''failed to connect to socket'' (err_Error env e)), w1)
                  | (Inr conn, w1) \<Rightarrow>
                      (case rpc_Add env conn cniArgs w1 of
                         (Inl e, w2) \<Rightarrow> (case convertError env e of None \<Rightarrow> Panic | Some t \<Rightarrow> CniError t, w2)
                       | (Inr resp, w2) \<Rightarrow>
                           (case cni100_NewResult lib resp of
                              Inl e \<Rightarrow> (CniError (types_NewError ErrDecodingFailure ''failed to unmarshal result'' (err_Error env e)), w2)
                            | Inr result \<Rightarrow>
                                (case PrintResult env result (CNIVersion lib (pc_NetConf conf)) w2 of
                                   (Inl e, w3) \<Rightarrow> (PlainError e, w3)
                                 | (Inr _, w3) \<Rightarrow> (Done, w3)))))))"

definition cmdDel :: "cmd_args \<Rightarrow> 'w \<Rightarrow> outcome \<times> 'w" where
  "cmdDel args w = (Done, w)"

definition cmdCheck :: "cmd_args \<Rightarrow> 'w \<Rightarrow> outcome \<times> 'w" where
  "cmdCheck args w = (Done, w)"

section \<open>Lemmas\<close>

lemma Map_simps [simp]:
  "Map e PodNamespaceKey = Some (K8S_POD_NAMESPACE e)" "Map e PodNameKey = Some (K8S_POD_NAME e)"
  "Map e PodContainerKey = Some (K8S_POD_INFRA_CONTAINER_ID e)"
  by (simp_all add: Map_def PodNamespaceKey_def PodNameKey_def PodContainerKey_def)

lemma convertError_None:
  "convertError env e = None \<longleftrightarrow> (\<exists>c m. status_Convert env e = (c, m, [None]))"
  by (auto simp: convertError_def length_Suc_conv split: prod.splits option.splits)

section \<open>Properties\<close>

text \<open>
  C40. When the plugin panics: exactly when the daemon was asked, by a chained plugin
  with complete arguments, and its status carries a single detail that is not a
  \<open>CNIError\<close>. Every other failure is a CNI error, or what printing the result returns.
\<close>

theorem cmdAdd_panics:
  assumes "cmdAdd lib env args w = (out, w')"
  shows "out = Panic \<longleftrightarrow>
    (\<exists>conf a conn w1 e c m. ParseConfig lib (sk_StdinData args) = Inr conf \<and> PrevResult lib (pc_NetConf conf) \<noteq> None \<and>
       makeCNIArgs lib args = Inr a \<and> connect env (pc_Socket conf) w = (Inr conn, w1) \<and>
       rpc_Add env conn a w1 = (Inl e, w') \<and> status_Convert env e = (c, m, [None]))"
proof -
  have "out = Panic \<longleftrightarrow>
    (\<exists>conf a conn w1 e. ParseConfig lib (sk_StdinData args) = Inr conf \<and> PrevResult lib (pc_NetConf conf) \<noteq> None \<and>
       makeCNIArgs lib args = Inr a \<and> connect env (pc_Socket conf) w = (Inr conn, w1) \<and>
       rpc_Add env conn a w1 = (Inl e, w') \<and> convertError env e = None)"
    using assms unfolding cmdAdd_def by (auto split: sum.split_asm prod.split_asm if_split_asm option.split_asm)
  then show ?thesis unfolding convertError_None by blast
qed

theorem cmdAdd_panics_witness:
  "cmdAdd \<lparr>json_Unmarshal = (\<lambda>s. Inr \<lparr>pc_NetConf = (), pc_Socket = s\<rparr>), ParsePrevResult = Inr, PrevResult = (\<lambda>_. Some ()),
       CNIVersion = (\<lambda>_. []), cni100_GetResult = (\<lambda>_. Inr ()), cni100_NewResult = (\<lambda>_. Inr ()), result_IPs = (\<lambda>_. []), json_Marshal = (\<lambda>_. Inr []),
       LoadArgs = (\<lambda>s. Inr \<lparr>K8S_POD_NAMESPACE = s, K8S_POD_NAME = s, K8S_POD_INFRA_CONTAINER_ID = s\<rparr>)\<rparr>
     \<lparr>grpc_NewClient = (\<lambda>_. ret ()), rpc_Add = (\<lambda>_ _. throw (StatusErr Unknown ''quota'' [None])),
       status_Convert = (\<lambda>e. (Unknown, ''quota'', [None])), PrintResult = (\<lambda>_ _. ret ()), err_Error = (\<lambda>_. [])\<rparr>
     \<lparr>sk_ContainerID = [], sk_Netns = [], sk_IfName = [], sk_Args = ''p'', sk_Path = [], sk_StdinData = ''s''\<rparr> () = (Panic, ())"
  (is "cmdAdd ?lib ?env ?args () = _")
proof -
  obtain out where r: "cmdAdd ?lib ?env ?args () = (out, ())" by (cases "cmdAdd ?lib ?env ?args ()") simp
  have "out = Panic"
    unfolding cmdAdd_panics[OF r] by (simp add: ParseConfig_def makeCNIArgs_def connect_def on_err_def ret_def)
  with r show ?thesis by simp
qed

end
