(* ===== verification/Ponad.thy ===== *)
theory Ponad
  imports NatClient PodWatcher EgressReconcile Cni
begin

text \<open>
  The node daemon (\<open>internal/ponad/server.go\<close>): for a pod that asks for egresses it
  enters the pod's network namespace, starts the FoU tunnel controller and the NAT
  client there, and for each egress makes a tunnel to the egress's service address and
  routes to its destinations. The API reader and the namespace library are the fields
  of the record \<open>ponad_env\<close>; the host calls \<open>h\<close> act on the namespace the daemon is in.
\<close>

section \<open>Errors\<close>

record ('k, 'n) ponad_env =
  pe_GetPod :: "nsname \<Rightarrow> ('k, pod) io"
  pe_GetEgress :: "nsname \<Rightarrow> ('k, egress) io"
  pe_GetService :: "nsname \<Rightarrow> ('k, service) io"
  pe_GetNS :: "string \<Rightarrow> ('k, 'n) io"
  pe_Do :: "'n \<Rightarrow> ('k, unit) io \<Rightarrow> ('k, unit) io"
  pe_Error :: "err \<Rightarrow> string"
  pe_AddrString :: "addr \<Rightarrow> string"

text \<open>\<open>WithDetails\<close> fails, and \<open>newError\<close> panics, only for the code OK, which no caller passes.\<close>

definition newError :: "grpc_code \<Rightarrow> int \<Rightarrow> string \<Rightarrow> string \<Rightarrow> err" where
  "newError c cniCode msg details =
     StatusErr c msg [Some \<lparr>ce_Code = cniCode, ce_Msg = msg @ details, ce_Details = details\<rparr>]"

definition newInternalError :: "('k, 'n) ponad_env \<Rightarrow> err \<Rightarrow> string \<Rightarrow> err" where
  "newInternalError env err msg =
     newError Internal ErrorCode_INTERNAL (msg @ pe_Error env err) (pe_Error env err)"

section \<open>The server\<close>

record server =
  sv_egressPort :: int

definition NewServer :: "int \<Rightarrow> server" where
  "NewServer egressPort = \<lparr>sv_egressPort = egressPort\<rparr>"

text \<open>The list is the annotations in the order \<open>range\<close> visits them.\<close>

definition listEgress :: "pod \<Rightarrow> nsname list" where
  "listEgress pod =
     (if pod_HostNetwork pod then []
      else concat (map (\<lambda>(k, v).
        if \<not> HasPrefix k EgressAnnotationPrefix then []
        else map (\<lambda>name. \<lparr>nn_Namespace = drop (length EgressAnnotationPrefix) k, nn_Name = name\<rparr>) (Split v CHR '',''))
        (pod_Annotations pod)))"

definition nn_String :: "nsname \<Rightarrow> string" where
  "nn_String n = nn_Namespace n @ ''/'' @ nn_Name n"

fun dest_loop :: "(addr \<Rightarrow> bool) \<Rightarrow> string list \<Rightarrow> netip_prefix list \<Rightarrow> err + netip_prefix list" where
  "dest_loop fam [] subnets = Inr subnets"
| "dest_loop fam (sn # rest) subnets =
     (case ParsePrefix sn of
        Inl e \<Rightarrow> Inl e
      | Inr prefix \<Rightarrow> dest_loop fam rest (if fam (p_ip prefix) then subnets @ [prefix] else subnets))"

definition collectDestinationsForEgress ::
  "('k, 'n) ponad_env \<Rightarrow> nsname \<Rightarrow> ('k, addr \<times> netip_prefix list) io" where
  "collectDestinationsForEgress env egName =
     bind_io (on_err (\<lambda>e. newError FailedPrecondition ErrorCode_INTERNAL (''failed to get Egress '' @ nn_String egName) (pe_Error env e))
       (pe_GetEgress env egName)) (\<lambda>eg.
     bind_io (on_err (\<lambda>e. newError FailedPrecondition ErrorCode_INTERNAL (''failed to get Service '' @ nn_String egName) (pe_Error env e))
       (pe_GetService env egName)) (\<lambda>svc.
     case ParseAddr (svc_ClusterIP svc) of
       Inl e \<Rightarrow> throw (newError Internal ErrorCode_INTERNAL (''invalid ClusterIP in Service '' @ nn_String egName) (svc_ClusterIP svc))
     | Inr svcIP \<Rightarrow>
         if Is4 svcIP then
           (case dest_loop Is4 (eg_Destinations eg) [] of
              Inl e \<Rightarrow> throw (newInternalError env e (''invalid network in Egress '' @ nn_String egName))
            | Inr subnets \<Rightarrow> ret (svcIP, subnets))
         else if Is6 svcIP then
           (case dest_loop Is6 (eg_Destinations eg) [] of
              Inl e \<Rightarrow> throw (newInternalError env e (''invalid network in Egress '' @ nn_String egName))
            | Inr subnets \<Rightarrow> ret (svcIP, subnets))
         else throw (Errorf ''invalid service ip'')))"

text \<open>The first address of each family in the previous result.\<close>

fun local_loop :: "net_ipnet list \<Rightarrow> addr option \<Rightarrow> addr option \<Rightarrow> err + addr option \<times> addr option" where
  "local_loop [] local4 local6 = Inr (local4, local6)"
| "local_loop (ipc # rest) local4 local6 =
     (case ToAddr (n_IP ipc) of
        None \<Rightarrow> Inl (Errorf ''failed to parse ip'')
      | Some ip \<Rightarrow> local_loop rest (if local4 = None \<and> Is4 ip then Some ip else local4)
          (if local6 = None \<and> Is6 ip then Some ip else local6))"

definition add_egress :: "('k, 'n) ponad_env \<Rightarrow> 'k host \<Rightarrow> range_order \<Rightarrow> fou_controller \<Rightarrow> nsname \<Rightarrow> ('k, unit) io" where
  "add_egress env h ord ft egName =
     bind_io (on_err (\<lambda>e. newInternalError env e ''failed to collect destinations for egress'')
       (collectDestinationsForEgress env egName)) (\<lambda>(g, ds).
     bind_io (on_err (\<lambda>e. newInternalError env e (''failed to add peer for '' @ pe_AddrString env g)) (AddPeer h ft g)) (\<lambda>link.
     on_err (\<lambda>e. newInternalError env e ''failed to update routes'') (UpdateRoutes h ord link ds)))"

text \<open>What runs in the pod's namespace.\<close>

definition setup_pod ::
  "('k, 'n) ponad_env \<Rightarrow> 'k host \<Rightarrow> range_order \<Rightarrow> server \<Rightarrow> addr option \<Rightarrow> addr option \<Rightarrow> nsname list \<Rightarrow> ('k, unit) io" where
  "setup_pod env h ord s local4 local6 egNames =
     (case NewFoUTunnelController (sv_egressPort s) local4 local6 of
        Inl e \<Rightarrow> throw (newInternalError env e ''failed to create FoUTunnelController'')
      | Inr ft \<Rightarrow>
          bind_io (on_err (\<lambda>e. newInternalError env e ''failed to initialize FoUTunnel'') (fou_Init h ft)) (\<lambda>_.
          case NewNatClient (local4 \<noteq> None) (local6 \<noteq> None) of
            Inl e \<Rightarrow> throw (newInternalError env e ''failed to create Nat client'')
          | Inr nt \<Rightarrow>
              bind_io (on_err (\<lambda>e. newInternalError env e ''failed to initialize Nat client'') (nc_Init h nt)) (\<lambda>_.
              for_each (add_egress env h ord ft) egNames)))"

definition pod_arg :: "string \<Rightarrow> cni_args \<Rightarrow> string" where
  "pod_arg key args = (case ca_Args args key of None \<Rightarrow> [] | Some v \<Rightarrow> v)"

definition Add ::
  "('k, 'n) ponad_env \<Rightarrow> ('c, 'r, 'x) cni_lib \<Rightarrow> 'k host \<Rightarrow> range_order \<Rightarrow> server \<Rightarrow> cni_args \<Rightarrow> ('k, string) io" where
  "Add env lib h ord s args =
     (let podName = pod_arg PodNameKey args; podNS = pod_arg PodNamespaceKey args in
      if podName = [] \<or> podNS = [] then throw (Errorf ''missing pod name or namespace'')
      else
        bind_io (on_err (\<lambda>e. if IsNotFound e then newError NotFound ErrorCode_UNKNOWN_CONTAINER ''pod not found'' (pe_Error env e)
            else newInternalError env e ''failed to get pod'')
          (pe_GetPod env \<lparr>nn_Namespace = podNS, nn_Name = podName\<rparr>)) (\<lambda>pod.
        case GetPrevResult lib args of
          Inl e \<Rightarrow> throw (newInternalError env e ''failed to get previous result'')
        | Inr p \<Rightarrow>
            (case json_Marshal lib p of
               Inl e \<Rightarrow> throw (newInternalError env e ''failed to marshal result'')
             | Inr b \<Rightarrow>
                 let egNames = listEgress pod in
                 if egNames = [] then ret b
                 else
                   (case local_loop (result_IPs lib p) None None of
                      Inl e \<Rightarrow> throw (newInternalError env e ''failed to parse ip'')
                    | Inr (local4, local6) \<Rightarrow>
                        bind_io (on_err (Errorw ''failed to open netns path'') (pe_GetNS env (ca_Netns args))) (\<lambda>containerNS.
                        bind_io (pe_Do env containerNS (setup_pod env h ord s local4 local6 egNames)) (\<lambda>_. ret b))))))"

definition Del :: "cni_args \<Rightarrow> ('k, unit) io" where
  "Del args = ret ()"

definition Check :: "cni_args \<Rightarrow> ('k, unit) io" where
  "Check args = ret ()"

section \<open>A new namespace\<close>

text \<open>
  What a pod's namespace is like before the daemon has been there: a loopback device
  with index 1, nothing in table 117 and no tunnel device of a peer.
\<close>

definition fresh_ns :: "kern \<Rightarrow> bool" where
  "fresh_ns K \<longleftrightarrow> (\<exists>l. k_links K ''lo'' = Some l \<and> link_index l = 1) \<and>
     (\<forall>f. \<forall>r\<in>k_routes K f. rt_Table r \<noteq> ncTableID) \<and> (\<forall>a n. fouName a = Inr n \<longrightarrow> k_links K n = None)"

lemma fresh_via: "fresh_ns K \<Longrightarrow> via K i = {}"
  by (auto simp: fresh_ns_def via_def)

lemma fresh_typed: "fresh_ns K \<Longrightarrow> routes_typed K"
  by (auto simp: fresh_ns_def routes_typed_def)

lemma lo_not_made: "''lo'' \<notin> aux_names" "''lo'' \<noteq> fouDummy" "fouName a \<noteq> Inr ''lo''"
  using fouName_form[of a "''lo''"] by (auto simp: aux_names_def fallback_names_def fouDummy_def)

lemma has_throw_routes: "k_routes K' = k_routes K \<Longrightarrow> has_throw K' = has_throw K"
  by (simp add: has_throw_def via_def)

lemma fresh_dummy:
  assumes "fresh_ns K" "k_routes K' = k_routes K" "k_links K' = k_links K"
    and "spec_LinkAdd (Dummy (NewLinkAttrs\<lparr>la_Name := fouDummy\<rparr>)) l K' K''"
  shows "fresh_ns K'' \<and> k_rules K'' = k_rules K' \<and> k_fous K'' = k_fous K' \<and> k_chains K'' = k_chains K' \<and> k_forward K'' = k_forward K'"
proof -
  from assms(4) obtain M where M: "fallbacks_appear K' M" and K'': "K'' = M\<lparr>k_links := (k_links M)(fouDummy \<mapsto> l)\<rparr>"
    by (auto simp: spec_LinkAdd_def NewLinkAttrs_def)
  then have other: "k_routes K'' = k_routes K'" "k_rules K'' = k_rules K'" "k_fous K'' = k_fous K'" "k_chains K'' = k_chains K'"
    "k_forward K'' = k_forward K'" by (auto simp: fallbacks_appear_def)
  have "k_links K'' n = k_links K n" if "n \<noteq> fouDummy" "n \<notin> aux_names" for n
    using fallbacks_aux[OF M] that assms(3) by (simp add: K'' aux_only_def)
  with assms(1) other assms(2) lo_not_made fouName_not_aux show ?thesis by (auto simp: fresh_ns_def)
qed

text \<open>The parts of the namespace that peers and routes do not touch.\<close>

definition conf_same :: "kern \<Rightarrow> kern \<Rightarrow> bool" where
  "conf_same K K' \<longleftrightarrow> k_rules K' = k_rules K \<and> k_fous K' = k_fous K \<and> k_chains K' = k_chains K \<and> k_forward K' = k_forward K"

lemma conf_same_order [simp]: "reflp conf_same" "transp conf_same"
  by (auto simp: reflp_def transp_def conf_same_def)

lemma fallbacks_conf: "fallbacks_appear K K' \<Longrightarrow> conf_same K K'"
  by (auto simp: fallbacks_appear_def conf_same_def)

context host_laws
begin

lemma conf_calls:
  "within good view conf_same (LinkByName h n)" "within good view conf_same (LinkAdd h l)"
  "within good view conf_same (LinkSetUp h l)" "within good view conf_same (LinkSetName h l n)"
  "within good view conf_same (RouteListFiltered h f t)" "within good view conf_same (RouteAdd h r)"
proof -
  show "within good view conf_same (LinkByName h n)"
    by (rule meets_within[OF LinkByName]) (auto simp: spec_LinkByName_def fail_LinkByName_def conf_same_def)
  show "within good view conf_same (LinkAdd h l)"
    by (rule meets_within[OF LinkAdd]) (auto simp: spec_LinkAdd_def fail_LinkAdd_def dest!: fallbacks_conf, auto simp: conf_same_def)
  show "within good view conf_same (LinkSetUp h l)"
    by (rule meets_within[OF LinkSetUp]) (auto simp: spec_LinkSetUp_def unchanged_def conf_same_def)
  show "within good view conf_same (LinkSetName h l n)"
    by (rule meets_within[OF LinkSetName]) (auto simp: spec_LinkSetName_def unchanged_def conf_same_def)
  show "within good view conf_same (RouteListFiltered h f t)"
    by (rule meets_within[OF RouteListFiltered]) (auto simp: spec_RouteListFiltered_def unchanged_def conf_same_def)
  show "within good view conf_same (RouteAdd h r)"
    by (rule meets_within[OF RouteAdd]) (auto simp: spec_RouteAdd_def unchanged_def conf_same_def)
qed

lemma setupFlowBased_conf:
  "within good view conf_same (setupFlowBasedIP4TunDevice h)" "within good view conf_same (setupFlowBasedIP6TunDevice h)"
  unfolding setupFlowBasedIP4TunDevice_def setupFlowBasedIP6TunDevice_def setupDevice_def configureDevice_def renameDevice_def
  by (auto intro!: within_bind within_on_err within_catch conf_calls within_ret within_throw)

lemma make_peer_conf:
  "within good view conf_same prep \<Longrightarrow> within good view conf_same (make_peer h prep n lk)"
  unfolding make_peer_def by (auto intro!: within_bind within_on_err within_catch conf_calls within_ret within_throw)

lemma AddPeer_conf:
  assumes "good k" "AddPeer h t a k = (Inr l, k')"
  shows "conf_same (view k) (view k')"
  using assms within_run[OF make_peer_conf[OF setupFlowBased_conf(1)] _ assms(1)]
    within_run[OF make_peer_conf[OF setupFlowBased_conf(2)] _ assms(1)]
  by (cases a) (auto simp: AddPeer_alt split: option.splits)

lemma collectRoutes_fresh:
  assumes g: "good k" and v: "via (view k) i = {}" and c: "collectRoutes h i k = (Inr C, k')"
  shows "good k' \<and> view k' = view k \<and> C = []"
proof -
  have "no_default (via (view k) i)" by (simp add: v no_default_def)
  from collectRoutes_returns[OF g this c] v show ?thesis by (cases C) (auto simp: collected_def)
qed

text \<open>In a namespace with nothing in table 117 the call only adds routes.\<close>

lemma UpdateRoutes_fresh:
  assumes g: "good k" and v: "via (view k) (link_index l) = {}" and c: "UpdateRoutes h ord l subnets k = (Inr u, k')"
    and ord: "\<And>xs. mset (ord xs) = mset xs"
  shows "good k' \<and> has_throw (view k') \<and> conf_same (view k) (view k') \<and> k_links (view k') = k_links (view k)"
proof -
  from c obtain C k1 a k2 w k3 x k4 where col: "collectRoutes h (link_index l) k = (Inr C, k1)" and up: "LinkSetUp h l k1 = (Inr a, k2)"
    and th: "for_each (addThrow h) throw_list k2 = (Inr w, k3)"
    and ad: "for_each (addRoute h l) (filter (\<lambda>n. map_of C n = None) subnets) k3 = (Inr x, k4)"
    and de: "for_each (delRoute h) (map snd (filter (\<lambda>(subnet, route). subnet |\<notin>| subnetsSet subnets) (ord C))) k4 = (Inr u, k')"
    unfolding UpdateRoutes_def bind_io_Inr on_err_Inr Let_def by blast
  from collectRoutes_fresh[OF g v col] have k1: "good k1" "view k1 = view k" and C: "C = []" by auto
  have "ord [] = []" using ord[of "[]"] by simp
  with de C have k4: "k4 = k'" by simp
  let ?R = "\<lambda>K K'. conf_same K K' \<and> k_links K' = k_links K"
  have R: "reflp ?R" "transp ?R" by (auto simp: reflp_def transp_def conf_same_def)
  have ra: "within good view ?R (RouteAdd h r)" for r
    by (rule meets_within[OF RouteAdd]) (auto simp: spec_RouteAdd_def unchanged_def conf_same_def)
  have "within good view ?R (LinkSetUp h l)"
    by (rule meets_within[OF LinkSetUp]) (auto simp: spec_LinkSetUp_def unchanged_def conf_same_def)
  from within_run[OF this up k1(1)] have k2: "good k2" "?R (view k) (view k2)" by (auto simp: k1)
  have "within good view ?R (for_each (addThrow h) throw_list)"
    unfolding addThrow_def by (intro within_for_each within_on_err R ra) simp
  from within_run[OF this th k2(1)] have k3: "good k3" "?R (view k2) (view k3)" by auto
  have "within good view ?R (for_each (addRoute h l) ns)" for ns
    unfolding addRoute_def by (intro within_for_each within_on_err R ra) simp
  from within_run[OF this ad k3(1)] have k': "good k'" "?R (view k3) (view k')" by (auto simp: k4)
  have "?R (view k) (view k')" using k2(2) k3(2) k'(2) by (auto simp: conf_same_def)
  moreover from for_each_addThrow_has[OF k2(1) th] routes_throw[OF k3(1) ad] have "has_throw (view k')" by (simp add: k4)
  ultimately show ?thesis using k'(1) by blast
qed

end

section \<open>The interface to the cluster and the namespaces\<close>

text \<open>
  What the daemon relies on while it serves one request: the API reader answers from a
  cluster that does not change meanwhile and touches no namespace; \<open>netns p\<close> is the
  namespace with path \<open>p\<close>; \<open>Do\<close> runs a computation in a namespace that was opened, and
  returns without an error only if the computation did.
\<close>

locale ponad_laws = host_laws h good view
  for h :: "'k host" and good :: "'k \<Rightarrow> bool" and view :: "'k \<Rightarrow> kern" +
  fixes env :: "('k, 'n) ponad_env"
    and pod_at :: "nsname \<Rightarrow> pod option" and egress_at :: "nsname \<Rightarrow> egress option" and service_at :: "nsname \<Rightarrow> service option"
    and netns :: "string \<Rightarrow> 'k \<Rightarrow> kern" and ns_path :: "'n \<Rightarrow> string"
  assumes GetPod: "good k \<Longrightarrow> pe_GetPod env n k = (r, k') \<Longrightarrow> good k' \<and> netns p k' = netns p k \<and> (\<forall>x. r = Inr x \<longrightarrow> pod_at n = Some x)"
    and GetEgress: "meets good view (pe_GetEgress env n) (\<lambda>x K K'. K' = K \<and> egress_at n = Some x) (\<lambda>e K K'. K' = K)"
    and GetService: "meets good view (pe_GetService env n) (\<lambda>x K K'. K' = K \<and> service_at n = Some x) (\<lambda>e K K'. K' = K)"
    and GetNS: "good k \<Longrightarrow> pe_GetNS env q k = (z, k') \<Longrightarrow> good k' \<and> netns p k' = netns p k \<and> (\<forall>x. z = Inr x \<longrightarrow> ns_path x = q)"
    and Do: "good k \<Longrightarrow> pe_Do env c f k = (Inr u, k') \<Longrightarrow>
      \<exists>k1 k2. good k1 \<and> view k1 = netns (ns_path c) k \<and> f k1 = (Inr u, k2) \<and> netns (ns_path c) k' = view k2"

text \<open>The destinations of an egress that a gateway address can serve.\<close>

definition served_subnets :: "egress \<Rightarrow> addr \<Rightarrow> netip_prefix set" where
  "served_subnets eg g = {n. \<exists>d\<in>set (eg_Destinations eg). ParsePrefix d = Inr n \<and> Is4 (p_ip n) = Is4 g \<and> Is6 (p_ip n) = Is6 g}"

lemma served_subnets_family:
  "Is4 a \<Longrightarrow> served_subnets eg a = {n. Is4 (p_ip n) \<and> (\<exists>d\<in>set (eg_Destinations eg). ParsePrefix d = Inr n)}"
  "Is6 a \<Longrightarrow> served_subnets eg a = {n. Is6 (p_ip n) \<and> (\<exists>d\<in>set (eg_Destinations eg). ParsePrefix d = Inr n)}"
proof -
  have x: "Is6 b \<Longrightarrow> \<not> Is4 b" for b by (cases b) auto
  show "Is4 a \<Longrightarrow> served_subnets eg a = {n. Is4 (p_ip n) \<and> (\<exists>d\<in>set (eg_Destinations eg). ParsePrefix d = Inr n)}"
    unfolding served_subnets_def using x by auto
  show "Is6 a \<Longrightarrow> served_subnets eg a = {n. Is6 (p_ip n) \<and> (\<exists>d\<in>set (eg_Destinations eg). ParsePrefix d = Inr n)}"
    unfolding served_subnets_def using x by auto
qed

lemma dest_loop_Inr:
  assumes "dest_loop fam ds acc = Inr ns"
  shows "set ns = set acc \<union> {n. fam (p_ip n) \<and> (\<exists>d\<in>set ds. ParsePrefix d = Inr n)} \<and> (\<forall>d\<in>set ds. \<exists>n. ParsePrefix d = Inr n)"
  using assms
proof (induction ds arbitrary: acc)
  case Nil
  then show ?case by simp
next
  case (Cons d ds)
  then show ?case by (fastforce split: sum.splits if_splits)
qed

context ponad_laws
begin

lemma collectDestinations_returns:
  assumes g: "good k" and c: "collectDestinationsForEgress env en k = (Inr (a, ds), k')"
  shows "good k' \<and> view k' = view k \<and> (\<exists>eg svc. egress_at en = Some eg \<and> service_at en = Some svc \<and>
    ParseAddr (svc_ClusterIP svc) = Inr a \<and> set ds = served_subnets eg a \<and> (Is4 a \<or> Is6 a) \<and>
    (\<forall>d\<in>set (eg_Destinations eg). \<exists>n. ParsePrefix d = Inr n))"
proof -
  from c obtain eg k1 svc k2 where eg: "pe_GetEgress env en k = (Inr eg, k1)" and svc2: "pe_GetService env en k1 = (Inr svc, k2)"
    and "(case ParseAddr (svc_ClusterIP svc) of
        Inl e \<Rightarrow> throw (newError Internal ErrorCode_INTERNAL (''invalid ClusterIP in Service '' @ nn_String en) (svc_ClusterIP svc))
      | Inr b \<Rightarrow> if Is4 b then (case dest_loop Is4 (eg_Destinations eg) [] of
            Inl e \<Rightarrow> throw (newInternalError env e (''invalid network in Egress '' @ nn_String en)) | Inr subnets \<Rightarrow> ret (b, subnets))
          else if Is6 b then (case dest_loop Is6 (eg_Destinations eg) [] of
            Inl e \<Rightarrow> throw (newInternalError env e (''invalid network in Egress '' @ nn_String en)) | Inr subnets \<Rightarrow> ret (b, subnets))
          else throw (Errorf ''invalid service ip'')) k2 = (Inr (a, ds), k')"
    unfolding collectDestinationsForEgress_def bind_io_Inr on_err_Inr by blast
  then have svc: "pe_GetService env en k1 = (Inr svc, k')"
    and a: "ParseAddr (svc_ClusterIP svc) = Inr a" "Is4 a \<and> dest_loop Is4 (eg_Destinations eg) [] = Inr ds \<or>
      \<not> Is4 a \<and> Is6 a \<and> dest_loop Is6 (eg_Destinations eg) [] = Inr ds"
    by (auto split: sum.split_asm if_splits)
  from meets_Inr[OF GetEgress eg g] have k1: "good k1" "view k1 = view k" "egress_at en = Some eg" by auto
  from meets_Inr[OF GetService svc k1(1)] have k': "good k'" "view k' = view k" "service_at en = Some svc" by (auto simp: k1)
  from a(2) have "set ds = served_subnets eg a \<and> (\<forall>d\<in>set (eg_Destinations eg). \<exists>n. ParsePrefix d = Inr n) \<and> (Is4 a \<or> Is6 a)"
    using served_subnets_family[of a eg] by (elim disjE conjE) (drule dest_loop_Inr, simp)+
  with k1(3) k' a(1) show ?thesis by blast
qed

lemma add_egress_inv:
  assumes g: "good k" and c: "add_egress env h ord ft en k = (Inr u, k')"
  obtains a ds k1 l k2 where "collectDestinationsForEgress env en k = (Inr (a, ds), k1)" "good k1" "view k1 = view k"
    "AddPeer h ft a k1 = (Inr l, k2)" "UpdateRoutes h ord l ds k2 = (Inr u, k')"
proof -
  from c obtain a ds k1 l k2 where col: "collectDestinationsForEgress env en k = (Inr (a, ds), k1)" and
    ad: "AddPeer h ft a k1 = (Inr l, k2)" and up: "UpdateRoutes h ord l ds k2 = (Inr u, k')"
    unfolding add_egress_def by (auto simp: bind_io_Inr on_err_Inr split: prod.split_asm)
  from collectDestinations_returns[OF g col] that[OF col _ _ ad up] show thesis by blast
qed

lemma add_egress_throw:
  assumes g: "good k" and t: "has_throw (view k)" and c: "add_egress env h ord ft en k = (Inr u, k')"
  shows False
  using g c
proof (rule add_egress_inv)
  fix a ds k1 l k2
  assume k1: "good k1" "view k1 = view k" and ad: "AddPeer h ft a k1 = (Inr l, k2)" and up: "UpdateRoutes h ord l ds k2 = (Inr u, k')"
  from AddPeer_returns[OF k1(1) ad] have "good k2" "k_routes (view k2) = k_routes (view k)" by (auto simp: peer_added_def k1)
  with has_throw_routes t UpdateRoutes_throw[OF _ _ up] show False by blast
qed

lemma add_egress_fresh:
  assumes g: "good k" and fr: "fresh_ns (view k)" and ord: "\<And>xs. mset (ord xs) = mset xs"
    and l4: "\<forall>loc. fc_local4 ft = Some loc \<longrightarrow> Is4 loc" and c: "add_egress env h ord ft en k = (Inr u, k')"
  shows "good k' \<and> has_throw (view k') \<and> conf_same (view k) (view k') \<and>
    (\<exists>eg svc a n l. egress_at en = Some eg \<and> service_at en = Some svc \<and> ParseAddr (svc_ClusterIP svc) = Inr a \<and>
      fouName a = Inr n \<and> fou_supports ft a \<and> k_links (view k') n = Some l \<and> tunnel_between ft a l \<and>
      ((\<forall>x\<in>served_subnets eg a. clean_prefix x) \<longrightarrow>
        own_routes (via (view k') (link_index l)) \<and> dsts (via (view k') (link_index l)) = served_subnets eg a))"
  using g c
proof (rule add_egress_inv)
  fix a ds k1 l k2
  assume col: "collectDestinationsForEgress env en k = (Inr (a, ds), k1)" and k1: "good k1" "view k1 = view k"
    and ad: "AddPeer h ft a k1 = (Inr l, k2)" and up: "UpdateRoutes h ord l ds k2 = (Inr u, k')"
  from AddPeer_returns[OF k1(1) ad] obtain n where n: "fouName a = Inr n" "fou_supports ft a" and k2: "good k2"
    "peer_added n (view k) (view k2)" "k_links (view k2) n = Some l" by (auto simp: k1)
  from fr n(1) have "k_links (view k1) n = None" by (auto simp: fresh_ns_def k1)
  from AddPeer_new[OF k1(1) ad n(1) this] fr l4 have i: "link_index l \<notin> {0, 1}" and tb: "tunnel_between ft a l"
    by (auto simp: fresh_index_def fresh_ns_def k1)
  have v: "via (view k2) (link_index l) = {}" using k2(2) fresh_via[OF fr] by (simp add: peer_added_def via_def)
  from UpdateRoutes_fresh[OF k2(1) v up ord] have k': "good k'" "has_throw (view k')" "conf_same (view k2) (view k')"
    "k_links (view k') = k_links (view k2)" by auto
  have "conf_same (view k) (view k2)" using AddPeer_conf[OF k1(1) ad] by (simp add: k1)
  with k'(3) have cs: "conf_same (view k) (view k')" using conf_same_order(2) by (meson transpD)
  have "own_routes {}" "no_default {}" by (simp_all add: own_routes_def no_default_def)
  then have "own_routes (via (view k') (link_index l)) \<and> dsts (via (view k') (link_index l)) = set ds" if "\<forall>x\<in>set ds. clean_prefix x"
    using UpdateRoutes_returns[OF k2(1) up ord i _ _ that] v by auto
  with collectDestinations_returns[OF g col] k' cs n k2(3) tb show ?thesis by metis
qed

end

section \<open>A request\<close>

definition client_prepared :: "addr option \<Rightarrow> family \<Rightarrow> kern \<Rightarrow> bool" where
  "client_prepared loc f K \<longleftrightarrow> (loc \<noteq> None \<longrightarrow>
     filter_mset (\<lambda>r. ru_Priority r = ncPrio) (k_rules K f) = {#newRuleForClient f ncTableID ncPrio#})"

definition tunnel_prepared :: "fou_controller \<Rightarrow> addr option \<Rightarrow> family \<Rightarrow> kern \<Rightarrow> bool" where
  "tunnel_prepared t loc f K \<longleftrightarrow> (loc \<noteq> None \<longrightarrow> fou_wire (fou_listener t f) \<in> k_fous K \<and> f \<in> k_forward K)"

text \<open>Everything but the egresses: both controllers are started.\<close>

definition pod_prepared :: "fou_controller \<Rightarrow> kern \<Rightarrow> bool" where
  "pod_prepared t K \<longleftrightarrow>
     client_prepared (fc_local4 t) FAMILY_V4 K \<and> client_prepared (fc_local6 t) FAMILY_V6 K \<and>
     tunnel_prepared t (fc_local4 t) FAMILY_V4 K \<and> tunnel_prepared t (fc_local6 t) FAMILY_V6 K"

definition new_ns :: "kern \<Rightarrow> bool" where
  "new_ns K \<longleftrightarrow> fresh_ns K \<and> k_links K fouDummy = None"

lemmas prepared_defs = pod_prepared_def client_prepared_def tunnel_prepared_def

lemma client_ready_fields:
  "k_links (client_ready f K) = k_links K" "k_fous (client_ready f K) = k_fous K" "k_forward (client_ready f K) = k_forward K"
  "k_routes (client_ready f K) = (k_routes K)(f := {r \<in> k_routes K f. rt_Table r \<noteq> ncTableID})"
  "k_rules (client_ready f K) = (k_rules K)(f := add_mset (newRuleForClient f ncTableID ncPrio) (filter_mset (\<lambda>r. ru_Priority r \<noteq> ncPrio) (k_rules K f)))"
  by (simp_all add: client_ready_def with_rule_def cleared_def newRuleForClient_def NewRule_def)

lemma fresh_client_ready: "fresh_ns K \<Longrightarrow> fresh_ns (client_ready f K)"
  by (auto simp: fresh_ns_def client_ready_fields)

lemma conf_same_prepared: "conf_same K K' \<Longrightarrow> pod_prepared t K \<Longrightarrow> pod_prepared t K'"
  by (simp add: conf_same_def prepared_defs)

lemma fou_ready_prepared:
  "tunnel_prepared t (fc_local4 t) FAMILY_V4 (fou_ready t K)" "tunnel_prepared t (fc_local6 t) FAMILY_V6 (fou_ready t K)"
  by (auto simp: tunnel_prepared_def fou_ready_defs)

lemma rules_ready:
  assumes "K = (if u6 then client_ready FAMILY_V6 else id) ((if u4 then client_ready FAMILY_V4 else id) M)"
  shows "k_fous K = k_fous M" "k_forward K = k_forward M" "fresh_ns M \<Longrightarrow> fresh_ns K"
    and "u4 \<Longrightarrow> filter_mset (\<lambda>r. ru_Priority r = ncPrio) (k_rules K FAMILY_V4) = {#newRuleForClient FAMILY_V4 ncTableID ncPrio#}"
    and "u6 \<Longrightarrow> filter_mset (\<lambda>r. ru_Priority r = ncPrio) (k_rules K FAMILY_V6) = {#newRuleForClient FAMILY_V6 ncTableID ncPrio#}"
proof -
  have f: "filter_mset (\<lambda>r. ru_Priority r = ncPrio) (filter_mset (\<lambda>r. ru_Priority r \<noteq> ncPrio) R) = {#}" for R :: "rule multiset"
    by (simp add: filter_filter_mset)
  have p: "ru_Priority (newRuleForClient g ncTableID ncPrio) = ncPrio" for g by (simp add: newRuleForClient_def)
  show "k_fous K = k_fous M" "k_forward K = k_forward M" "fresh_ns M \<Longrightarrow> fresh_ns K"
    by (auto simp: assms client_ready_fields fresh_client_ready)
  show "u4 \<Longrightarrow> filter_mset (\<lambda>r. ru_Priority r = ncPrio) (k_rules K FAMILY_V4) = {#newRuleForClient FAMILY_V4 ncTableID ncPrio#}"
    by (simp add: assms client_ready_fields f p)
  show "u6 \<Longrightarrow> filter_mset (\<lambda>r. ru_Priority r = ncPrio) (k_rules K FAMILY_V6) = {#newRuleForClient FAMILY_V6 ncTableID ncPrio#}"
    by (simp add: assms client_ready_fields f p)
qed

context ponad_laws
begin

lemma setup_pod_start:
  assumes g: "good k" and fr: "fresh_ns (view k)" and c: "setup_pod env h ord s l4 l6 egs k = (Inr u, k')"
  obtains ft k1 where "NewFoUTunnelController (sv_egressPort s) l4 l6 = Inr ft" "good k1" "fresh_ns (view k1)"
    "k_links (view k) fouDummy = None \<longrightarrow> pod_prepared ft (view k1)" "for_each (add_egress env h ord ft) egs k1 = (Inr u, k')"
proof -
  from c obtain ft where ft: "NewFoUTunnelController (sv_egressPort s) l4 l6 = Inr ft"
    unfolding setup_pod_def by (auto split: sum.split_asm)
  let ?nt = "\<lparr>nc_useipv4 = (l4 \<noteq> None), nc_useipv6 = (l6 \<noteq> None)\<rparr>"
  from c ft obtain v k2 w k1 where fi: "fou_Init h ft k = (Inr v, k2)" and ni: "nc_Init h ?nt k2 = (Inr w, k1)"
    and ad: "for_each (add_egress env h ord ft) egs k1 = (Inr u, k')"
    unfolding setup_pod_def NewNatClient_def by (auto simp: bind_io_Inr on_err_Inr)
  have fld: "fc_local4 ft = l4" "fc_local6 ft = l6" using NewFoU_fields[OF ft] by auto
  from fou_Init_returns[OF g fi] have k2: "good k2" by simp
  have "fresh_ns (view k2) \<and> (k_links (view k) fouDummy = None \<longrightarrow>
       tunnel_prepared ft l4 FAMILY_V4 (view k2) \<and> tunnel_prepared ft l6 FAMILY_V6 (view k2))"
  proof (cases "k_links (view k) fouDummy = None")
    case False
    with fou_Init_returns[OF g fi] fr show ?thesis by auto
  next
    case True
    with fou_Init_returns[OF g fi] obtain l where "spec_LinkAdd (Dummy (NewLinkAttrs\<lparr>la_Name := fouDummy\<rparr>)) l (fou_ready ft (view k)) (view k2)"
      by auto
    from fresh_dummy[OF fr _ _ this] fou_ready_prepared[of ft "view k"] fld show ?thesis by (simp add: tunnel_prepared_def)
  qed
  then have fr2: "fresh_ns (view k2)" and tp: "k_links (view k) fouDummy = None \<Longrightarrow>
       tunnel_prepared ft l4 FAMILY_V4 (view k2) \<and> tunnel_prepared ft l6 FAMILY_V6 (view k2)" by auto
  from nc_Init_returns[OF k2 fresh_typed[OF fr2] ni] have k1: "good k1" and
    v1: "view k1 = (if l6 \<noteq> None then client_ready FAMILY_V6 else id) ((if l4 \<noteq> None then client_ready FAMILY_V4 else id) (view k2))"
    by auto
  note rr = rules_ready[OF v1]
  have "pod_prepared ft (view k1)" if "k_links (view k) fouDummy = None"
    using tp[OF that] rr by (auto simp: prepared_defs fld)
  with ft k1 rr(3)[OF fr2] ad show thesis by (intro that) blast+
qed

lemma Add_inv:
  assumes g: "good k" and c: "Add env lib h ord s args k = (Inr b, k')"
  obtains pod p where "pod_at \<lparr>nn_Namespace = pod_arg PodNamespaceKey args, nn_Name = pod_arg PodNameKey args\<rparr> = Some pod"
    "GetPrevResult lib args = Inr p" "json_Marshal lib p = Inr b"
    "listEgress pod = [] \<and> (\<forall>q. netns q k' = netns q k) \<or>
     listEgress pod \<noteq> [] \<and> (\<exists>l4 l6 k1 k2. local_loop (result_IPs lib p) None None = Inr (l4, l6) \<and> good k1 \<and> view k1 = netns (ca_Netns args) k \<and>
       setup_pod env h ord s l4 l6 (listEgress pod) k1 = (Inr (), k2) \<and> netns (ca_Netns args) k' = view k2)"
proof -
  from c obtain pod k1 where pod: "pe_GetPod env \<lparr>nn_Namespace = pod_arg PodNamespaceKey args, nn_Name = pod_arg PodNameKey args\<rparr> k = (Inr pod, k1)"
    and rest: "(case GetPrevResult lib args of
          Inl e \<Rightarrow> throw (newInternalError env e ''failed to get previous result'')
        | Inr p \<Rightarrow> (case json_Marshal lib p of
               Inl e \<Rightarrow> throw (newInternalError env e ''failed to marshal result'')
             | Inr b \<Rightarrow> if listEgress pod = [] then ret b
                 else (case local_loop (result_IPs lib p) None None of
                      Inl e \<Rightarrow> throw (newInternalError env e ''failed to parse ip'')
                    | Inr (local4, local6) \<Rightarrow>
                        bind_io (on_err (Errorw ''failed to open netns path'') (pe_GetNS env (ca_Netns args))) (\<lambda>containerNS.
                        bind_io (pe_Do env containerNS (setup_pod env h ord s local4 local6 (listEgress pod))) (\<lambda>_. ret b))))) k1 = (Inr b, k')"
    unfolding Add_def Let_def by (auto simp only: bind_io_Inr on_err_Inr throw_eq sum.distinct split: if_split_asm)
  from rest obtain p where p: "GetPrevResult lib args = Inr p" by (auto split: sum.split_asm)
  from rest p have b: "json_Marshal lib p = Inr b"
    by (auto simp: bind_io_Inr split: sum.split_asm if_split_asm)
  note frame = GetPod[OF g pod]
  show thesis
  proof (cases "listEgress pod = []")
    case True
    with rest p b have "k' = k1" by simp
    with True frame that p b show thesis by simp
  next
    case False
    with rest p b obtain l4 l6 where l: "local_loop (result_IPs lib p) None None = Inr (l4, l6)" by (auto split: sum.split_asm)
    with rest p b False obtain ns k2 x where ns: "pe_GetNS env (ca_Netns args) k1 = (Inr ns, k2)"
      and d: "pe_Do env ns (setup_pod env h ord s l4 l6 (listEgress pod)) k2 = (Inr x, k')"
      by (auto simp: bind_io_Inr on_err_Inr)
    from frame have "good k1" by blast
    from GetNS[OF this ns] frame have g2: "good k2" "ns_path ns = ca_Netns args" "netns (ca_Netns args) k2 = netns (ca_Netns args) k" by auto
    with Do[OF g2(1) d] False l frame that p b show thesis by auto
  qed
qed

text \<open>A pod with one egress, in a new namespace.\<close>

lemma Add_one:
  assumes g: "good k" and fr: "new_ns (netns (ca_Netns args) k)" and ord: "\<And>xs. mset (ord xs) = mset xs"
    and pod: "pod_at \<lparr>nn_Namespace = pod_arg PodNamespaceKey args, nn_Name = pod_arg PodNameKey args\<rparr> = Some pod"
    and one: "listEgress pod = [en]" and c: "Add env lib h ord s args k = (Inr b, k')"
  shows "\<exists>p ft eg svc a n l. GetPrevResult lib args = Inr p \<and> local_loop (result_IPs lib p) None None = Inr (fc_local4 ft, fc_local6 ft) \<and>
      fc_port ft = sv_egressPort s \<and> pod_prepared ft (netns (ca_Netns args) k') \<and>
      egress_at en = Some eg \<and> service_at en = Some svc \<and> ParseAddr (svc_ClusterIP svc) = Inr a \<and>
      fouName a = Inr n \<and> fou_supports ft a \<and> k_links (netns (ca_Netns args) k') n = Some l \<and> tunnel_between ft a l \<and>
      ((\<forall>x\<in>served_subnets eg a. clean_prefix x) \<longrightarrow> dsts (via (netns (ca_Netns args) k') (link_index l)) = served_subnets eg a)"
  using g c
proof (rule Add_inv)
  fix pod' p
  assume "pod_at \<lparr>nn_Namespace = pod_arg PodNamespaceKey args, nn_Name = pod_arg PodNameKey args\<rparr> = Some pod'"
    and prev: "GetPrevResult lib args = Inr p" and run: "listEgress pod' = [] \<and> (\<forall>q. netns q k' = netns q k) \<or>
     listEgress pod' \<noteq> [] \<and> (\<exists>l4 l6 k1 k2. local_loop (result_IPs lib p) None None = Inr (l4, l6) \<and> good k1 \<and> view k1 = netns (ca_Netns args) k \<and>
       setup_pod env h ord s l4 l6 (listEgress pod') k1 = (Inr (), k2) \<and> netns (ca_Netns args) k' = view k2)"
  with pod one obtain l4 l6 k1 k2 where loc: "local_loop (result_IPs lib p) None None = Inr (l4, l6)" and k1: "good k1" "view k1 = netns (ca_Netns args) k"
    and sp: "setup_pod env h ord s l4 l6 [en] k1 = (Inr (), k2)" and k2: "netns (ca_Netns args) k' = view k2" by auto
  from fr k1(2) have new: "fresh_ns (view k1)" "k_links (view k1) fouDummy = None" by (auto simp: new_ns_def)
  from setup_pod_start[OF k1(1) new(1) sp] new(2) obtain ft k3 where ft: "NewFoUTunnelController (sv_egressPort s) l4 l6 = Inr ft"
    and k3: "good k3" "fresh_ns (view k3)" "pod_prepared ft (view k3)" and ad: "add_egress env h ord ft en k3 = (Inr (), k2)"
    by (auto simp: bind_io_Inr)
  from NewFoU_fields[OF ft] loc have "local_loop (result_IPs lib p) None None = Inr (fc_local4 ft, fc_local6 ft)" "fc_port ft = sv_egressPort s" by auto
  with add_egress_fresh[OF k3(1,2) ord NewFoU_locals4[OF ft] ad] conf_same_prepared[OF _ k3(3)] prev show ?thesis
    unfolding k2 by metis
qed

lemma Add_many:
  assumes g: "good k" and fr: "fresh_ns (netns (ca_Netns args) k)" and ord: "\<And>xs. mset (ord xs) = mset xs"
    and pod: "pod_at \<lparr>nn_Namespace = pod_arg PodNamespaceKey args, nn_Name = pod_arg PodNameKey args\<rparr> = Some pod"
    and two: "length (listEgress pod) \<ge> 2"
  shows "\<exists>e. fst (Add env lib h ord s args k) = Inl e"
proof (cases "fst (Add env lib h ord s args k)")
  case (Inr b)
  from two obtain e1 e2 es where l: "listEgress pod = e1 # e2 # es" by (metis One_nat_def Suc_1 Suc_le_length_iff)
  from g run_pair[OF Inr] show ?thesis
  proof (rule Add_inv)
    fix pod' p
    let ?k' = "snd (Add env lib h ord s args k)"
    assume "pod_at \<lparr>nn_Namespace = pod_arg PodNamespaceKey args, nn_Name = pod_arg PodNameKey args\<rparr> = Some pod'"
      and "listEgress pod' = [] \<and> (\<forall>q. netns q ?k' = netns q k) \<or>
       listEgress pod' \<noteq> [] \<and> (\<exists>l4 l6 k1 k2. local_loop (result_IPs lib p) None None = Inr (l4, l6) \<and> good k1 \<and> view k1 = netns (ca_Netns args) k \<and>
         setup_pod env h ord s l4 l6 (listEgress pod') k1 = (Inr (), k2) \<and> netns (ca_Netns args) ?k' = view k2)"
    with pod l obtain l4 l6 k1 k2 where k1: "good k1" "view k1 = netns (ca_Netns args) k"
      and sp: "setup_pod env h ord s l4 l6 (e1 # e2 # es) k1 = (Inr (), k2)" by auto
    from fr k1(2) have "fresh_ns (view k1)" by simp
    from setup_pod_start[OF k1(1) this sp] obtain ft k3 where ft: "NewFoUTunnelController (sv_egressPort s) l4 l6 = Inr ft"
      and k3: "good k3" "fresh_ns (view k3)" and run: "for_each (add_egress env h ord ft) (e1 # e2 # es) k3 = (Inr (), k2)" by metis
    from run obtain k4 k5 where a1: "add_egress env h ord ft e1 k3 = (Inr (), k4)" and a2: "add_egress env h ord ft e2 k4 = (Inr (), k5)"
      by (auto simp: bind_io_Inr)
    from add_egress_fresh[OF k3 ord NewFoU_locals4[OF ft] a1] add_egress_throw[OF _ _ a2] have False by blast
    then show ?thesis ..
  qed
qed simp

end

section \<open>A cluster and a namespace in memory\<close>

definition sim_get :: "(nsname \<Rightarrow> 'a option) \<Rightarrow> nsname \<Rightarrow> (sim, 'a) io" where
  "sim_get m n s = (case m n of None \<Rightarrow> (Inl ApiNotFound, s) | Some x \<Rightarrow> (Inr x, s))"

fun sim_text :: "err \<Rightarrow> string" where
  "sim_text (Errorf m) = m"
| "sim_text (Errorw m e) = m @ '': '' @ sim_text e"
| "sim_text (StatusErr c m d) = m"
| "sim_text (LibErr m) = m"
| "sim_text _ = ''error''"

definition sim_env ::
  "(nsname \<Rightarrow> pod option) \<Rightarrow> (nsname \<Rightarrow> egress option) \<Rightarrow> (nsname \<Rightarrow> service option) \<Rightarrow> (sim, string) ponad_env" where
  "sim_env P E S =
     \<lparr>pe_GetPod = sim_get P, pe_GetEgress = sim_get E, pe_GetService = sim_get S, pe_GetNS = ret,
      pe_Do = (\<lambda>n f. f), pe_Error = sim_text, pe_AddrString = (\<lambda>a. hex_bytes (AsSlice a))\<rparr>"

interpretation ps: ponad_laws sim_host sim_good sim_view "sim_env P E S" P E S "\<lambda>_. sim_view" "\<lambda>p. p"
  for P E S
  by unfold_locales (auto simp: sim_env_def sim_get_def meets_def split: option.splits)

definition demo_lib :: "(unit, net_ipnet list, net_ipnet list) cni_lib" where
  "demo_lib =
     \<lparr>json_Unmarshal = (\<lambda>s. if s = [] then Inl (LibErr ''unexpected end of JSON input'') else Inr \<lparr>pc_NetConf = (), pc_Socket = ''/run/ponad.sock''\<rparr>),
      ParsePrevResult = Inr, PrevResult = (\<lambda>_. Some [\<lparr>n_IP = [10, 1, 0, 5], n_Mask = [255, 255, 255, 255]\<rparr>]),
      CNIVersion = (\<lambda>_. ''1.0.0''), cni100_GetResult = (\<lambda>r. case r of None \<Rightarrow> Inl (LibErr ''no result'') | Some x \<Rightarrow> Inr x),
      cni100_NewResult = (\<lambda>s. Inr []), result_IPs = (\<lambda>x. x), json_Marshal = (\<lambda>x. Inr ''{}''),
      LoadArgs = (\<lambda>s. Inr \<lparr>K8S_POD_NAMESPACE = ''default'', K8S_POD_NAME = s, K8S_POD_INFRA_CONTAINER_ID = []\<rparr>)\<rparr>"

definition demo_pod_asking :: "string \<Rightarrow> pod" where
  "demo_pod_asking v =
     \<lparr>pod_Namespace = ''default'', pod_Name = ''client'', pod_Annotations = [(''egress.pona.cybozu.com/internet'', v)],
      pod_HostNetwork = False, pod_PodIPs = [], pod_Phase = ''Pending'', pod_DeletionTimestamp = None\<rparr>"

definition demo_dest_egress :: egress where
  "demo_dest_egress = (demo_egress [])\<lparr>eg_Destinations := [''192.0.2.0/24'']\<rparr>"

definition demo_svc :: service where
  "demo_svc = (blank_service demo_key)\<lparr>svc_ClusterIP := ''10.96.0.10''\<rparr>"

definition demo_env :: "string \<Rightarrow> (sim, string) ponad_env" where
  "demo_env v = sim_env (\<lambda>_. Some (demo_pod_asking v)) (\<lambda>_. Some demo_dest_egress) (\<lambda>_. Some demo_svc)"

definition demo_args :: cni_args where
  "demo_args = \<lparr>ca_ContainerId = ''c'', ca_Netns = ''/var/run/netns/x'', ca_Ifname = ''eth0'',
     ca_Args = [PodNameKey \<mapsto> ''client'', PodNamespaceKey \<mapsto> ''default''], ca_Path = [], ca_StdinData = ''{}''\<rparr>"

definition demo_ns :: sim where
  "demo_ns = sim_empty\<lparr>s_links := [OtherLink \<lparr>la_Name = ''lo'', la_Index = 1, la_TxQLen = 0\<rparr>]\<rparr>"

lemma demo_ns_new: "new_ns (sim_view demo_ns)" "fresh_ns (sim_view demo_ns)" "sim_good demo_ns"
  using lo_not_made
  by (auto simp: new_ns_def fresh_ns_def demo_ns_def sim_view_def sim_empty_def sim_find_def sim_good_def fouDummy_def)


lemma demo_lists:
  "listEgress (demo_pod_asking ''egress'') = [\<lparr>nn_Namespace = ''internet'', nn_Name = ''egress''\<rparr>]"
  "length (listEgress (demo_pod_asking ''a,b'')) = 2" "listEgress ((demo_pod_asking ''a'')\<lparr>pod_HostNetwork := True\<rparr>) = []"
  by code_simp+

section \<open>Properties\<close>



text \<open>
  C17. For a pod that asks for two or more egresses \<open>Add\<close> always fails, whatever the
  cluster holds: the first egress leaves the throw routes in table 117, and the kernel
  refuses them for the second.
\<close>

theorem Add_several_egresses:
  assumes "ponad_laws h good view env pod_at egress_at service_at netns ns_path"
    and "good k" "fresh_ns (netns (ca_Netns args) k)" "\<And>xs. mset (ord xs) = mset xs"
    and "pod_at \<lparr>nn_Namespace = pod_arg PodNamespaceKey args, nn_Name = pod_arg PodNameKey args\<rparr> = Some pod"
    and "length (listEgress pod) \<ge> 2"
  shows "\<exists>e. fst (Add env lib h ord s args k) = Inl e"
  by (rule ponad_laws.Add_many[OF assms])

theorem Add_several_egresses_witness:
  "\<exists>e. fst (Add (demo_env ''a,b'') demo_lib sim_host (\<lambda>x. x) (NewServer 5555) demo_args demo_ns) = Inl e"
proof -
  have "2 \<le> length (listEgress (demo_pod_asking ''a,b''))" by (simp add: demo_lists(2))
  show ?thesis unfolding demo_env_def
    by (rule Add_several_egresses[OF ps.ponad_laws_axioms demo_ns_new(3,2) _ refl \<open>2 \<le> length (listEgress (demo_pod_asking ''a,b''))\<close>]) simp
qed

text \<open>
  A request for a pod without an egress, for instance one in the host network, is
  answered with the previous result and leaves every namespace as it is.
\<close>

lemma Add_passes_through:
  assumes "ponad_laws h good view env pod_at egress_at service_at netns ns_path" "good k"
    and "pod_at \<lparr>nn_Namespace = pod_arg PodNamespaceKey args, nn_Name = pod_arg PodNameKey args\<rparr> = Some pod"
    and "listEgress pod = []" "Add env lib h ord s args k = (Inr b, k')"
  shows "(\<exists>p. GetPrevResult lib args = Inr p \<and> json_Marshal lib p = Inr b) \<and> (\<forall>q. netns q k' = netns q k)"
  by (rule ponad_laws.Add_inv[OF assms(1,2,5)]) (use assms(3,4) in auto)

text \<open>
  What \<open>collectDestinationsForEgress\<close> returns once the egress and its service are
  there and the service has an address: the destinations of the address's family, in
  their order; but a single destination that does not parse, of either family, is an
  error for the whole egress.
\<close>

lemma collectDestinations_answer:
  assumes "pe_GetEgress env en k = (Inr eg, k1)" "pe_GetService env en k1 = (Inr svc, k2)" "ParseAddr (svc_ClusterIP svc) = Inr a"
    and "a \<noteq> AddrZero"
  shows "(if \<forall>d\<in>set (eg_Destinations eg). \<exists>n. ParsePrefix d = Inr n
     then collectDestinationsForEgress env en k =
       (Inr (a, filter (\<lambda>n. Is4 (p_ip n) = Is4 a \<and> Is6 (p_ip n) = Is6 a) (map (\<lambda>d. projr (ParsePrefix d)) (eg_Destinations eg))), k2)
     else \<exists>e. collectDestinationsForEgress env en k = (Inl e, k2))"
proof -
  have loop: "dest_loop fam ds acc = (if \<forall>d\<in>set ds. \<exists>n. ParsePrefix d = Inr n
      then Inr (acc @ filter (\<lambda>n. fam (p_ip n)) (map (\<lambda>d. projr (ParsePrefix d)) ds))
      else Inl (projl (the (find isl (map ParsePrefix ds)))))" for fam ds acc
    by (induction ds arbitrary: acc) (auto split: sum.splits)
  have fam: "Is4 b \<and> \<not> Is6 b \<longleftrightarrow> Is4 b" "\<not> Is4 b \<and> Is6 b \<longleftrightarrow> Is6 b" for b by (cases b; simp)+
  show ?thesis
    using assms by (cases a) (auto simp: collectDestinationsForEgress_def bind_io_def on_err_def loop fam ret_def throw_def)
qed

text \<open>
  Errors travel from the daemon to the caller of the plugin without loss: what
  \<open>newError\<close> makes on the server becomes, through \<open>convertError\<close>, a CNI error with
  the same code, the message followed by the details, and the details; the plugin does
  not panic on it.
\<close>

lemma newError_convertError:
  assumes "\<And>c m d. status_Convert penv (StatusErr c m d) = (c, m, d)"
  shows "convertError penv (newError c code msg details) =
    Some \<lparr>te_Code = word_of_int code, te_Msg = msg @ details, te_Details = details\<rparr>"
  using assms by (simp add: convertError_def newError_def types_NewError_def)

definition demo_penv :: "(unit, unit, net_ipnet list) plugin_env" where
  "demo_penv = \<lparr>grpc_NewClient = (\<lambda>_. ret ()), rpc_Add = (\<lambda>_ _. throw (newError NotFound ErrorCode_UNKNOWN_CONTAINER ''pod not found'' ''x'')),
     status_Convert = (\<lambda>e. case e of StatusErr c m d \<Rightarrow> (c, m, d) | _ \<Rightarrow> (Unknown, sim_text e, [])),
     PrintResult = (\<lambda>_ _. ret ()), err_Error = sim_text\<rparr>"

end
