(* ===== verification/Commands.thy ===== *)
theory Commands
  imports EgressController
begin

text \<open>
  The remaining commands: the installer of the CNI plugin (\<open>cmd/pona-installer\<close>) with
  the part of Go's \<open>os\<close> package it uses, and what \<open>cmd/egress-controller\<close> makes of
  its flags.
\<close>

section \<open>Files\<close>

record os_file =
  f_data :: string
  f_mode :: int

type_synonym fs = "string \<Rightarrow> os_file option"

datatype os_op = OpOpen | OpMkdirAll | OpCreateTemp | OpCopy | OpChmod | OpSync | OpRename | OpRemove

text \<open>
  What the program cannot foresee: which calls fail and how, how much a failed copy has
  written, and the name of a temporary file.
\<close>

record os_env =
  oe_fails :: "os_op \<Rightarrow> err option"
  oe_partial :: "string \<Rightarrow> string"
  oe_tmpname :: "fs \<Rightarrow> string \<Rightarrow> string"

definition os_call :: "os_env \<Rightarrow> os_op \<Rightarrow> (fs, 'a) io \<Rightarrow> (fs, 'a) io" where
  "os_call env op m = (case oe_fails env op of Some e \<Rightarrow> throw e | None \<Rightarrow> m)"

text \<open>An open file is known by its path; directories are not part of the state.\<close>

definition os_Open :: "os_env \<Rightarrow> string \<Rightarrow> (fs, string) io" where
  "os_Open env path = os_call env OpOpen (\<lambda>s. if s path = None then (Inl (LibErr ''no such file or directory''), s) else (Inr path, s))"

definition os_MkdirAll :: "os_env \<Rightarrow> string \<Rightarrow> (fs, unit) io" where
  "os_MkdirAll env dir = os_call env OpMkdirAll (ret ())"

definition os_CreateTemp :: "os_env \<Rightarrow> string \<Rightarrow> (fs, string) io" where
  "os_CreateTemp env dir = os_call env OpCreateTemp (\<lambda>s.
     let t = oe_tmpname env s dir in (Inr t, s(t \<mapsto> \<lparr>f_data = [], f_mode = 384\<rparr>)))"

text \<open>Modes are decimal: 384 is \<open>0600\<close>, 493 is \<open>0755\<close>.\<close>

definition write_file :: "string \<Rightarrow> string \<Rightarrow> fs \<Rightarrow> fs" where
  "write_file path d s = (case s path of None \<Rightarrow> s | Some f \<Rightarrow> s(path \<mapsto> f\<lparr>f_data := f_data f @ d\<rparr>))"

definition io_Copy :: "os_env \<Rightarrow> string \<Rightarrow> string \<Rightarrow> (fs, unit) io" where
  "io_Copy env dst src s =
     (let d = (case s src of None \<Rightarrow> [] | Some f \<Rightarrow> f_data f) in
      case oe_fails env OpCopy of
        Some e \<Rightarrow> (Inl e, write_file dst (oe_partial env d) s)
      | None \<Rightarrow> (Inr (), write_file dst d s))"

definition os_Chmod :: "os_env \<Rightarrow> string \<Rightarrow> int \<Rightarrow> (fs, unit) io" where
  "os_Chmod env path mode = os_call env OpChmod (\<lambda>s.
     (Inr (), case s path of None \<Rightarrow> s | Some f \<Rightarrow> s(path \<mapsto> f\<lparr>f_mode := mode\<rparr>)))"

definition os_Sync :: "os_env \<Rightarrow> (fs, unit) io" where
  "os_Sync env = os_call env OpSync (ret ())"

text \<open>Renaming replaces the target in one step.\<close>

definition os_Rename :: "os_env \<Rightarrow> string \<Rightarrow> string \<Rightarrow> (fs, unit) io" where
  "os_Rename env old new = os_call env OpRename (\<lambda>s.
     case s old of None \<Rightarrow> (Inl (LibErr ''no such file or directory''), s) | Some f \<Rightarrow> (Inr (), s(old := None, new \<mapsto> f)))"

definition os_Remove :: "os_env \<Rightarrow> string \<Rightarrow> (fs, unit) io" where
  "os_Remove env path = os_call env OpRemove (\<lambda>s.
     if s path = None then (Inl (LibErr ''no such file or directory''), s) else (Inr (), s(path := None)))"

text \<open>\<open>filepath.Join\<close> for a directory in clean form.\<close>

definition filepath_Join :: "string \<Rightarrow> string \<Rightarrow> string" where
  "filepath_Join dir name = dir @ ''/'' @ name"

section \<open>The installer\<close>

definition installPona :: "os_env \<Rightarrow> string \<Rightarrow> string \<Rightarrow> (fs, unit) io" where
  "installPona env ponaPath cniBinDir =
     bind_io (on_err (Errorw ''failed to read pona'') (os_Open env ponaPath)) (\<lambda>f.
     bind_io (on_err (Errorw ''failed to MkdirAll'') (os_MkdirAll env cniBinDir)) (\<lambda>_.
     bind_io (on_err (Errorw ''failed to CreateTemp'') (os_CreateTemp env cniBinDir)) (\<lambda>g.
     with_defer (os_Remove env g)
       (bind_io (on_err (Errorw ''failed to io.Copy'') (io_Copy env g f)) (\<lambda>_.
        bind_io (on_err (Errorw ''failed to chmod'') (os_Chmod env g 493)) (\<lambda>_.
        bind_io (on_err (Errorw ''failed to Sync'') (os_Sync env)) (\<lambda>_.
        bind_io (on_err (Errorw ''failed to rename'') (os_Rename env g (filepath_Join cniBinDir ''pona''))) (\<lambda>_.
        ret ()))))))))"

record installer_config =
  ic_CniEtcDir :: string
  ic_CniBinDir :: string
  ic_PonaPath :: string

text \<open>The exit status and the files; \<open>parsed\<close> is what the environment library returns.\<close>

definition installer_main :: "os_env \<Rightarrow> err + installer_config \<Rightarrow> fs \<Rightarrow> int \<times> fs" where
  "installer_main env parsed s =
     (case parsed of
        Inl _ \<Rightarrow> (1, s)
      | Inr cfg \<Rightarrow> (0, snd (installPona env (ic_PonaPath cfg) (ic_CniBinDir cfg) s)))"

section \<open>The egress controller's flags\<close>

record controller_config =
  cc_FoUPort :: int
  cc_NatGatewayImage :: string

definition check_flags :: "controller_config \<Rightarrow> err + unit" where
  "check_flags config =
     (if cc_NatGatewayImage config = [] then Inl (Errorf ''--natgateway-image is required'') else Inr ())"

text \<open>The conversion to \<open>int32\<close> keeps the low 32 bits.\<close>

definition new_reconciler :: "controller_config \<Rightarrow> err + reconciler" where
  "new_reconciler config =
     (case check_flags config of
        Inl e \<Rightarrow> Inl e
      | Inr _ \<Rightarrow> Inr \<lparr>er_Port = sint (word_of_int (cc_FoUPort config) :: 32 word), er_DefaultImage = cc_NatGatewayImage config\<rparr>)"

section \<open>Properties\<close>

text \<open>A file system call that is allowed leaves a result; one that is not leaves the files.\<close>

lemma os_call_run: "os_call env op m s = (case oe_fails env op of Some e \<Rightarrow> (Inl e, s) | None \<Rightarrow> m s)"
  by (simp add: os_call_def throw_def split: option.splits)

lemmas os_defs = os_Open_def os_MkdirAll_def os_CreateTemp_def io_Copy_def os_Chmod_def os_Sync_def os_Rename_def os_Remove_def
  os_call_run write_file_def bind_io_def on_err_def ret_def with_defer_def Let_def

text \<open>
  C27. The installer never leaves a broken plugin behind. Whichever call fails, the
  plugin's file is either what it was, or the complete new binary with mode 0755; it is
  the new binary if the installer returns without an error and only then; no other
  file has changed, and the temporary file is gone unless its removal failed.
\<close>

theorem installPona_atomic:
  assumes "s ponaPath = Some src" "tmp = oe_tmpname env s dir" "s tmp = None" "tmp \<noteq> filepath_Join dir ''pona''"
    and "installPona env ponaPath dir s = (r, s')"
  shows "s' (filepath_Join dir ''pona'') =
      (if r = Inr () then Some \<lparr>f_data = f_data src, f_mode = 493\<rparr> else s (filepath_Join dir ''pona'')) \<and>
    (\<forall>p. p \<noteq> filepath_Join dir ''pona'' \<longrightarrow> p \<noteq> tmp \<longrightarrow> s' p = s p) \<and>
    (oe_fails env OpRemove = None \<longrightarrow> s' tmp = None)"
proof -
  from assms(1-3) have "ponaPath \<noteq> oe_tmpname env s dir" by auto
  with assms show ?thesis unfolding installPona_def
    by (auto simp: os_defs split: option.splits)
qed

definition demo_os :: "(os_op \<Rightarrow> err option) \<Rightarrow> os_env" where
  "demo_os fl = \<lparr>oe_fails = fl, oe_partial = take 1, oe_tmpname = (\<lambda>s dir. dir @ ''/.tmp1'')\<rparr>"

definition demo_files :: fs where
  "demo_files = [''/pona'' \<mapsto> \<lparr>f_data = ''new'', f_mode = 493\<rparr>, ''/bin/pona'' \<mapsto> \<lparr>f_data = ''old'', f_mode = 493\<rparr>]"

theorem installPona_atomic_witness:
  "\<exists>s s'. installPona (demo_os (\<lambda>_. None)) ''/pona'' ''/bin'' demo_files = (Inr (), s) \<and> s ''/bin/pona'' = Some \<lparr>f_data = ''new'', f_mode = 493\<rparr> \<and>
     fst (installPona (demo_os (\<lambda>op. if op = OpCopy then Some (LibErr ''disk full'') else None)) ''/pona'' ''/bin'' demo_files) \<noteq> Inr () \<and>
     snd (installPona (demo_os (\<lambda>op. if op = OpCopy then Some (LibErr ''disk full'') else None)) ''/pona'' ''/bin'' demo_files) ''/bin/pona'' =
       Some \<lparr>f_data = ''old'', f_mode = 493\<rparr>"
proof -
  let ?full = "demo_os (\<lambda>op. if op = OpCopy then Some (LibErr ''disk full'') else None)"
  have ok: "fst (installPona (demo_os (\<lambda>_. None)) ''/pona'' ''/bin'' demo_files) = Inr ()" by code_simp
  have full: "fst (installPona ?full ''/pona'' ''/bin'' demo_files) \<noteq> Inr ()" by code_simp
  have f: "demo_files ''/pona'' = Some \<lparr>f_data = ''new'', f_mode = 493\<rparr>" "demo_files ''/bin/.tmp1'' = None"
    "demo_files ''/bin/pona'' = Some \<lparr>f_data = ''old'', f_mode = 493\<rparr>" by (simp_all add: demo_files_def)
  have t: "''/bin/.tmp1'' = oe_tmpname (demo_os fl) demo_files ''/bin''" "''/bin/.tmp1'' \<noteq> filepath_Join ''/bin'' ''pona''"
    "filepath_Join ''/bin'' ''pona'' = ''/bin/pona''" for fl by (simp_all add: demo_os_def filepath_Join_def)
  from installPona_atomic[OF f(1) t(1) f(2) t(2) run_pair[OF ok]] installPona_atomic[OF f(1) t(1) f(2) t(2), of _ "fst (installPona ?full ''/pona'' ''/bin'' demo_files)"]
  show ?thesis using run_pair[OF ok] full f(3) by (auto simp: t(3))
qed

text \<open>
  The installer's exit status says nothing about the installation: whenever the
  configuration can be read it is 0, also when \<open>installPona\<close> has returned an error and
  the plugin is not there.
\<close>

lemma installer_main_status:
  "fst (installer_main env (Inr cfg) s) = 0 \<and>
   (\<exists>e. installPona env (ic_PonaPath cfg) (ic_CniBinDir cfg) Map.empty = (Inl e, Map.empty)) \<and>
   installer_main env (Inr cfg) Map.empty = (0, Map.empty)"
proof -
  have "\<exists>e. installPona env (ic_PonaPath cfg) (ic_CniBinDir cfg) Map.empty = (Inl e, Map.empty)"
    by (auto simp: installPona_def os_defs split: option.splits)
  then show ?thesis by (auto simp: installer_main_def)
qed

end
