(* ===== verification/Mains.thy ===== *)
theory Mains
  imports Flags NatGatewayMain Ponad Commands
begin

text \<open>
  The \<open>main\<close> functions of the three daemons (\<open>cmd/egress-controller\<close>, \<open>cmd/nat-gateway\<close>,
  \<open>cmd/ponad\<close>): their flags, the options of the manager they make from them, and the
  order in which they set things up, up to the exit status. The manager of
  controller-runtime is the argument \<open>ct\<close>, a record of its calls over an unknown state.
  Logging and the registration of API types are left out.
\<close>

section \<open>The manager\<close>

record tls_config =
  tc_NextProtos :: "string list"

datatype metrics_filter = WithAuthenticationAndAuthorization

record metrics_options =
  mo_BindAddress :: string
  mo_SecureServing :: bool
  mo_TLSOpts :: "(tls_config \<Rightarrow> tls_config) list"
  mo_FilterProvider :: "metrics_filter option"

record manager_options =
  op_Metrics :: metrics_options
  op_WebhookTLSOpts :: "(tls_config \<Rightarrow> tls_config) list"
  op_HealthProbeBindAddress :: string
  op_LeaderElection :: bool
  op_LeaderElectionID :: string
  op_GracefulShutdownTimeout :: "int option"

datatype api_kind = EgressKind | PodKind | ServiceAccountKind | ClusterRoleKind | ClusterRoleBindingKind | DeploymentKind
  | ServiceKind | PodDisruptionBudgetKind

text \<open>What \<open>ctrl.NewControllerManagedBy\<close> is told, and the reconciler it completes with.\<close>

record controller_spec =
  cs_For :: api_kind
  cs_Owns :: "api_kind list"

datatype registered = EgressReconcilerOf reconciler | PodWatcherOf string string

record ('w, 'm) ctrl =
  ct_NewManager :: "manager_options \<Rightarrow> ('w, 'm) io"
  ct_Complete :: "'m \<Rightarrow> controller_spec \<Rightarrow> registered \<Rightarrow> ('w, unit) io"
  ct_AddHealthzCheck :: "'m \<Rightarrow> string \<Rightarrow> ('w, unit) io"
  ct_AddReadyzCheck :: "'m \<Rightarrow> string \<Rightarrow> ('w, unit) io"
  ct_Add :: "'m \<Rightarrow> server \<Rightarrow> ('w, unit) io"
  ct_Start :: "'m \<Rightarrow> ('w, unit) io"

definition EgressReconciler_SetupWithManager :: "('w, 'm) ctrl \<Rightarrow> reconciler \<Rightarrow> 'm \<Rightarrow> ('w, unit) io" where
  "EgressReconciler_SetupWithManager ct r mgr =
     ct_Complete ct mgr
       \<lparr>cs_For = EgressKind,
        cs_Owns = [ServiceAccountKind, ClusterRoleKind, ClusterRoleBindingKind, DeploymentKind, ServiceKind, PodDisruptionBudgetKind]\<rparr>
       (EgressReconcilerOf r)"

definition PodWatcher_SetupWithManager :: "('w, 'm) ctrl \<Rightarrow> 'k pod_watcher \<Rightarrow> 'm \<Rightarrow> ('w, unit) io" where
  "PodWatcher_SetupWithManager ct r mgr =
     ct_Complete ct mgr \<lparr>cs_For = PodKind, cs_Owns = []\<rparr> (PodWatcherOf (pw_EgressName r) (pw_EgressNamespace r))"

section \<open>Flags and options\<close>

definition nat_gateway_flags :: flags where
  "nat_gateway_flags =
     [(''metrics-bind-address'', StringV ''0''), (''health-probe-bind-address'', StringV '':8081''), (''leader-elect'', BoolV False),
      (''metrics-secure'', BoolV True), (''enable-http2'', BoolV False), (''fou-port'', IntV 5555)]"

definition egress_controller_flags :: flags where
  "egress_controller_flags =
     [(''metrics-bind-address'', StringV ''0''), (''health-probe-bind-address'', StringV '':8081''), (''leader-elect'', BoolV False),
      (''metrics-secure'', BoolV True), (''enable-http2'', BoolV False), (''fou-port'', IntV 5555), (''natgateway-image'', StringV [])]"

definition disableHTTP2 :: "tls_config \<Rightarrow> tls_config" where
  "disableHTTP2 c = c\<lparr>tc_NextProtos := [''http/1.1'']\<rparr>"

definition tlsOpts :: "flags \<Rightarrow> (tls_config \<Rightarrow> tls_config) list" where
  "tlsOpts fs = (if \<not> flag_bool fs ''enable-http2'' then [disableHTTP2] else [])"

definition metricsServerOptions :: "flags \<Rightarrow> metrics_options" where
  "metricsServerOptions fs =
     (let secureMetrics = flag_bool fs ''metrics-secure'';
          o1 = \<lparr>mo_BindAddress = flag_string fs ''metrics-bind-address'', mo_SecureServing = secureMetrics, mo_TLSOpts = tlsOpts fs,
               mo_FilterProvider = None\<rparr> in
      if secureMetrics then o1\<lparr>mo_FilterProvider := Some WithAuthenticationAndAuthorization\<rparr> else o1)"

definition main_options :: "flags \<Rightarrow> manager_options" where
  "main_options fs =
     \<lparr>op_Metrics = metricsServerOptions fs, op_WebhookTLSOpts = tlsOpts fs,
      op_HealthProbeBindAddress = flag_string fs ''health-probe-bind-address'', op_LeaderElection = flag_bool fs ''leader-elect'',
      op_LeaderElectionID = ''7e4aaa0a.pona.cybozu.com'', op_GracefulShutdownTimeout = None\<rparr>"

section \<open>The programs\<close>

text \<open>An error is logged, and the status is 1.\<close>

definition exit_status :: "('w, 'a) io \<Rightarrow> 'w \<Rightarrow> int \<times> 'w" where
  "exit_status m w = (case m w of (Inl _, w') \<Rightarrow> (1, w') | (Inr _, w') \<Rightarrow> (0, w'))"

text \<open>The end of both programs: the two checks, then \<open>Start\<close>.\<close>

definition serve_manager :: "('w, 'm) ctrl \<Rightarrow> 'm \<Rightarrow> ('w, unit) io" where
  "serve_manager ct mgr =
     bind_io (ct_AddHealthzCheck ct mgr ''healthz'') (\<lambda>_.
     bind_io (ct_AddReadyzCheck ct mgr ''readyz'') (\<lambda>_.
     ct_Start ct mgr))"

definition egress_controller_process :: "('w, 'm) ctrl \<Rightarrow> string list \<Rightarrow> 'w \<Rightarrow> int \<times> 'w" where
  "egress_controller_process ct args w =
     (case parse_flags egress_controller_flags args of
        Inl st \<Rightarrow> (st, w)
      | Inr fs \<Rightarrow>
          exit_status
            (case new_reconciler \<lparr>cc_FoUPort = flag_int fs ''fou-port'', cc_NatGatewayImage = flag_string fs ''natgateway-image''\<rparr> of
               Inl e \<Rightarrow> throw e
             | Inr r \<Rightarrow>
                 bind_io (ct_NewManager ct (main_options fs)) (\<lambda>mgr.
                 bind_io (EgressReconciler_SetupWithManager ct r mgr) (\<lambda>_.
                 serve_manager ct mgr))) w)"

text \<open>The gateway's state is its network namespace and what the manager keeps.\<close>

definition in_ns :: "('k, 'a) io \<Rightarrow> ('k \<times> 'c, 'a) io" where
  "in_ns = lift_io fst (\<lambda>k w. (k, snd w))"

definition nat_gateway_process ::
  "('k \<times> 'c, 'm) ctrl \<Rightarrow> 'k host \<Rightarrow> (string \<Rightarrow> string) \<Rightarrow> string list \<Rightarrow> 'k \<times> 'c \<Rightarrow> int \<times> 'k \<times> 'c" where
  "nat_gateway_process ct h Getenv args w =
     (case parse_flags nat_gateway_flags args of
        Inl st \<Rightarrow> (st, w)
      | Inr fs \<Rightarrow>
          exit_status
            (bind_io (ct_NewManager ct (main_options fs)) (\<lambda>mgr.
             bind_io (in_ns (nat_gateway_main h Getenv (flag_int fs ''fou-port''))) (\<lambda>p.
             bind_io (PodWatcher_SetupWithManager ct (gp_watcher p) mgr) (\<lambda>_.
             serve_manager ct mgr)))) w)"

text \<open>
  The node daemon. \<open>net.Listen\<close> binds a socket to its address and fails when the address
  is in use. For a path that is while there is a file of that name, which binding makes; for
  an abstract address (a name that starts with \<open>@\<close>) while a process has it bound. The state
  is the set of addresses in use and what the manager keeps.
\<close>

record ponad_config =
  pc_metricsAddr :: string
  pc_healthAddr :: string
  pc_socketPath :: string
  pc_egressPort :: int

definition defaultSocketPath :: string where "defaultSocketPath = ''/run/ponad.sock''"

definition gracefulTimeout :: int where "gracefulTimeout = 20"

definition ponad_flags :: flags where
  "ponad_flags =
     [(''metrics-addr'', StringV '':9384''), (''health-addr'', StringV '':9385''), (''socket'', StringV defaultSocketPath), (''egress-port'', IntV 5555)]"

definition net_Listen :: "string \<Rightarrow> ((string \<Rightarrow> bool) \<times> 'c, unit) io" where
  "net_Listen path w =
     (if fst w path then (Inl (LibErr ''bind: address already in use''), w) else (Inr (), ((fst w)(path := True), snd w)))"

text \<open>The values that the flags are stored in.\<close>

definition config_of :: "flags \<Rightarrow> ponad_config" where
  "config_of fs =
     \<lparr>pc_metricsAddr = flag_string fs ''metrics-addr'', pc_healthAddr = flag_string fs ''health-addr'',
      pc_socketPath = flag_string fs ''socket'', pc_egressPort = flag_int fs ''egress-port''\<rparr>"

text \<open>Options that are not given have the zero value: metrics without TLS and without a filter.\<close>

definition ponad_options :: "ponad_config \<Rightarrow> manager_options" where
  "ponad_options config =
     \<lparr>op_Metrics = \<lparr>mo_BindAddress = pc_metricsAddr config, mo_SecureServing = False, mo_TLSOpts = [], mo_FilterProvider = None\<rparr>,
      op_WebhookTLSOpts = [], op_HealthProbeBindAddress = pc_healthAddr config, op_LeaderElection = False, op_LeaderElectionID = [],
      op_GracefulShutdownTimeout = Some gracefulTimeout\<rparr>"

definition setupManager :: "('w, 'm) ctrl \<Rightarrow> ponad_config \<Rightarrow> ('w, 'm) io" where
  "setupManager ct config =
     bind_io (ct_NewManager ct (ponad_options config)) (\<lambda>mgr.
     bind_io (ct_AddHealthzCheck ct mgr ''ping'') (\<lambda>_.
     bind_io (ct_AddReadyzCheck ct mgr ''ping'') (\<lambda>_.
     ret mgr)))"

definition startPonad :: "((string \<Rightarrow> bool) \<times> 'c, 'm) ctrl \<Rightarrow> ponad_config \<Rightarrow> 'm \<Rightarrow> ((string \<Rightarrow> bool) \<times> 'c, unit) io" where
  "startPonad ct config mgr =
     bind_io (net_Listen (pc_socketPath config)) (\<lambda>_.
     bind_io (ct_Add ct mgr (NewServer (pc_egressPort config))) (\<lambda>_.
     ct_Start ct mgr))"

definition ponad_process ::
  "((string \<Rightarrow> bool) \<times> 'c, 'm) ctrl \<Rightarrow> string list \<Rightarrow> (string \<Rightarrow> bool) \<times> 'c \<Rightarrow> int \<times> (string \<Rightarrow> bool) \<times> 'c" where
  "ponad_process ct args w =
     (case parse_flags ponad_flags args of
        Inl st \<Rightarrow> (st, w)
      | Inr fs \<Rightarrow>
          let config = config_of fs in
          exit_status (bind_io (setupManager ct config) (startPonad ct config)) w)"

section \<open>Lemmas\<close>

text \<open>The name of the flag that an argument sets, if it is a flag.\<close>

definition flag_name :: "string \<Rightarrow> string" where
  "flag_name s = (if length s < 2 then [] else fst (split_flag (drop (if s ! 1 = CHR ''-'' then 2 else 1) s)))"

text \<open>A flag that no argument names keeps its value.\<close>

lemma parse_flags_keeps:
  assumes "parse_flags fs args = Inr fs'" "\<And>s. s \<in> set args \<Longrightarrow> flag_name s \<noteq> n"
  shows "map_of fs' n = map_of fs n"
  using assms
proof (induction fs args rule: parse_flags.induct)
  case (2 fs s args)
  let ?body = "drop (if s ! 1 = CHR ''-'' then 2 else 1) s"
  show ?case
  proof (cases "length s < 2 \<or> hd s \<noteq> CHR ''-'' \<or> s = ''--''")
    case True
    with 2 show ?thesis by (auto simp: parse_flags.simps(2))
  next
    case False
    obtain name val where sp: "split_flag ?body = (name, val)" by force
    from 2(2) False sp obtain old v rest x where o: "map_of fs name = Some old" "flag_text val old args = Some (v, rest)" "set_flag old v = Some x"
      and r: "parse_flags (update_flag name x fs) rest = Inr fs'" and b: "\<not> (hd ?body = CHR ''-'' \<or> hd ?body = CHR ''='')"
      unfolding parse_flags.simps(2) Let_def by (auto split: if_split_asm option.split_asm)
    have "set rest \<subseteq> set args" using o(2) by (auto simp: flag_text_def split: option.split_asm flag_value.split_asm list.split_asm)
    with 2(3) have "map_of fs' n = map_of (update_flag name x fs) n"
      by (intro 2(1)[OF False refl sp[symmetric] refl b o(1) o(2) refl o(3) r]) auto
    moreover from 2(3)[of s] False sp have "name \<noteq> n" by (auto simp: flag_name_def)
    ultimately show ?thesis by (simp add: map_of_update_flag)
  qed
qed simp

text \<open>The flags of the three programs, given a port and an image.\<close>

lemmas flag_defs = nat_gateway_flags_def egress_controller_flags_def ponad_flags_def

lemma port_flag:
  assumes "- (2 ^ 63) \<le> port" "port < 2 ^ 63"
  shows "map_of F ''fou-port'' = Some (IntV old) \<Longrightarrow>
      parse_flags F ((''--fou-port='' @ Itoa port) # args) = parse_flags (update_flag ''fou-port'' (IntV port) F) args"
    "map_of F ''egress-port'' = Some (IntV old) \<Longrightarrow>
      parse_flags F ((''--egress-port='' @ Itoa port) # args) = parse_flags (update_flag ''egress-port'' (IntV port) F) args"
  using parse_flags_eq[of "''fou-port''" F "IntV old" "Itoa port" "IntV port" args]
    parse_flags_eq[of "''egress-port''" F "IntV old" "Itoa port" "IntV port" args] ParseInt_Itoa[OF assms]
  by simp_all

lemma controller_args:
  assumes "- (2 ^ 63) \<le> port" "port < 2 ^ 63"
  obtains fc where "parse_flags egress_controller_flags [''--fou-port='' @ Itoa port, ''--natgateway-image='' @ img] = Inr fc"
    "flag_int fc ''fou-port'' = port" "flag_string fc ''natgateway-image'' = img"
proof
  let ?F = "update_flag ''fou-port'' (IntV port) egress_controller_flags"
  show "parse_flags egress_controller_flags [''--fou-port='' @ Itoa port, ''--natgateway-image='' @ img] = Inr (update_flag ''natgateway-image'' (StringV img) ?F)"
    using parse_flags_eq[of "''natgateway-image''" ?F "StringV []" img "StringV img" "[]"]
      port_flag(1)[OF assms, of egress_controller_flags 5555 "[''--natgateway-image='' @ img]"]
    by (simp add: map_of_update_flag flag_defs)
  show "flag_int (update_flag ''natgateway-image'' (StringV img) ?F) ''fou-port'' = port"
    "flag_string (update_flag ''natgateway-image'' (StringV img) ?F) ''natgateway-image'' = img"
    by (simp_all add: flag_int_def flag_string_def map_of_update_flag flag_defs)
qed

lemma new_reconciler_port:
  assumes "new_reconciler \<lparr>cc_FoUPort = port, cc_NatGatewayImage = img\<rparr> = Inr r"
  shows "er_DefaultImage r = img" "er_Port r = sint (word_of_int port :: 32 word)" "er_Port r = port \<longleftrightarrow> - (2 ^ 31) \<le> port \<and> port < 2 ^ 31"
proof -
  show "er_DefaultImage r = img" and r: "er_Port r = sint (word_of_int port :: 32 word)"
    using assms by (auto simp: new_reconciler_def check_flags_def split: if_split_asm)
  show "er_Port r = port \<longleftrightarrow> - (2 ^ 31) \<le> port \<and> port < 2 ^ 31"
    by (simp add: r signed_of_int signed_take_bit_int_eq_self_iff)
qed

text \<open>What the daemon and the controller have registered when they end without an error.\<close>

lemma ponad_process_Inr:
  assumes "parse_flags ponad_flags args = Inr fs" "ponad_process ct args w = (0, w')"
  obtains mgr w1 w2 u v where "ct_Add ct mgr (NewServer (flag_int fs ''egress-port'')) w1 = (Inr u, w2)" "ct_Start ct mgr w2 = (Inr v, w')"
  using assms unfolding ponad_process_def startPonad_def exit_status_def
  by (auto simp: bind_io_Inr Let_def config_of_def split: prod.split_asm sum.split_asm)

lemma egress_controller_process_Inr:
  assumes "parse_flags egress_controller_flags args = Inr fs" "egress_controller_process ct args w = (0, w')"
  obtains r mgr w1 w2 u where
    "new_reconciler \<lparr>cc_FoUPort = flag_int fs ''fou-port'', cc_NatGatewayImage = flag_string fs ''natgateway-image''\<rparr> = Inr r"
    "EgressReconciler_SetupWithManager ct r mgr w1 = (Inr u, w2)"
  using assms unfolding egress_controller_process_def exit_status_def
  by (auto simp: bind_io_Inr split: prod.split_asm sum.split_asm)

text \<open>The gateway listens on its port, as far as 16 bits reach, when its start-up was not done before.\<close>

definition listens :: "kern \<Rightarrow> family \<Rightarrow> int \<Rightarrow> bool" where
  "listens K f port \<longleftrightarrow> (\<exists>x\<in>k_fous K. fou_Family x = f \<and> fou_EncapType x = FOU_ENCAP_DIRECT \<and> fou_Port x = port)"

lemma fou_wire_listener: "fou_Port (fou_wire (fou_listener t f)) = fc_port t mod 2 ^ 16" "fou_Family (fou_wire (fou_listener t f)) = f"
  "fou_EncapType (fou_wire (fou_listener t f)) = FOU_ENCAP_DIRECT"
  by (cases f; simp add: fou_wire_def fou_listener_def unsigned_of_int take_bit_eq_mod)+

lemma gateway_ready_fous [simp]: "k_fous (gateway_ready c K) = k_fous K"
  by (simp add: gateway_ready_def gateway_ready_family_def set_chain_def split: option.splits)

lemma nat_gateway_main_listens:
  assumes "host_laws h good view" "good k" "k_links (view k) fouDummy = None" "nat_gateway_main h env port k = (Inr p, k')"
  shows "(fc_local4 (gp_fou p) \<noteq> None \<longrightarrow> listens (view k') FAMILY_V4 (port mod 2 ^ 16)) \<and>
    (fc_local6 (gp_fou p) \<noteq> None \<longrightarrow> listens (view k') FAMILY_V6 (port mod 2 ^ 16))"
  using assms(4)
proof (rule nat_gateway_main_inv)
  fix ipv4 ipv6 k1
  assume n: "NewFoUTunnelController port ipv4 ipv6 = Inr (gp_fou p)" and fi: "fou_Init h (gp_fou p) k = (Inr (), k1)"
    and gi: "gateway_Init h (gp_gateway p) k1 = (Inr (), k')"
  have dummy: "k_fous K' = k_fous K" if "spec_LinkAdd l l' K K'" for l l' K K'
    using that by (auto simp: spec_LinkAdd_def fallbacks_appear_def)
  from host_laws.fou_Init_returns[OF assms(1,2) fi] assms(3) obtain l where k1: "good k1" "k_fous (view k1) = k_fous (fou_ready (gp_fou p) (view k))"
    using dummy by auto
  from host_laws.gateway_Init_returns[OF assms(1) k1(1) gi] dummy have "k_fous (view k') = k_fous (view k1)" by (auto split: if_split_asm)
  with k1 have "k_fous (view k') = k_fous (fou_ready (gp_fou p) (view k))" by simp
  with fou_ready_prepared[of "gp_fou p" "view k"] fou_wire_listener[of "gp_fou p"] NewFoU_fields[OF n] show ?thesis
    unfolding tunnel_prepared_def listens_def by metis
qed

text \<open>The calls before \<open>Start\<close> only tell the manager what to do later: the namespace, or the files, stay as they are.\<close>

locale quiet_manager =
  fixes ct :: "('k \<times> 'c, 'm) ctrl"
  assumes NewManager: "ct_NewManager ct opt w = (r, w') \<Longrightarrow> fst w' = fst w"
    and Complete: "ct_Complete ct mgr spec reg w = (q, w') \<Longrightarrow> fst w' = fst w"
    and AddHealthzCheck: "ct_AddHealthzCheck ct mgr name w = (q, w') \<Longrightarrow> fst w' = fst w"
    and AddReadyzCheck: "ct_AddReadyzCheck ct mgr name w = (q, w') \<Longrightarrow> fst w' = fst w"
begin

lemma serve_manager_Inr:
  assumes "serve_manager ct mgr w = (Inr u, w')"
  obtains w1 where "fst w1 = fst w" "ct_Start ct mgr w1 = (Inr u, w')"
  using assms unfolding serve_manager_def bind_io_Inr by (metis AddHealthzCheck AddReadyzCheck)

lemma nat_gateway_process_Inr:
  assumes "parse_flags nat_gateway_flags args = Inr fs" "nat_gateway_process ct h env args w = (0, w')"
  obtains mgr p w1 u where "nat_gateway_main h env (flag_int fs ''fou-port'') (fst w) = (Inr p, fst w1)" "ct_Start ct mgr w1 = (Inr u, w')"
proof -
  from assms obtain u mgr wa p wb x wc where n: "ct_NewManager ct (main_options fs) w = (Inr mgr, wa)"
    and m: "in_ns (nat_gateway_main h env (flag_int fs ''fou-port'')) wa = (Inr p, wb)"
    and s: "PodWatcher_SetupWithManager ct (gp_watcher p) mgr wb = (Inr x, wc)" "serve_manager ct mgr wc = (Inr u, w')"
    unfolding nat_gateway_process_def exit_status_def
    by (auto simp: bind_io_Inr split: prod.split_asm sum.split_asm)
  from s(2) obtain w1 where w1: "fst w1 = fst wc" "ct_Start ct mgr w1 = (Inr u, w')" by (rule serve_manager_Inr)
  from m have "nat_gateway_main h env (flag_int fs ''fou-port'') (fst wa) = (Inr p, fst wb)"
    by (auto simp: in_ns_def lift_io_eq)
  with NewManager[OF n] Complete[OF s(1)[unfolded PodWatcher_SetupWithManager_def]] w1 show thesis by (intro that) auto
qed

lemma setupManager_quiet: "setupManager ct config w = (r, w') \<Longrightarrow> fst w' = fst w"
  unfolding setupManager_def
  by (elim bind_io_state) (auto dest!: NewManager AddHealthzCheck AddReadyzCheck)

end

text \<open>What becomes of the port in each of the three programs.\<close>

lemma gateway_port:
  assumes "- (2 ^ 63) \<le> port" "port < 2 ^ 63" "host_laws h good view" "quiet_manager gct" "good (fst wg)" "k_links (view (fst wg)) fouDummy = None"
    and run: "nat_gateway_process gct h env [''--fou-port='' @ Itoa port] wg = (0, wg')"
  shows "\<exists>mgr p w1 u. nat_gateway_main h env port (fst wg) = (Inr p, fst w1) \<and> ct_Start gct mgr w1 = (Inr u, wg') \<and>
      (fc_local4 (gp_fou p) \<noteq> None \<longrightarrow> listens (view (fst w1)) FAMILY_V4 (port mod 2 ^ 16)) \<and>
      (fc_local6 (gp_fou p) \<noteq> None \<longrightarrow> listens (view (fst w1)) FAMILY_V6 (port mod 2 ^ 16))"
proof -
  let ?fg = "update_flag ''fou-port'' (IntV port) nat_gateway_flags"
  have parse: "parse_flags nat_gateway_flags [''--fou-port='' @ Itoa port] = Inr ?fg" "flag_int ?fg ''fou-port'' = port"
    using port_flag(1)[OF assms(1,2), of nat_gateway_flags 5555 "[]"] by (simp_all add: flag_int_def map_of_update_flag flag_defs)
  from quiet_manager.nat_gateway_process_Inr[OF assms(4) parse(1) run, unfolded parse(2)] obtain mgr p w1 u where
    m: "nat_gateway_main h env port (fst wg) = (Inr p, fst w1)" and s: "ct_Start gct mgr w1 = (Inr u, wg')" .
  show ?thesis
    by (rule exI[of _ mgr], rule exI[of _ p], rule exI[of _ w1], rule exI[of _ u], intro conjI m s nat_gateway_main_listens[OF assms(3,5,6) m, THEN conjunct1]
        nat_gateway_main_listens[OF assms(3,5,6) m, THEN conjunct2])
qed

lemma daemon_port:
  assumes "- (2 ^ 63) \<le> port" "port < 2 ^ 63" and run: "ponad_process pct [''--egress-port='' @ Itoa port] wp = (0, wp')"
  shows "\<exists>mgr s w1 w2 u v. ct_Add pct mgr s w1 = (Inr u, w2) \<and> ct_Start pct mgr w2 = (Inr v, wp') \<and>
      (\<forall>l4 l6 ft n a loc. NewFoUTunnelController (sv_egressPort s) l4 l6 = Inr ft \<longrightarrow>
         uint (to_EncapDport (opts (peer_link ft n a loc))) = port mod 2 ^ 16)"
proof -
  let ?fp = "update_flag ''egress-port'' (IntV port) ponad_flags"
  have parse: "parse_flags ponad_flags [''--egress-port='' @ Itoa port] = Inr ?fp" "flag_int ?fp ''egress-port'' = port"
    using port_flag(2)[OF assms(1,2), of ponad_flags 5555 "[]"] by (simp_all add: flag_int_def map_of_update_flag flag_defs)
  from ponad_process_Inr[OF parse(1) run, unfolded parse(2)] obtain mgr w1 w2 u v where
    a: "ct_Add pct mgr (NewServer port) w1 = (Inr u, w2)" "ct_Start pct mgr w2 = (Inr v, wp')" .
  have "uint (to_EncapDport (opts (peer_link ft n a loc))) = port mod 2 ^ 16"
    if "NewFoUTunnelController (sv_egressPort (NewServer port)) l4 l6 = Inr ft" for l4 l6 ft n a loc
    using NewFoU_fields[OF that] by (simp add: peer_link_def NewServer_def unsigned_of_int take_bit_eq_mod)
  with a show ?thesis by blast
qed

lemma controller_port:
  assumes "- (2 ^ 63) \<le> port" "port < 2 ^ 63"
    and run: "egress_controller_process cct [''--fou-port='' @ Itoa port, ''--natgateway-image='' @ img] wc = (0, wc')"
  shows "\<exists>mgr r w1 w2 u. EgressReconciler_SetupWithManager cct r mgr w1 = (Inr u, w2) \<and> er_DefaultImage r = img \<and>
      er_Port r = sint (word_of_int port :: 32 word) \<and> (er_Port r = port \<longleftrightarrow> - (2 ^ 31) \<le> port \<and> port < 2 ^ 31) \<and>
      (\<forall>setref eg svc svc'. mutate_service r setref eg svc = Inr svc' \<longrightarrow> om_DeletionTimestamp (svc_Meta svc) = None \<longrightarrow>
         map sp_TargetPort (svc_Ports svc') = [IntVal (er_Port r)])"
proof -
  from controller_args[OF assms(1,2), of img] obtain fc where
    fc: "parse_flags egress_controller_flags [''--fou-port='' @ Itoa port, ''--natgateway-image='' @ img] = Inr fc"
      "flag_int fc ''fou-port'' = port" "flag_string fc ''natgateway-image'' = img" .
  from egress_controller_process_Inr[OF fc(1) run, unfolded fc(2,3)] obtain r mgr w1 w2 u where
    r: "new_reconciler \<lparr>cc_FoUPort = port, cc_NatGatewayImage = img\<rparr> = Inr r" and s: "EgressReconciler_SetupWithManager cct r mgr w1 = (Inr u, w2)" .
  have "map sp_TargetPort (svc_Ports svc') = [IntVal (er_Port r)]"
    if "mutate_service r setref eg svc = Inr svc'" "om_DeletionTimestamp (svc_Meta svc) = None" for setref eg svc svc'
    using that by (auto simp: mutate_service_def Let_def split: if_split_asm sum.split_asm)
  with s new_reconciler_port[OF r] show ?thesis by blast
qed

text \<open>A manager that succeeds and records what it is told.\<close>

datatype manager_call = Completed controller_spec registered | Healthz string | Readyz string | Added server | Started

definition log_call :: "manager_call \<Rightarrow> ('k \<times> manager_call list, unit) io" where
  "log_call c w = (Inr (), (fst w, snd w @ [c]))"

definition log_manager :: "('k \<times> manager_call list, unit) ctrl" where
  "log_manager =
     \<lparr>ct_NewManager = (\<lambda>_ w. (Inr (), w)), ct_Complete = (\<lambda>_ spec reg. log_call (Completed spec reg)),
      ct_AddHealthzCheck = (\<lambda>_ n. log_call (Healthz n)), ct_AddReadyzCheck = (\<lambda>_ n. log_call (Readyz n)),
      ct_Add = (\<lambda>_ s. log_call (Added s)), ct_Start = (\<lambda>_. log_call Started)\<rparr>"

interpretation log_mgr: quiet_manager log_manager
  by unfold_locales (auto simp: log_manager_def log_call_def)

section \<open>Properties\<close>

text \<open>
  C22. The gateway serves nothing before it can carry traffic. If the process ends with
  status 0, for a command line that parses and in a namespace that has no tunnels yet, the
  manager was started, and the state in
  which it was started, the first one in which the readiness check can be answered, has
  both controllers initialised on the port of the command line and the watcher in its
  initial state, for the egress named by the environment.
\<close>

theorem nat_gateway_process_ready:
  assumes "host_laws h good view" "quiet_manager ct" "good (fst w)" "\<And>a. \<not> fou_has_peer view (fst w) a"
    and "parse_flags nat_gateway_flags args = Inr fs" "nat_gateway_process ct h env args w = (0, w')"
  shows "\<exists>mgr p w1 u. ct_Start ct mgr w1 = (Inr u, w') \<and> gateway_started h good view env (flag_int fs ''fou-port'') p (fst w1)"
  using assms(2,5,6)
proof (rule quiet_manager.nat_gateway_process_Inr)
  fix mgr p w1 u
  assume "nat_gateway_main h env (flag_int fs ''fou-port'') (fst w) = (Inr p, fst w1)" "ct_Start ct mgr w1 = (Inr u, w')"
  with nat_gateway_main_started[OF assms(1,3,4)] show ?thesis by blast
qed

theorem nat_gateway_process_ready_witness:
  "\<exists>w'. nat_gateway_process log_manager sim_host demo_getenv [''--fou-port'', ''6666'', ''-leader-elect''] (sim_empty, []) = (0, w') \<and>
     (\<exists>p w1 u. log_call Started w1 = (Inr u, w') \<and> gateway_started sim_host sim_good sim_view demo_getenv 6666 p (fst w1))"
proof -
  let ?args = "[''--fou-port'', ''6666'', ''-leader-elect'']"
  have "fst (nat_gateway_process log_manager sim_host demo_getenv ?args (sim_empty, [])) = 0" by code_simp
  note r = run_pair[OF this]
  have f: "parse_flags nat_gateway_flags ?args =
    Inr (update_flag ''leader-elect'' (BoolV True) (update_flag ''fou-port'' (IntV 6666) nat_gateway_flags))" by code_simp
  have p: "flag_int (update_flag ''leader-elect'' (BoolV True) (update_flag ''fou-port'' (IntV 6666) nat_gateway_flags)) ''fou-port'' = 6666" by code_simp
  have "\<not> fou_has_peer sim_view (fst (sim_empty, [] :: manager_call list)) a" for a
    by (simp add: fou_has_peer_def sim_view_def sim_empty_def sim_find_def)
  then obtain mgr p w1 u where "ct_Start log_manager mgr w1 =
      (Inr u, snd (nat_gateway_process log_manager sim_host demo_getenv ?args (sim_empty, [])))"
    "gateway_started sim_host sim_good sim_view demo_getenv 6666 p (fst w1)"
    using nat_gateway_process_ready[OF sim_kernel.host_laws_axioms log_mgr.quiet_manager_axioms _ _ f r] sim_good_empty unfolding p by auto
  moreover have "ct_Start log_manager mgr = log_call Started" by (simp add: log_manager_def)
  ultimately show ?thesis using r by metis
qed

text \<open>
  C23. What the three daemons serve. For every command line that the egress controller or
  the gateway accepts, the servers for metrics and webhooks offer \<open>http/1.1\<close> alone unless
  an argument names \<open>enable-http2\<close>; there is no metrics server unless an argument names
  \<open>metrics-bind-address\<close>; it uses TLS unless an argument names \<open>metrics-secure\<close>, and
  whenever it does, authentication and authorisation. The node daemon has none of this: for
  every command line it accepts, its metrics are served without TLS and to everyone, on
  \<open>:9384\<close> unless an argument names \<open>metrics-addr\<close>.
\<close>

theorem metrics_servers:
  assumes "F \<in> {nat_gateway_flags, egress_controller_flags}" "parse_flags F args = Inr fs" "parse_flags ponad_flags pargs = Inr pfs"
  shows "((\<forall>s\<in>set args. flag_name s \<noteq> ''enable-http2'') \<longrightarrow>
      tc_NextProtos (fold (\<lambda>f. f) (mo_TLSOpts (op_Metrics (main_options fs))) c) = [''http/1.1''] \<and>
      tc_NextProtos (fold (\<lambda>f. f) (op_WebhookTLSOpts (main_options fs)) c) = [''http/1.1'']) \<and>
    ((\<forall>s\<in>set args. flag_name s \<noteq> ''metrics-bind-address'') \<longrightarrow> mo_BindAddress (op_Metrics (main_options fs)) = ''0'') \<and>
    ((\<forall>s\<in>set args. flag_name s \<noteq> ''metrics-secure'') \<longrightarrow> mo_SecureServing (op_Metrics (main_options fs))) \<and>
    (mo_SecureServing (op_Metrics (main_options fs)) \<longleftrightarrow>
       mo_FilterProvider (op_Metrics (main_options fs)) = Some WithAuthenticationAndAuthorization) \<and>
    \<not> mo_SecureServing (op_Metrics (ponad_options (config_of pfs))) \<and> mo_FilterProvider (op_Metrics (ponad_options (config_of pfs))) = None \<and>
    ((\<forall>s\<in>set pargs. flag_name s \<noteq> ''metrics-addr'') \<longrightarrow> mo_BindAddress (op_Metrics (ponad_options (config_of pfs))) = '':9384'')"
proof -
  have d: "map_of F ''enable-http2'' = Some (BoolV False)" "map_of F ''metrics-secure'' = Some (BoolV True)"
    "map_of F ''metrics-bind-address'' = Some (StringV ''0'')" "map_of ponad_flags ''metrics-addr'' = Some (StringV '':9384'')"
    using assms(1) by (auto simp: flag_defs)
  note keeps = parse_flags_keeps[OF assms(2)]
  have h: "\<not> flag_bool fs ''enable-http2''" if "\<forall>s\<in>set args. flag_name s \<noteq> ''enable-http2''"
    using keeps[of "''enable-http2''"] that d by (auto simp: flag_bool_def)
  have m: "flag_bool fs ''metrics-secure''" if "\<forall>s\<in>set args. flag_name s \<noteq> ''metrics-secure''"
    using keeps[of "''metrics-secure''"] that d by (auto simp: flag_bool_def)
  have b: "flag_string fs ''metrics-bind-address'' = ''0''" if "\<forall>s\<in>set args. flag_name s \<noteq> ''metrics-bind-address''"
    using keeps[of "''metrics-bind-address''"] that d by (auto simp: flag_string_def)
  have p: "flag_string pfs ''metrics-addr'' = '':9384''" if "\<forall>s\<in>set pargs. flag_name s \<noteq> ''metrics-addr''"
    using parse_flags_keeps[OF assms(3), of "''metrics-addr''"] that d by (auto simp: flag_string_def)
  show ?thesis using h m b p
    by (auto simp: main_options_def metricsServerOptions_def Let_def tlsOpts_def disableHTTP2_def ponad_options_def config_of_def)
qed

theorem metrics_servers_witness:
  "\<exists>fs pfs. parse_flags egress_controller_flags [''--leader-elect'', ''--natgateway-image=nat-gateway:dev''] = Inr fs \<and>
     mo_FilterProvider (op_Metrics (main_options fs)) = Some WithAuthenticationAndAuthorization \<and>
     tc_NextProtos (fold (\<lambda>f. f) (mo_TLSOpts (op_Metrics (main_options fs))) \<lparr>tc_NextProtos = [''h2'']\<rparr>) = [''http/1.1''] \<and>
     parse_flags ponad_flags [''-egress-port'', ''6666''] = Inr pfs \<and> mo_BindAddress (op_Metrics (ponad_options (config_of pfs))) = '':9384'' \<and>
     mo_FilterProvider (op_Metrics (ponad_options (config_of pfs))) = None"
proof -
  let ?args = "[''--leader-elect'', ''--natgateway-image=nat-gateway:dev'']" and ?pargs = "[''-egress-port'', ''6666'']"
  have "\<not> isl (parse_flags egress_controller_flags ?args)" "\<not> isl (parse_flags ponad_flags ?pargs)" by code_simp+
  then obtain fs pfs where f: "parse_flags egress_controller_flags ?args = Inr fs" "parse_flags ponad_flags ?pargs = Inr pfs"
    by (metis isl_def sum.exhaust)
  have "\<forall>s\<in>set ?args. flag_name s \<noteq> ''enable-http2''" "\<forall>s\<in>set ?args. flag_name s \<noteq> ''metrics-secure''"
    "\<forall>s\<in>set ?pargs. flag_name s \<noteq> ''metrics-addr''" by code_simp+
  with metrics_servers[OF _ f] f show ?thesis by auto
qed

text \<open>
  C24. A port number written in decimal on the three command lines reaches what it is for,
  for every number of 64 bits and every run that ends without an error. The gateway is
  started with it, and, unless its namespace was set up before, the kernel listens on its low
  16 bits for every family of the gateway's addresses when the manager starts. The daemon
  adds a server with it to its manager before it starts it, and the tunnels of the server
  send to its low 16 bits. The controller registers a reconciler with its low 32 bits
  as a signed number, which is the number itself only if 32 bits can hold it, and
  with the image as it is written; the services that it makes forward to that port.
\<close>

theorem port_flags_arrive:
  assumes "- (2 ^ 63) \<le> port" "port < 2 ^ 63"
    and "host_laws h good view" "quiet_manager gct" "good (fst wg)" "k_links (view (fst wg)) fouDummy = None"
    and "nat_gateway_process gct h env [''--fou-port='' @ Itoa port] wg = (0, wg')"
    and "ponad_process pct [''--egress-port='' @ Itoa port] wp = (0, wp')"
    and "egress_controller_process cct [''--fou-port='' @ Itoa port, ''--natgateway-image='' @ img] wc = (0, wc')"
  shows "(\<exists>mgr p w1 u. nat_gateway_main h env port (fst wg) = (Inr p, fst w1) \<and> ct_Start gct mgr w1 = (Inr u, wg') \<and>
      (fc_local4 (gp_fou p) \<noteq> None \<longrightarrow> listens (view (fst w1)) FAMILY_V4 (port mod 2 ^ 16)) \<and>
      (fc_local6 (gp_fou p) \<noteq> None \<longrightarrow> listens (view (fst w1)) FAMILY_V6 (port mod 2 ^ 16))) \<and>
    (\<exists>mgr s w1 w2 u v. ct_Add pct mgr s w1 = (Inr u, w2) \<and> ct_Start pct mgr w2 = (Inr v, wp') \<and>
      (\<forall>l4 l6 ft n a loc. NewFoUTunnelController (sv_egressPort s) l4 l6 = Inr ft \<longrightarrow>
         uint (to_EncapDport (opts (peer_link ft n a loc))) = port mod 2 ^ 16)) \<and>
    (\<exists>mgr r w1 w2 u. EgressReconciler_SetupWithManager cct r mgr w1 = (Inr u, w2) \<and> er_DefaultImage r = img \<and>
      er_Port r = sint (word_of_int port :: 32 word) \<and> (er_Port r = port \<longleftrightarrow> - (2 ^ 31) \<le> port \<and> port < 2 ^ 31) \<and>
      (\<forall>setref eg svc svc'. mutate_service r setref eg svc = Inr svc' \<longrightarrow> om_DeletionTimestamp (svc_Meta svc) = None \<longrightarrow>
         map sp_TargetPort (svc_Ports svc') = [IntVal (er_Port r)]))"
  by (rule conjI[OF gateway_port[OF assms(1-7)] conjI[OF daemon_port[OF assms(1,2,8)] controller_port[OF assms(1,2,9)]]])

theorem port_flags_arrive_witness:
  "\<exists>p w'. nat_gateway_process log_manager sim_host demo_getenv [''--fou-port=6666''] (sim_empty, []) = (0, w') \<and>
     fst (ponad_process log_manager [''--egress-port=6666''] (\<lambda>_. False, [])) = 0 \<and>
     fst (egress_controller_process log_manager [''--fou-port=6666'', ''--natgateway-image=img''] ((), [])) = 0 \<and>
     fst (nat_gateway_main sim_host demo_getenv 6666 sim_empty) = Inr p \<and> fc_local4 (gp_fou p) \<noteq> None \<and> listens (sim_view (fst w')) FAMILY_V4 6666"
proof -
  have "Itoa 6666 = ''6666''" by code_simp
  then have a: "''--fou-port='' @ Itoa 6666 = ''--fou-port=6666''" "''--egress-port='' @ Itoa 6666 = ''--egress-port=6666''"
    "''--natgateway-image='' @ ''img'' = ''--natgateway-image=img''" by simp_all
  have g: "fst (nat_gateway_process log_manager sim_host demo_getenv [''--fou-port=6666''] (sim_empty, [])) = 0" by code_simp
  have d: "fst (ponad_process log_manager [''--egress-port=6666''] (\<lambda>_. False, [])) = 0" by code_simp
  have c: "fst (egress_controller_process log_manager [''--fou-port=6666'', ''--natgateway-image=img''] ((), [])) = 0" by code_simp
  have l: "case fst (nat_gateway_main sim_host demo_getenv 6666 sim_empty) of Inr p \<Rightarrow> fc_local4 (gp_fou p) \<noteq> None | Inl _ \<Rightarrow> False" by code_simp
  have e: "k_links (sim_view sim_empty) fouDummy = None" by (simp add: sim_view_def sim_empty_def sim_find_def)
  have st: "ct_Start log_manager mgr = log_call Started" for mgr by (simp add: log_manager_def)
  let ?w' = "snd (nat_gateway_process log_manager sim_host demo_getenv [''--fou-port=6666''] (sim_empty, []))"
  have "\<exists>mgr p w1 u. nat_gateway_main sim_host demo_getenv 6666 sim_empty = (Inr p, fst w1) \<and> ct_Start log_manager mgr w1 = (Inr u, ?w') \<and>
      (fc_local4 (gp_fou p) \<noteq> None \<longrightarrow> listens (sim_view (fst w1)) FAMILY_V4 6666)"
    using port_flags_arrive[where port = 6666 and img = "''img''", unfolded a, OF _ _ sim_kernel.host_laws_axioms log_mgr.quiet_manager_axioms _ _
        run_pair[OF g] run_pair[OF d] run_pair[OF c]] sim_good_empty e by auto
  then obtain p w1 u where w1: "nat_gateway_main sim_host demo_getenv 6666 sim_empty = (Inr p, fst w1)" "log_call Started w1 = (Inr u, ?w')"
    "fc_local4 (gp_fou p) \<noteq> None \<longrightarrow> listens (sim_view (fst w1)) FAMILY_V4 6666" unfolding st by blast
  from w1(2) have "?w' = (fst w1, snd w1 @ [Started])" unfolding log_call_def by simp
  then have "fst ?w' = fst w1" by (simp only: fst_conv)
  with w1(1,3) run_pair[OF g] d c l show ?thesis by (intro exI[of _ p] exI[of _ ?w']) auto
qed

text \<open>
  C25. The port of the controller's command line does not reach the gateways. The pods
  that the controller makes run the gateway without arguments, unless the egress brings
  its own, and then it listens on port 5555; the service forwards to the controller's
  port. With any other \<open>--fou-port\<close> for the controller the two do not meet. On the same
  defaults the readiness probe finds the gateway, and the declared metrics port is
  not served.
\<close>

theorem gateway_port_not_passed:
  assumes "parse_flags egress_controller_flags [''--fou-port='' @ Itoa port, ''--natgateway-image='' @ img] = Inr fc"
    and "new_reconciler \<lparr>cc_FoUPort = flag_int fc ''fou-port'', cc_NatGatewayImage = flag_string fc ''natgateway-image''\<rparr> = Inr r"
    and "0 \<le> port" "port < 2 ^ 16"
    and "mutate_service r setref eg svc = Inr svc'" "om_DeletionTimestamp (svc_Meta svc) = None"
    and "parse_flags nat_gateway_flags [] = Inr fg" "NewFoUTunnelController (flag_int fg ''fou-port'') l4 l6 = Inr gt"
  shows "map sp_TargetPort (svc_Ports svc') = [IntVal port] \<and> fou_Port (fou_listener gt f) = 5555 \<and>
    c_Rest (egress_container r eg c) = c_Rest c \<and>
    (\<exists>cp\<in>set (c_Ports (egress_container r eg c)). Some (StrVal (cp_Name cp)) = map_option hp_Port (c_ReadinessProbe (egress_container r eg c)) \<and>
       op_HealthProbeBindAddress (main_options fg) = '':'' @ Itoa (cp_Port cp)) \<and>
    (\<exists>cp\<in>set (c_Ports (egress_container r eg c)). cp_Name cp = ''metrics'') \<and> mo_BindAddress (op_Metrics (main_options fg)) = ''0''"
proof -
  from assms(3,4) have b: "- (2 ^ 63) \<le> port" "port < 2 ^ 63" "- (2 ^ 31) \<le> port" "port < 2 ^ 31" by auto
  from controller_args[OF b(1,2), of img] assms(1) have "flag_int fc ''fou-port'' = port" by auto
  with new_reconciler_port(3)[OF assms(2)] b have r: "er_Port r = port" by simp
  have s: "map sp_TargetPort (svc_Ports svc') = [IntVal port]"
    using assms(5,6) r by (auto simp: mutate_service_def Let_def split: if_split_asm sum.split_asm)
  have fg: "fg = nat_gateway_flags" using assms(7) by simp
  then have "fc_port gt = 5555" using NewFoU_fields[OF assms(8)] by (simp add: flag_int_def nat_gateway_flags_def)
  then have l: "fou_Port (fou_listener gt f) = 5555" by (cases f) (simp_all add: fou_listener_def)
  have "Itoa 8081 = ''8081''" by code_simp
  with s l show ?thesis
    by (simp add: egress_container_def main_options_def metricsServerOptions_def Let_def fg flag_string_def nat_gateway_flags_def)
qed

theorem gateway_port_not_passed_witness:
  "\<exists>fc r svc' gt. parse_flags egress_controller_flags [''--fou-port=6666'', ''--natgateway-image=img''] = Inr fc \<and>
     new_reconciler \<lparr>cc_FoUPort = flag_int fc ''fou-port'', cc_NatGatewayImage = flag_string fc ''natgateway-image''\<rparr> = Inr r \<and>
     mutate_service r (\<lambda>_ m. Inr m) (demo_egress []) (blank_service demo_key) = Inr svc' \<and> map sp_TargetPort (svc_Ports svc') = [IntVal 6666] \<and>
     NewFoUTunnelController (flag_int nat_gateway_flags ''fou-port'') (Some (Addr4 1)) None = Inr gt \<and> fou_Port (fou_listener gt FAMILY_V4) = 5555"
proof -
  have i: "Itoa 6666 = ''6666''" by code_simp
  obtain fc where c: "parse_flags egress_controller_flags [''--fou-port='' @ Itoa 6666, ''--natgateway-image='' @ ''img''] = Inr fc"
    "flag_string fc ''natgateway-image'' = ''img''"
    using controller_args[of 6666 "''img''"] by auto
  obtain r where r: "new_reconciler \<lparr>cc_FoUPort = flag_int fc ''fou-port'', cc_NatGatewayImage = flag_string fc ''natgateway-image''\<rparr> = Inr r"
    by (simp add: new_reconciler_def check_flags_def c(2))
  obtain svc' where s: "mutate_service r (\<lambda>_ m. Inr m) (demo_egress []) (blank_service demo_key) = Inr svc'"
    by (auto simp: mutate_service_def own_new_def blank_service_def blank_meta_def with_labels_def Let_def)
  have d: "om_DeletionTimestamp (svc_Meta (blank_service demo_key)) = None" by (simp add: blank_service_def blank_meta_def)
  obtain gt where g: "NewFoUTunnelController (flag_int nat_gateway_flags ''fou-port'') (Some (Addr4 1)) None = Inr gt"
    by (simp add: NewFoUTunnelController_def)
  from gateway_port_not_passed[OF c(1) r _ _ s d parse_flags.simps(1) g, of FAMILY_V4] c r s g show ?thesis by (auto simp: i)
qed

text \<open>
  C26. The daemon does not clean up after itself. When the file of its socket is still
  there, which is what a killed daemon leaves behind, \<open>net.Listen\<close> fails: the process
  ends with status 1 and has not started its manager, whatever the manager would do,
  and the file stays for the next attempt.
\<close>

theorem ponad_stale_socket:
  fixes ct :: "((string \<Rightarrow> bool) \<times> 'c, 'm) ctrl"
  assumes "quiet_manager ct" "parse_flags ponad_flags args = Inr fs" "fst w (flag_string fs ''socket'')"
  shows "fst (ponad_process ct args w) = 1 \<and> fst (snd (ponad_process ct args w)) (flag_string fs ''socket'') \<and>
    ponad_process (ct\<lparr>ct_Start := start\<rparr>) args w = ponad_process ct args w"
proof -
  let ?config = "config_of fs"
  have p: "ponad_process ct' args w = exit_status (bind_io (setupManager ct' ?config) (startPonad ct' ?config)) w" for ct' :: "((string \<Rightarrow> bool) \<times> 'c, 'm) ctrl"
    by (simp add: ponad_process_def assms(2) Let_def)
  obtain q w1 where q: "setupManager ct ?config w = (q, w1)" by (cases "setupManager ct ?config w")
  have q': "setupManager (ct\<lparr>ct_Start := start\<rparr>) ?config w = (q, w1)" using q by (simp add: setupManager_def)
  from quiet_manager.setupManager_quiet[OF assms(1) q] assms(3) have s: "fst w1 (pc_socketPath ?config)" by (simp add: config_of_def)
  have f: "startPonad ct' ?config mgr w1 = (Inl (LibErr ''bind: address already in use''), w1)" for ct' :: "((string \<Rightarrow> bool) \<times> 'c, 'm) ctrl" and mgr
    by (simp add: startPonad_def net_Listen_def bind_io_def s)
  have s': "fst w1 (flag_string fs ''socket'')" using s by (simp add: config_of_def)
  show ?thesis unfolding p
    by (cases q) (simp_all add: exit_status_def bind_io_def q q' f s')
qed

theorem ponad_stale_socket_witness:
  "fst (ponad_process log_manager [] (\<lambda>p. p = ''/run/ponad.sock'', [])) = 1 \<and> fst (ponad_process log_manager [] (\<lambda>_. False, [])) = 0"
proof -
  have "flag_string ponad_flags ''socket'' = ''/run/ponad.sock''" by code_simp
  moreover have "fst (ponad_process log_manager [] (\<lambda>_. False, [])) = 0" by code_simp
  ultimately show ?thesis
    using ponad_stale_socket[OF log_mgr.quiet_manager_axioms parse_flags.simps(1), of "(\<lambda>p. p = ''/run/ponad.sock'', [])"] by simp
qed

end
