(* ===== verification/HostLive.thy ===== *)
theory HostLive
  imports HostSim Total
begin

text \<open>
  Progress. The laws of \<open>host_laws\<close> let every call fail at any time, so they give
  partial correctness only. The locale \<open>host_live\<close> adds when a call does succeed: a
  namespace in which nothing goes wrong by itself, where a call is refused only for
  a reason that its view shows. On it the operations of the sources return.
\<close>

section \<open>The interface\<close>

text \<open>
  A link that the kernel makes: its name is one a device can have, is free and is not
  that of a fallback device; and it is a dummy device, or an IPv4 tunnel that carries IPv4
  end points, whose encapsulation the kernel has loaded, and which no tunnel there is
  takes the place of. The kernel keeps one flow-based tunnel, and one for a pair of end
  points. Nothing is promised for a link of another kind, in particular not for an IPv4
  tunnel between IPv6 addresses.
\<close>

definition dev_char :: "char \<Rightarrow> bool" where
  "dev_char c \<longleftrightarrow> (33 :: nat) \<le> of_char c \<and> (of_char c :: nat) \<le> 126 \<and> c \<noteq> CHR ''/'' \<and> c \<noteq> CHR '':''"

definition dev_name :: "string \<Rightarrow> bool" where
  "dev_name n \<longleftrightarrow> n \<noteq> [] \<and> length n < 16 \<and> list_all dev_char n \<and> n \<notin> fallback_names"

definition same_tunnel :: "tunnel_opts \<Rightarrow> tunnel_opts \<Rightarrow> bool" where
  "same_tunnel t t' \<longleftrightarrow>
     (if to_FlowBased t then to_FlowBased t'
      else \<not> to_FlowBased t' \<and> to_Remote t' = to_Remote t \<and> to_Local t' = to_Local t)"

fun makeable_kind :: "link \<Rightarrow> kern \<Rightarrow> bool" where
  "makeable_kind (Dummy a) K \<longleftrightarrow> True"
| "makeable_kind (Iptun a t) K \<longleftrightarrow>
     sendable (Iptun a t) \<and> (to_FlowBased t \<or> to_Remote t \<noteq> []) \<and>
     (to_EncapType t \<noteq> FOU_ENCAP_NONE \<longrightarrow> ''fou'' \<in> k_modules K) \<and>
     (\<forall>n a' t'. k_links K n = Some (Iptun a' t') \<longrightarrow> \<not> same_tunnel t t')"
| "makeable_kind _ K \<longleftrightarrow> False"

definition makeable :: "link \<Rightarrow> kern \<Rightarrow> bool" where
  "makeable l K \<longleftrightarrow> dev_name (link_name l) \<and> k_links K (link_name l) = None \<and> makeable_kind l K"

definition present :: "link \<Rightarrow> kern \<Rightarrow> bool" where
  "present l K \<longleftrightarrow> k_links K (link_name l) = Some l"

text \<open>A listener that can be added: its module is loaded, its port is a port and has no listener yet.\<close>

definition fou_module :: "family \<Rightarrow> string" where
  "fou_module f = (case f of FAMILY_V4 \<Rightarrow> ''fou'' | FAMILY_V6 \<Rightarrow> ''fou6'')"

definition free_port :: "fou \<Rightarrow> kern \<Rightarrow> bool" where
  "free_port x K \<longleftrightarrow> 0 < fou_Port x \<and> fou_Port x < 2 ^ 16 \<and>
     (\<forall>y\<in>k_fous K. \<not> (fou_Family y = fou_Family x \<and> fou_Port y = fou_Port x))"

text \<open>
  The two rules of \<open>iptables\<close> that the sources write, with arguments that make sense: the
  checksum rule for a port, and the masquerade rule for an address of the protocol's family
  and the name of an interface.
\<close>

definition known_rule :: "family \<Rightarrow> string \<Rightarrow> string \<Rightarrow> string list \<Rightarrow> bool" where
  "known_rule f tb ch spec \<longleftrightarrow> ch = ''POSTROUTING'' \<and>
     (tb = ''mangle'' \<and>
        (\<exists>p. 0 < p \<and> p < 2 ^ 16 \<and> spec = [''-p'', ''udp'', ''--dport'', Itoa p, ''-j'', ''CHECKSUM'', ''--checksum-fill'']) \<or>
      tb = ''nat'' \<and>
        (\<exists>ip i. dev_name i \<and> (case f of FAMILY_V4 \<Rightarrow> length ip = 4 | FAMILY_V6 \<Rightarrow> length ip = 16 \<and> To4 ip = []) \<and>
           spec = [''!'', ''-s'', IPNet_String (n_IP (NewIPNet ip)) (n_Mask (NewIPNet ip)), ''-o'', i, ''-j'', ''MASQUERADE'']))"

definition known_sysctl :: "string \<Rightarrow> string \<Rightarrow> bool" where
  "known_sysctl name v \<longleftrightarrow> name \<in> {''net.ipv4.conf.default.rp_filter'', ''net.ipv4.conf.all.rp_filter''} \<and> v = ''0''"

text \<open>A route with a clean destination, through a device that is up, or a throw route, that does not collide.\<close>

definition addable :: "route \<Rightarrow> kern \<Rightarrow> bool" where
  "addable r K \<longleftrightarrow>
     (\<exists>n. rt_Dst r = Some n \<and> no_host_bits n) \<and>
     (if rt_LinkIndex r = 0 then rt_Type r = RTN_THROW
      else rt_LinkIndex r \<in> k_up K \<and> (\<exists>n l. k_links K n = Some l \<and> link_index l = rt_LinkIndex r)) \<and>
     (\<forall>q\<in>k_routes K (route_family r). \<not> (rt_Table q = rt_Table r \<and> rt_Dst q = rt_Dst r \<and>
        (rt_Priority r = 0 \<or> rt_Priority q = rt_Priority r)))"

text \<open>
  The fallback devices come with their modules: once the namespace has a device of the
  kind, no fallback device of this kind appears any more. The IPv4 one has no peer and is
  not flow-based.
\<close>

definition no_late_fallback :: "kern \<Rightarrow> kern \<Rightarrow> bool" where
  "no_late_fallback K K' \<longleftrightarrow>
     ((\<exists>n a t. k_links K n = Some (Iptun a t)) \<longrightarrow> k_links K ''tunl0'' = None \<longrightarrow> k_links K' ''tunl0'' = None) \<and>
     ((\<exists>n a t. k_links K n = Some (Ip6tnl a t)) \<longrightarrow> k_links K ''ip6tnl0'' = None \<longrightarrow> k_links K' ''ip6tnl0'' = None) \<and>
     (\<forall>n a t. n \<in> fallback_names \<longrightarrow> k_links K n = None \<longrightarrow> k_links K' n = Some (Iptun a t) \<longrightarrow> \<not> to_FlowBased t \<and> to_Remote t = [])"

locale host_live = host_laws h good view
  for h :: "'k host" and good :: "'k \<Rightarrow> bool" and view :: "'k \<Rightarrow> kern" +
  assumes live_LinkByName: "succeeds good view (\<lambda>K. k_links K n \<noteq> None) (LinkByName h n)"
    and live_missing: "good k \<Longrightarrow> k_links (view k) n = None \<Longrightarrow> fst (LinkByName h n k) = Inl LinkNotFoundError"
    and live_LinkAdd: "succeeds good view (makeable l) (LinkAdd h l)"
    and late_fallback: "good k \<Longrightarrow> link_name l \<notin> fallback_names \<Longrightarrow> LinkAdd h l k = (r, k') \<Longrightarrow> no_late_fallback (view k) (view k')"
    and live_LinkDel: "succeeds good view (present l) (LinkDel h l)"
    and live_LinkSetUp: "succeeds good view (present l) (LinkSetUp h l)"
    and live_LinkSetName: "succeeds good view (\<lambda>K. present l K \<and> k_links K n = None) (LinkSetName h l n)"
    and live_FouAdd: "succeeds good view (\<lambda>K. free_port x K \<and> fou_module (fou_Family x) \<in> k_modules K) (FouAdd h x)"
    and live_RuleAdd: "succeeds good view (\<lambda>K. rule_canon ru \<notin># k_rules K (ru_Family ru)) (RuleAdd h ru)"
    and live_RuleDel: "succeeds good view (\<lambda>K. rule_canon ru \<in># k_rules K (ru_Family ru)) (RuleDel h ru)"
    and live_RuleList: "succeeds good view (\<lambda>_. True) (RuleList h f)"
    and live_RouteAdd: "succeeds good view (addable rt) (RouteAdd h rt)"
    and live_RouteDel: "succeeds good view (\<lambda>K. rt \<in> k_routes K (route_family rt)) (RouteDel h rt)"
    and live_RouteListFiltered: "succeeds good view (\<lambda>_. True) (RouteListFiltered h f t)"
    and live_ipt_New: "succeeds good view (\<lambda>_. True) (ipt_NewWithProtocol h f)"
    and live_ipt_Insert: "known_rule f tb c spec \<Longrightarrow> succeeds good view (\<lambda>_. True) (ipt_Insert h f tb c 1 spec)"
    and live_ipt_Append: "known_rule f tb c spec \<Longrightarrow> succeeds good view (\<lambda>_. True) (ipt_Append h f tb c spec)"
    and live_Sysctl: "known_sysctl name v \<Longrightarrow> succeeds good view (\<lambda>_. True) (Sysctl h name v)"
    and live_Forward: "succeeds good view (\<lambda>_. True) (EnableIP4Forward h)" "succeeds good view (\<lambda>_. True) (EnableIP6Forward h)"
    and live_modprobe: "m \<in> {''fou'', ''fou6''} \<Longrightarrow> succeeds good view (\<lambda>_. True) (exec_modprobe h m)"
begin

text \<open>The lookup of a link, by cases.\<close>

lemma returns_lookup:
  assumes "\<And>l. link_name l = n \<Longrightarrow> returns good view (\<lambda>K. P K \<and> k_links K n = Some l) (f (Inr l)) Q"
    and "returns good view (\<lambda>K. P K \<and> k_links K n = None) (f (Inl LinkNotFoundError)) Q"
  shows "returns good view P (catch (LinkByName h n) f) Q"
  unfolding returns_def
proof (intro allI impI)
  fix k
  assume k: "good k" "P (view k)"
  show "\<exists>x k'. catch (LinkByName h n) f k = (Inr x, k') \<and> good k' \<and> Q x (view k')"
  proof (cases "k_links (view k) n = None")
    case True
    from run_pair[OF live_missing[OF k(1) True]] obtain t where t: "LinkByName h n k = (Inl LinkNotFoundError, t)" by blast
    from meets_Inl[OF LinkByName t k(1)] have "good t" "view t = view k" by (auto simp: fail_LinkByName_def)
    with k True obtain x k' where "f (Inl LinkNotFoundError) t = (Inr x, k')" "good k'" "Q x (view k')"
      using returns_run[OF assms(2), of t] by auto
    with t show ?thesis by (auto simp: catch_def)
  next
    case False
    with live_LinkByName k obtain l t where t: "LinkByName h n k = (Inr l, t)" unfolding succeeds_def by blast
    from meets_Inr[OF LinkByName t k(1)] have l: "good t" "view t = view k" "k_links (view t) n = Some l" "link_name l = n"
      by (auto simp: spec_LinkByName_def)
    with k obtain x k' where "f (Inr l) t = (Inr x, k')" "good k'" "Q x (view k')"
      using returns_run[OF assms(1)[OF l(4)], of t] by auto
    with t show ?thesis by (auto simp: catch_def)
  qed
qed

lemma returns_find:
  assumes "\<And>l. link_name l = n \<Longrightarrow> returns good view (\<lambda>K. P K \<and> k_links K n = Some l) (found l) Q"
    and "returns good view (\<lambda>K. P K \<and> k_links K n = None) (lost LinkNotFoundError) Q"
  shows "returns good view P (catch (LinkByName h n) (\<lambda>r. case r of Inl e \<Rightarrow> lost e | Inr l \<Rightarrow> found l)) Q"
  by (rule returns_lookup) (simp_all add: assms)

lemma returns_not_found:
  "returns good view P m Q \<Longrightarrow> returns good view P (if \<not> errors_As_LinkNotFound LinkNotFoundError then m' else m) Q"
  by simp

lemma returns_LinkAdd:
  assumes "\<And>K. P K \<Longrightarrow> makeable l K" "\<And>l' K K'. P K \<Longrightarrow> spec_LinkAdd l l' K K' \<Longrightarrow> no_late_fallback K K' \<Longrightarrow> Q l' K'"
  shows "returns good view P (LinkAdd h l) Q"
  unfolding returns_def
proof (intro allI impI)
  fix k
  assume k: "good k" "P (view k)"
  with live_LinkAdd assms(1) obtain x t where t: "LinkAdd h l k = (Inr x, t)" unfolding succeeds_def by blast
  have "link_name l \<notin> fallback_names" using assms(1)[OF k(2)] by (simp add: makeable_def dev_name_def)
  with late_fallback[OF k(1) _ t] meets_Inr[OF LinkAdd t k(1)] assms(2)[OF k(2)] t
  show "\<exists>x k'. LinkAdd h l k = (Inr x, k') \<and> good k' \<and> Q x (view k')" by blast
qed

lemmas returns_LinkDel = returns_call[OF live_LinkDel LinkDel]
lemmas returns_LinkSetUp = returns_call[OF live_LinkSetUp LinkSetUp]
lemmas returns_LinkSetName = returns_call[OF live_LinkSetName LinkSetName]
lemmas returns_FouAdd = returns_call[OF live_FouAdd FouAdd]
lemmas returns_RuleAdd = returns_call[OF live_RuleAdd RuleAdd]
lemmas returns_RuleDel = returns_call[OF live_RuleDel RuleDel]
lemmas returns_RuleList = returns_call[OF live_RuleList RuleList]
lemmas returns_RouteAdd = returns_call[OF live_RouteAdd RouteAdd]
lemmas returns_RouteDel = returns_call[OF live_RouteDel RouteDel]
lemmas returns_RouteListFiltered = returns_call[OF live_RouteListFiltered RouteListFiltered]
lemmas returns_ipt_New = returns_call[OF live_ipt_New ipt_New]
lemmas returns_ipt_Insert = returns_call[OF live_ipt_Insert ipt_Insert]
lemmas returns_ipt_Append = returns_call[OF live_ipt_Append ipt_Append]
lemmas returns_Sysctl = returns_call[OF live_Sysctl Sysctl]
lemmas returns_Forward = returns_call[OF live_Forward(1) EnableIP4Forward] returns_call[OF live_Forward(2) EnableIP6Forward]
lemmas returns_modprobe = returns_call[OF live_modprobe modprobe]

end

section \<open>The namespace in memory is live\<close>

lemma fou_wire_port: "0 < fou_Port x \<Longrightarrow> fou_Port x < 2 ^ 16 \<Longrightarrow> fou_wire x = x"
  by (simp add: fou_wire_def unsigned_of_int take_bit_int_eq_self)

lemma sim_present: "sim_good s \<Longrightarrow> present l (sim_view s) \<longleftrightarrow> l \<in> set (s_links s)"
  by (auto simp: present_def sim_view_def sim_good_def sim_find_member dest: sim_find_Some)

lemma sim_addable:
  assumes "sim_good s" "addable r (sim_view s)"
  shows "\<exists>x k'. sim_RouteAdd r s = (Inr x, k')"
proof -
  from assms(2) obtain n where n: "rt_Dst r = Some n" "no_host_bits n" by (auto simp: addable_def)
  have "rt_LinkIndex r = 0 \<or> (\<exists>l\<in>set (s_links s). link_index l = rt_LinkIndex r)"
    using assms(2) by (auto simp: addable_def sim_view_def split: if_split_asm dest: sim_find_Some)
  moreover have "\<not> same_route_key q (sim_stored r)" if "(route_family r, q) \<in> set (s_routes s)" for q
    using assms(2) that n by (auto simp: addable_def sim_view_def same_route_key_def sim_stored_def)
  ultimately show ?thesis using n by (auto simp: sim_RouteAdd_def Let_def sim_stored_def)
qed

lemma sim_rule_there: "rule_canon r \<in># k_rules (sim_view s) (ru_Family r) \<longleftrightarrow> rule_canon r \<in> set (s_rules s)"
  by (auto simp: sim_view_def)

interpretation sim_live: host_live sim_host sim_good sim_view
proof (unfold_locales, goal_cases)
  case (2 k n)
  then show ?case by (simp add: sim_host_def sim_LinkByName_def sim_view_def)
next
  case (4 k l r k')
  then show ?case by (auto simp: no_late_fallback_def sim_host_def sim_LinkAdd_def sim_view_def Let_def sim_find_append fallback_names_def split: if_split_asm)
next
  case (12 rt)
  then show ?case using sim_addable by (simp add: succeeds_def sim_host_def)
qed (auto simp: succeeds_def sim_host_def sim_LinkByName_def sim_LinkAdd_def sim_LinkDel_def sim_LinkSetUp_def sim_LinkSetName_def sim_FouAdd_def
    sim_RuleAdd_def sim_RuleDel_def sim_RuleList_def sim_RouteDel_def sim_RouteListFiltered_def Let_def sim_present sim_rule_there
    makeable_def free_port_def, auto simp: sim_view_def fou_wire_port)

end
