(* ===== verification/Progress.thy ===== *)
theory Progress
  imports HostLive Ponad
begin

text \<open>
  Progress of the operations on a namespace in which nothing goes wrong by itself
  (\<open>host_live\<close>): initialising the controllers, adding IPv4 peers, deleting peers, adding
  clients, handling a pod in the gateway, and serving a request of the CNI plugin all
  return. The state they need is an invariant: \<open>flow_inv\<close> for the devices that every new
  peer sets up or renames. Nothing is shown for IPv6 peers, whose links are IPv4 tunnels
  between IPv6 addresses.
\<close>

section \<open>The tunnel controller\<close>

text \<open>
  The IPv4 tunnels there are: the flow-based one under its name, those of the peers under
  theirs, and the fallback device, which has no peer.
\<close>

definition known_tunnel :: "string \<Rightarrow> link \<Rightarrow> bool" where
  "known_tunnel n l \<longleftrightarrow>
     (\<forall>a t. l = Iptun a t \<longrightarrow>
        (if to_FlowBased t then n = ''pona_ipip4''
         else to_Remote t = [] \<or> (\<exists>w. fouName (Addr4 w) = Inr n \<and> to_Remote t = FromAddr (Addr4 w))))"

text \<open>
  The devices beside the peers': the flow-based one is of its kind, and the renamed fallback
  device is the only one. The modules \<open>M\<close> are loaded.
\<close>

definition flow_inv :: "string set \<Rightarrow> kern \<Rightarrow> bool" where
  "flow_inv M K \<longleftrightarrow>
     M \<subseteq> k_modules K \<and> (\<forall>n l. k_links K n = Some l \<longrightarrow> known_tunnel n l) \<and>
     (\<forall>l. k_links K ''pona_ipip4'' = Some l \<longrightarrow> is_Iptun l) \<and>
     (k_links K ''pona_tunl'' \<noteq> None \<longrightarrow> k_links K ''tunl0'' = None \<and> k_links K ''pona_ipip4'' \<noteq> None) \<and>
     (\<forall>n l. n \<notin> aux_names \<longrightarrow> k_links K n = Some l \<longrightarrow> link_index l \<noteq> 0)"

lemma flow_inv_known: "flow_inv M K \<Longrightarrow> k_links K n = Some l \<Longrightarrow> known_tunnel n l"
  by (simp add: flow_inv_def)

lemma flow_inv_cong: "k_links K' = k_links K \<Longrightarrow> k_modules K' = k_modules K \<Longrightarrow> flow_inv M K' = flow_inv M K"
  by (simp add: flow_inv_def)

lemma flow_inv_modules: "flow_inv M K \<Longrightarrow> N \<subseteq> k_modules K \<Longrightarrow> flow_inv N K"
  by (simp add: flow_inv_def)

lemma flow_inv_less:
  assumes "flow_inv M K" "\<And>n. n \<in> aux_names \<Longrightarrow> k_links K' n = k_links K n" "\<And>n l. k_links K' n = Some l \<Longrightarrow> k_links K n = Some l"
    and "k_modules K' = k_modules K"
  shows "flow_inv M K'"
proof -
  have "k_links K' n = k_links K n" if "n \<in> {''pona_ipip4'', ''pona_tunl'', ''tunl0''}" for n
    using assms(2) that by (auto simp: aux_names_def fallback_names_def)
  then have "k_links K' ''pona_ipip4'' = k_links K ''pona_ipip4''" "k_links K' ''pona_tunl'' = k_links K ''pona_tunl''"
    "k_links K' ''tunl0'' = k_links K ''tunl0''" by simp_all
  with assms(1,4) show ?thesis unfolding flow_inv_def by (auto dest: assms(3))
qed

lemma fallbacks_other: "fallbacks_appear K M \<Longrightarrow> n \<notin> fallback_names \<Longrightarrow> k_links M n = k_links K n"
  by (auto simp: fallbacks_appear_def)

lemma kept_known:
  assumes "kept_link l l'" "sendable l" "known_tunnel n l"
  shows "known_tunnel n l'"
  using assms by (cases l) (auto simp: kept_link_def Let_def known_tunnel_def)

text \<open>A new link with an ordinary name keeps the invariant, and so does a new flow-based device.\<close>

lemma flow_inv_LinkAdd:
  assumes "spec_LinkAdd l l' K K'" "no_late_fallback K K'" "flow_inv M K"
    and "link_name l \<notin> {''tunl0'', ''ip6tnl0'', ''pona_tunl''}" "sendable l" "known_tunnel (link_name l) l"
    and "link_name l = ''pona_ipip4'' \<Longrightarrow> is_Iptun l"
  shows "flow_inv M K' \<and> k_links K' (link_name l) = Some l' \<and> link_name l' = link_name l"
proof -
  from assms(1) obtain N where N: "fallbacks_appear K N" and K': "K' = N\<lparr>k_links := (k_links N)(link_name l \<mapsto> l')\<rparr>"
    and l': "kept_link l l'" and ix: "link_index l' \<noteq> 0" by (auto simp: spec_LinkAdd_def fresh_index_def)
  have self: "k_links K' (link_name l) = Some l'" by (simp add: K')
  have md: "k_modules K' = k_modules K" using N by (auto simp: K' fallbacks_appear_def)
  have other: "k_links K' n = k_links K n" if "n \<noteq> link_name l" "n \<notin> fallback_names" for n
    using fallbacks_other[OF N that(2)] that(1) by (simp add: K')
  have late: "k_links K' n = k_links K n \<or> k_links K n = None" if "n \<noteq> link_name l" for n
    using N that by (auto simp: K' fallbacks_appear_def) (metis option.distinct(1))
  have t4: "k_links K' ''tunl0'' = None" if "k_links K ''pona_tunl'' \<noteq> None"
    using assms(2,3) that unfolding no_late_fallback_def flow_inv_def by (metis is_Iptun_def not_None_eq)
  have e4: "is_Iptun x" if "k_links K' ''pona_ipip4'' = Some x" for x
    using that other[of "''pona_ipip4''"] self assms(3,7) kept_link_kind[OF l']
    by (cases "link_name l = ''pona_ipip4''") (auto simp: fallback_names_def flow_inv_def)
  have kn: "known_tunnel n x" if x: "k_links K' n = Some x" for n x
  proof (cases "n = link_name l")
    case True
    with x self kept_known[OF l' assms(5,6)] show ?thesis by simp
  next
    case False
    show ?thesis
    proof (cases "k_links K n")
      case None
      with False other[of n] x have "n \<in> fallback_names" by (cases "n \<in> fallback_names") auto
      with None x assms(2) show ?thesis by (simp add: known_tunnel_def no_late_fallback_def)
    next
      case (Some y)
      with late[OF False] x flow_inv_known[OF assms(3)] show ?thesis by auto
    qed
  qed
  have "link_index x \<noteq> 0" if "n \<notin> aux_names" "k_links K' n = Some x" for n x
    using that other[of n] self ix assms(3) by (cases "n = link_name l") (auto simp: flow_inv_def aux_names_def)
  moreover have "k_links K' ''pona_tunl'' = k_links K ''pona_tunl''" "k_links K ''pona_ipip4'' \<noteq> None \<Longrightarrow> k_links K' ''pona_ipip4'' \<noteq> None"
    using assms(4) other[of "''pona_tunl''"] other[of "''pona_ipip4''"] self
    by (auto simp: fallback_names_def) (cases "link_name l = ''pona_ipip4''"; auto)
  ultimately have "flow_inv M K'" unfolding flow_inv_def
    using assms(3)[unfolded flow_inv_def] t4 e4 kn by (simp add: md)
  with self kept_link_name[OF l'] show ?thesis by simp
qed

text \<open>The names of the devices are names that a device can have.\<close>

lemma hex_digit_dev:
  assumes "i < 16"
  shows "dev_char (hex_digit i)"
proof -
  have "(of_char (hex_digit i) :: nat) = (if i < 10 then 48 + i else 87 + i)" using assms by (simp add: hex_digit_def)
  moreover have "(of_char (CHR ''/'') :: nat) = 47" "(of_char (CHR '':'') :: nat) = 58" by simp_all
  ultimately show ?thesis unfolding dev_char_def using assms by (auto split: if_split_asm)
qed

lemma hex_bytes_dev: "list_all dev_char (hex_bytes bs)"
proof (induction bs)
  case (Cons b bs)
  have "unat b div 16 < 16" "unat b mod 16 < 16" using unsigned_less[of b, where ?'a = nat] by (simp_all add: div_less_iff_less_mult)
  with Cons hex_digit_dev show ?case by (simp add: hex_bytes_def hex_byte_def)
qed (simp add: hex_bytes_def)

lemma fouName_dev:
  assumes "fouName a = Inr n"
  shows "dev_name n"
proof -
  have "list_all dev_char ''fou4_''" "list_all dev_char ''fou6_''" by code_simp+
  with assms hex_bytes_dev have "list_all dev_char n"
    by (cases a) (auto simp: fouName_def FoU4LinkPrefix_def FoU6LinkPrefix_def)
  with fouName_form[OF assms] fouName_not_aux[OF assms] show ?thesis by (auto simp: dev_name_def aux_names_def)
qed

lemma dev_names: "dev_name ''pona_ipip4''" "dev_name fouDummy" "dev_name ''eth0''"
  unfolding fouDummy_def by code_simp+

lemma dummy_makeable: "dev_name n \<Longrightarrow> k_links K n = None \<Longrightarrow> makeable (Dummy (NewLinkAttrs\<lparr>la_Name := n\<rparr>)) K"
  by (simp add: makeable_def NewLinkAttrs_def)

lemma dummy_known [simp]: "known_tunnel n (Dummy a)"
  by (simp add: known_tunnel_def)

abbreviation flow4 :: link where
  "flow4 \<equiv> Iptun (flow_attrs ''pona_ipip4'') (zero_tunnel_opts\<lparr>to_FlowBased := True\<rparr>)"

lemma flow4_link: "link_name flow4 = ''pona_ipip4''" "sendable flow4" "known_tunnel ''pona_ipip4'' flow4"
  by (simp_all add: flow_attrs_def zero_tunnel_opts_def known_tunnel_def)

lemma flow_makeable: "flow_inv M K \<Longrightarrow> k_links K ''pona_ipip4'' = None \<Longrightarrow> makeable flow4 K"
  using dev_names(1) flow_inv_known[of M K]
  by (fastforce simp: makeable_def flow_attrs_def zero_tunnel_opts_def same_tunnel_def known_tunnel_def)

lemma peer_sendable: "Is4 a \<Longrightarrow> Is4 loc \<Longrightarrow> sendable (peer_link t n a loc)"
  by (auto simp: Is4_iff peer_link_def FromAddr_def)

lemma peer_known: "Is4 a \<Longrightarrow> fouName a = Inr n \<Longrightarrow> known_tunnel n (peer_link t n a loc)"
  by (auto simp: Is4_iff peer_link_def known_tunnel_def)

lemma peer_makeable:
  assumes "flow_inv M K" "''fou'' \<in> M" "fouName a = Inr n" "k_links K n = None" "Is4 a" "Is4 loc"
  shows "makeable (peer_link t n a loc) K"
proof -
  from assms(5) obtain w where a: "a = Addr4 w" by (auto simp: Is4_iff)
  have "\<not> same_tunnel (opts (peer_link t n a loc)) x" if l: "k_links K m = Some (Iptun at x)" for m at x
  proof
    assume s: "same_tunnel (opts (peer_link t n a loc)) x"
    then have "\<not> to_FlowBased x" "to_Remote x = FromAddr a" by (auto simp: same_tunnel_def peer_link_def)
    with flow_inv_known[OF assms(1) l] obtain v where "fouName (Addr4 v) = Inr m" "FromAddr (Addr4 v) = FromAddr a"
      by (auto simp: known_tunnel_def a FromAddr_def)
    then have "fouName a = Inr m" by (simp add: a FromAddr_def word_bytes_inject)
    with assms(3,4) l show False by simp
  qed
  moreover have "''fou'' \<in> k_modules K" using assms(1,2) by (auto simp: flow_inv_def)
  ultimately show ?thesis using fouName_dev[OF assms(3)] assms(4) peer_sendable[OF assms(5,6), of t n]
    by (simp add: makeable_def peer_link_def NewLinkAttrs_def a FromAddr_def)
qed

text \<open>Nothing is in the way of initialising the listeners of the families \<open>F\<close>.\<close>

definition startable :: "fou_controller \<Rightarrow> family set \<Rightarrow> kern \<Rightarrow> bool" where
  "startable t F K \<longleftrightarrow> flow_inv {} K \<and> k_links K fouDummy = None \<and> 0 < fc_port t \<and> fc_port t < 2 ^ 16 \<and>
     (\<forall>f\<in>F. free_port (fou_listener t f) K)"

text \<open>An assertion on links, listeners and modules alone.\<close>

definition on_devices :: "(kern \<Rightarrow> bool) \<Rightarrow> bool" where
  "on_devices P \<longleftrightarrow> (\<forall>K K'. k_links K' = k_links K \<longrightarrow> k_fous K' = k_fous K \<longrightarrow> k_modules K \<subseteq> k_modules K' \<longrightarrow> P K \<longrightarrow> P K')"

lemma on_devicesD: "on_devices P \<Longrightarrow> P K \<Longrightarrow> k_links K' = k_links K \<Longrightarrow> k_fous K' = k_fous K \<Longrightarrow> k_modules K \<subseteq> k_modules K' \<Longrightarrow> P K'"
  by (simp add: on_devices_def)

lemma on_devices_startable: "on_devices (startable t F)"
  by (simp add: on_devices_def startable_def free_port_def flow_inv_def)

lemma checksum_known: "0 < fc_port t \<Longrightarrow> fc_port t < 2 ^ 16 \<Longrightarrow>
  known_rule f ''mangle'' ''POSTROUTING'' [''-p'', ''udp'', ''--dport'', Itoa (fc_port t), ''-j'', ''CHECKSUM'', ''--checksum-fill'']"
  by (auto simp: known_rule_def)

context host_live
begin

text \<open>The calls that touch neither links nor listeners.\<close>

lemma init_switch:
  assumes "on_devices P"
  shows "returns good view P (ipt_NewWithProtocol h f) (\<lambda>_. P)" "known_rule f tb c spec \<Longrightarrow> returns good view P (ipt_Insert h f tb c 1 spec) (\<lambda>_. P)"
    "known_sysctl name v \<Longrightarrow> returns good view P (Sysctl h name v) (\<lambda>_. P)" "returns good view P (EnableIP4Forward h) (\<lambda>_. P)"
    "returns good view P (EnableIP6Forward h) (\<lambda>_. P)"
    "m \<in> {''fou'', ''fou6''} \<Longrightarrow> returns good view P (exec_modprobe h m) (\<lambda>_ K. P K \<and> m \<in> k_modules K)"
proof -
  note D = on_devicesD[OF assms]
  show "returns good view P (ipt_NewWithProtocol h f) (\<lambda>_. P)"
    by (rule returns_ipt_New) (simp_all add: spec_none_def)
  show "known_rule f tb c spec \<Longrightarrow> returns good view P (ipt_Insert h f tb c 1 spec) (\<lambda>_. P)"
    by (rule returns_ipt_Insert, assumption, simp, erule D) (simp_all add: spec_ipt_Insert_def set_chain_def)
  show "known_sysctl name v \<Longrightarrow> returns good view P (Sysctl h name v) (\<lambda>_. P)"
    by (rule returns_Sysctl, assumption, simp, erule D) (simp_all add: spec_Sysctl_def)
  show "returns good view P (EnableIP4Forward h) (\<lambda>_. P)" "returns good view P (EnableIP6Forward h) (\<lambda>_. P)"
    by (rule returns_Forward, simp, erule D, simp_all add: spec_EnableForward_def)+
  show "returns good view P (exec_modprobe h m) (\<lambda>_ K. P K \<and> m \<in> k_modules K)" if "m \<in> {''fou'', ''fou6''}"
    by (rule returns_modprobe[OF that], simp, rule conjI, erule D) (auto simp: spec_modprobe_def)
qed

lemma initIPTables_progress:
  assumes "0 < fc_port t" "fc_port t < 2 ^ 16" "on_devices P"
  shows "returns good view P (initIPTables h t f) (\<lambda>_. P)"
  unfolding initIPTables_def
  by (rule returns_bind[OF init_switch(1)[OF assms(3)]], rule returns_bind[OF returns_on_err[OF init_switch(2)[OF assms(3) checksum_known[OF assms(1,2)]]]])
    (rule returns_ret, assumption)

text \<open>The controller's port is a fact that the assertions carry.\<close>

lemma startable_port:
  "(0 < fc_port t \<Longrightarrow> fc_port t < 2 ^ 16 \<Longrightarrow> returns good view (startable t F) m Q) \<Longrightarrow> returns good view (startable t F) m Q"
  by (rule returns_fact[where B = "0 < fc_port t \<and> fc_port t < 2 ^ 16"]) (simp_all add: startable_def)

lemma init_progress:
  "returns good view (startable t {FAMILY_V4, FAMILY_V6}) (init4 h t) (\<lambda>_ K. startable t {FAMILY_V6} K)"
  "returns good view (startable t {FAMILY_V6}) (init6 h t) (\<lambda>_. startable t {})"
proof -
  note sw = init_switch[OF on_devices_startable]
  have rp: "returns good view (startable t F) (disableRPFilter h) (\<lambda>_. startable t F)" for F
    unfolding disableRPFilter_def
    by (rule returns_bind returns_on_err sw(3) returns_ret | assumption | simp add: known_sysctl_def)+
  have mp: "returns good view (startable t F) (modProbe h m) (\<lambda>_ K. startable t F K \<and> m \<in> k_modules K)" if "m \<in> {''fou'', ''fou6''}" for F m
    unfolding modProbe_def by (rule returns_on_err, rule sw(6)[OF that])
  have a4: "returns good view (\<lambda>K. startable t {FAMILY_V4, FAMILY_V6} K \<and> ''fou'' \<in> k_modules K) (FouAdd h (fou_listener t FAMILY_V4)) (\<lambda>_. startable t {FAMILY_V6})"
    by (rule returns_FouAdd) (auto simp: startable_def free_port_def spec_FouAdd_def fou_listener_def flow_inv_def fou_module_def fou_wire_port)
  have a6: "returns good view (\<lambda>K. startable t {FAMILY_V6} K \<and> ''fou6'' \<in> k_modules K) (FouAdd h (fou_listener t FAMILY_V6)) (\<lambda>_. startable t {})"
    by (rule returns_FouAdd) (auto simp: startable_def spec_FouAdd_def flow_inv_def fou_listener_def fou_module_def)
  show "returns good view (startable t {FAMILY_V4, FAMILY_V6}) (init4 h t) (\<lambda>_. startable t {FAMILY_V6})"
    unfolding init4_def
    by (rule startable_port, rule returns_bind[OF returns_on_err[OF rp]], rule returns_bind[OF returns_on_err[OF sw(4)]],
        rule returns_bind[OF returns_on_err[OF mp]], simp, rule returns_bind[OF returns_on_err[OF a4]], erule (1) initIPTables_progress)
      (rule on_devices_startable)
  show "returns good view (startable t {FAMILY_V6}) (init6 h t) (\<lambda>_. startable t {})"
    unfolding init6_def
    by (rule startable_port, rule returns_bind[OF returns_on_err[OF sw(5)]], rule returns_bind[OF returns_on_err[OF mp]], simp,
        rule returns_bind[OF returns_on_err[OF a6]], erule (1) initIPTables_progress)
      (rule on_devices_startable)
qed

lemma fou_Init_progress:
  "returns good view (\<lambda>K. flow_inv {} K \<and> (k_links K fouDummy = None \<longrightarrow> startable t {FAMILY_V4, FAMILY_V6} K)) (fou_Init h t) (\<lambda>_. flow_inv {})"
proof -
  have d: "returns good view (startable t {}) (LinkAdd h (Dummy (NewLinkAttrs\<lparr>la_Name := fouDummy\<rparr>))) (\<lambda>_. flow_inv {})"
    by (rule returns_LinkAdd, rule dummy_makeable[OF dev_names(2)], simp add: startable_def, drule flow_inv_LinkAdd)
      (auto simp: startable_def fouDummy_def NewLinkAttrs_def)
  have s4: "returns good view (startable t {FAMILY_V4, FAMILY_V6}) (ret ()) (\<lambda>_. startable t {FAMILY_V6})"
    and s6: "returns good view (startable t {FAMILY_V6}) (ret ()) (\<lambda>_. startable t {})"
    by (rule returns_ret, simp add: startable_def)+
  have run: "returns good view (startable t {FAMILY_V4, FAMILY_V6})
      (bind_io (if fc_local4 t \<noteq> None then init4 h t else ret ()) (\<lambda>_.
       bind_io (if fc_local6 t \<noteq> None then init6 h t else ret ()) (\<lambda>_.
       bind_io (on_err (Errorw ''failed to add dummy device'')
         (LinkAdd h (Dummy (NewLinkAttrs\<lparr>la_Name := fouDummy\<rparr>)))) (\<lambda>_. ret ())))) (\<lambda>_. flow_inv {})"
    by (rule returns_bind[OF returns_if[OF init_progress(1) s4]], rule returns_bind[OF returns_if[OF init_progress(2) s6]],
        rule returns_bind[OF returns_on_err[OF d]], rule returns_ret, assumption)
  show ?thesis unfolding fou_Init_def
    by (rule returns_find, rule returns_ret, simp, rule returns_not_found, rule returns_pre, rule run, simp)
qed

text \<open>A new IPv4 peer. The flow-based device is made or found, and the fallback device renamed.\<close>

lemma setupDevice_progress:
  "returns good view (flow_inv M) (setupDevice h flow4) (\<lambda>_ K. flow_inv M K \<and> k_links K ''pona_ipip4'' \<noteq> None)"
proof -
  let ?n = "''pona_ipip4''"
  let ?R = "\<lambda>x K. flow_inv M K \<and> k_links K ?n = Some x \<and> link_name x = ?n"
  have up: "returns good view (?R x) (on_err m (configureDevice h x)) (\<lambda>_ K. flow_inv M K \<and> k_links K ?n \<noteq> None)" for m x
    unfolding configureDevice_def
    by (rule returns_on_err, rule returns_on_err, rule returns_LinkSetUp) (auto simp: present_def spec_LinkSetUp_def flow_inv_def)
  have add: "returns good view (\<lambda>K. flow_inv M K \<and> k_links K ?n = None) (LinkAdd h flow4) (\<lambda>_ K. flow_inv M K \<and> k_links K ?n \<noteq> None)"
  proof (rule returns_LinkAdd)
    fix l' K K'
    assume K: "flow_inv M K \<and> k_links K ?n = None"
    then show "makeable flow4 K" using flow_makeable by blast
    assume "spec_LinkAdd flow4 l' K K'" "no_late_fallback K K'"
    from flow_inv_LinkAdd[OF this, of M] K flow4_link show "flow_inv M K' \<and> k_links K' ?n \<noteq> None" by simp
  qed
  have get: "returns good view (\<lambda>K. flow_inv M K \<and> k_links K ?n \<noteq> None) (LinkByName h ?n) ?R"
    by (rule returns_call[OF live_LinkByName LinkByName]) (auto simp: spec_LinkByName_def)
  show ?thesis unfolding setupDevice_def flow4_link(1)
  proof (rule returns_bind[OF _ up])
    show "returns good view (flow_inv M) (catch (LinkByName h ?n) (\<lambda>r. case r of
          Inr l \<Rightarrow> ret l
        | Inl e \<Rightarrow>
            if \<not> errors_As_LinkNotFound e then throw e
            else
              bind_io (on_err (Errorw ''netlink: failed to create device'') (LinkAdd h flow4)) (\<lambda>_.
              on_err (Errorw ''netlink: failed to retrieve created device'') (LinkByName h ?n)))) ?R"
      by (rule returns_find, rule returns_ret, simp, rule returns_not_found,
          rule returns_bind, rule returns_on_err, rule add, rule returns_on_err, rule get)
  qed
qed

lemma rename_keeps:
  assumes "link_name l = ''tunl0''" "flow_inv M K" "k_links K ''tunl0'' = Some l" "k_links K ''pona_ipip4'' \<noteq> None"
    and "spec_LinkSetName l ''pona_tunl'' u K K'"
  shows "flow_inv M K'"
proof -
  let ?x = "with_attrs ((Attrs l)\<lparr>la_Name := ''pona_tunl''\<rparr>) l"
  from assms(1,5) have K': "K' = K\<lparr>k_links := (k_links K)(''tunl0'' := None, ''pona_tunl'' \<mapsto> ?x)\<rparr>" by (simp add: spec_LinkSetName_def)
  have "fouName b \<noteq> Inr ''tunl0''" for b using fouName_not_aux[of b "''tunl0''"] by (auto simp: aux_names_def fallback_names_def)
  with flow_inv_known[OF assms(2,3)] have "known_tunnel ''pona_tunl'' ?x"
    by (cases l) (auto simp: known_tunnel_def split: if_splits)
  with assms(2,4) show ?thesis
    by (auto simp: flow_inv_def K' aux_names_def fallback_names_def split: if_split_asm)
qed

lemma renameDevice_progress:
  "returns good view (\<lambda>K. flow_inv M K \<and> k_links K ''pona_ipip4'' \<noteq> None) (renameDevice h ''tunl0'' ''pona_tunl'') (\<lambda>_. flow_inv M)"
  unfolding renameDevice_def
proof (rule returns_find)
  fix l
  assume l: "link_name l = ''tunl0''"
  show "returns good view (\<lambda>K. (flow_inv M K \<and> k_links K ''pona_ipip4'' \<noteq> None) \<and> k_links K ''tunl0'' = Some l)
      (on_err (Errorw ''netlink: failed to rename device'') (LinkSetName h l ''pona_tunl'')) (\<lambda>_. flow_inv M)"
  proof (intro returns_on_err returns_LinkSetName)
    fix K
    assume K: "(flow_inv M K \<and> k_links K ''pona_ipip4'' \<noteq> None) \<and> k_links K ''tunl0'' = Some l"
    then show "present l K \<and> k_links K ''pona_tunl'' = None" using l by (auto simp: present_def flow_inv_def)
    show "spec_LinkSetName l ''pona_tunl'' u K K' \<Longrightarrow> flow_inv M K'" for u K'
      using rename_keeps[OF l, of M K] K by blast
  qed
qed (rule returns_ret, simp)

lemma setupFlowBased_progress: "returns good view (flow_inv M) (setupFlowBasedIP4TunDevice h) (\<lambda>_. flow_inv M)"
  unfolding setupFlowBasedIP4TunDevice_def
  by (rule returns_bind[OF returns_on_err[OF setupDevice_progress] returns_on_err[OF renameDevice_progress]])

end

text \<open>The module that the peers' devices need is loaded with the IPv4 listener.\<close>

definition peer_modules :: "fou_controller \<Rightarrow> string set" where
  "peer_modules t = (if fc_local4 t = None then {} else {''fou''})"

abbreviation peers_inv :: "fou_controller \<Rightarrow> kern \<Rightarrow> bool" where
  "peers_inv t \<equiv> flow_inv (peer_modules t)"

text \<open>The addresses for which a peer can be made.\<close>

definition makes_peer :: "fou_controller \<Rightarrow> addr \<Rightarrow> bool" where
  "makes_peer t a \<longleftrightarrow> Is4 a \<and> (\<exists>loc. fc_local4 t = Some loc \<and> Is4 loc)"

lemma makes_peer_supports: "makes_peer t a \<Longrightarrow> fou_supports t a"
  by (auto simp: makes_peer_def fou_supports_def)

context host_live
begin

lemma AddPeer_progress:
  assumes "makes_peer t a"
  shows "returns good view (peers_inv t) (AddPeer h t a) (\<lambda>_. peers_inv t)"
proof -
  from assms obtain w loc where a: "a = Addr4 w" "Is4 a" and loc: "fc_local4 t = Some loc" "Is4 loc" by (auto simp: makes_peer_def Is4_iff)
  then obtain n where n: "fouName a = Inr n" using fouName_Inr_iff[of a] by auto
  let ?l = "peer_link t n a loc"
  have m: "''fou'' \<in> peer_modules t" using loc by (simp add: peer_modules_def)
  have nl: "link_name ?l = n" by (simp add: peer_link_def NewLinkAttrs_def)
  have add: "returns good view (\<lambda>K. peers_inv t K \<and> k_links K n = None) (LinkAdd h ?l) (\<lambda>_. peers_inv t)"
  proof (rule returns_LinkAdd)
    fix l' K K'
    assume K: "peers_inv t K \<and> k_links K n = None"
    with peer_makeable[OF _ m n _ a(2) loc(2)] show "makeable ?l K" by blast
    assume "spec_LinkAdd ?l l' K K'" "no_late_fallback K K'"
    from flow_inv_LinkAdd[OF this] K peer_sendable[OF a(2) loc(2)] peer_known[OF a(2) n] fouName_not_aux[OF n]
    show "peers_inv t K'" by (simp add: nl aux_names_def fallback_names_def)
  qed
  have "returns good view (peers_inv t) (make_peer h (setupFlowBasedIP4TunDevice h) n ?l) (\<lambda>_. peers_inv t)" unfolding make_peer_def
    by (rule returns_find, rule returns_ret, simp, rule returns_not_found, rule returns_bind[OF returns_on_err[OF add]],
        rule returns_bind[OF returns_on_err[OF setupFlowBased_progress]], rule returns_ret, assumption)
  then show ?thesis using n by (simp add: AddPeer_alt a(1) loc(1))
qed

lemma DelPeer_progress:
  assumes "a \<noteq> AddrZero"
  shows "returns good view (flow_inv M) (DelPeer h t a) (\<lambda>_. flow_inv M)"
proof -
  from assms obtain n where n: "fouName a = Inr n" using fouName_Inr_iff by blast
  have del: "returns good view (\<lambda>K. flow_inv M K \<and> k_links K n = Some l) (LinkDel h l) (\<lambda>_. flow_inv M)" if "link_name l = n" for l
  proof (rule returns_LinkDel)
    fix u K K'
    assume "flow_inv M K \<and> k_links K n = Some l" "spec_LinkDel l u K K'"
    then have K: "flow_inv M K" and L: "k_links K' = (k_links K)(n := None)" "k_modules K' = k_modules K" using that by (auto simp: spec_LinkDel_def)
    from K show "flow_inv M K'"
      by (rule flow_inv_less) (use fouName_not_aux[OF n] in \<open>auto simp: L split: if_split_asm\<close>)
  qed (simp add: present_def that)
  show ?thesis unfolding DelPeer_def n sum.case
    by (rule returns_find, erule del, simp, rule returns_ret, simp)
qed

text \<open>A client: its route is there already, or it can be added.\<close>

lemma AddClient_progress:
  assumes "routable_addr a" "Is4 a \<Longrightarrow> gt_ipv4 c \<noteq> None" "Is6 a \<Longrightarrow> gt_ipv6 c \<noteq> None"
  shows "returns good view (\<lambda>K. flow_inv M K \<and> present l K \<and> link_index l \<noteq> 0) (AddClient h c a l) (\<lambda>_. flow_inv M)"
proof -
  let ?P = "\<lambda>K. flow_inv M K \<and> present l K \<and> link_index l \<noteq> 0" and ?f = "if Is6 a then FAMILY_V6 else FAMILY_V4"
  let ?none = "\<lambda>routes. \<not> (\<exists>r\<in>set routes. case rt_Dst r of None \<Rightarrow> False | Some d \<Rightarrow> IP_Equal (n_IP d) (FromAddr a))"
  let ?free = "\<lambda>K. \<forall>q\<in>k_routes K ?f. rt_Table q = egressTableID \<longrightarrow> rt_Dst q \<noteq> Some (NewIPNet (FromAddr a))"
  note host = NewIPNet_host[OF assms(1)]
  have fam: "route_family (client_route a l) = ?f"
    using assms(1) by (cases a) (auto simp: client_route_def route_family_def zero_route_def NewIPNet_def ip_family_def FromAddr_def routable_addr_def To4_def)
  have "a \<noteq> AddrZero" "\<not> Is4In6 a" using assms(1) by (auto simp: routable_addr_def)
  have nd: "NewIPNet (FromAddr a) \<noteq> default_net ?f"
    by (auto simp: NewIPNet_def default_net_def)
  have list: "returns good view ?P (RouteListFiltered h ?f egressTableID) (\<lambda>routes K. ?P K \<and> (?none routes \<longrightarrow> ?free K))"
  proof (rule returns_RouteListFiltered)
    fix rs K K'
    assume P: "?P K" and S: "spec_RouteListFiltered ?f egressTableID rs K K'"
    then obtain ls where K': "K' = K" and ls: "set ls = {r \<in> k_routes K ?f. rt_Table r = egressTableID}" "list_all2 (shown_as ?f) ls rs"
      unfolding spec_RouteListFiltered_def by blast
    have "?free K" if "?none rs"
    proof (intro ballI impI notI)
      fix q
      assume "q \<in> k_routes K ?f" "rt_Table q = egressTableID" and d: "rt_Dst q = Some (NewIPNet (FromAddr a))"
      with ls(1) have "q \<in> set ls" by simp
      with ls(2) obtain r where r: "r \<in> set rs" "shown_as ?f q r" by (metis in_set_conv_nth list_all2_conv_all_nth)
      with d nd have "rt_Dst r = Some (NewIPNet (FromAddr a))" by (auto simp: shown_as_def)
      with r(1) that host show False by (metis IP_Equal_refl option.simps(5))
    qed
    with P K' show "?P K' \<and> (?none rs \<longrightarrow> ?free K')" by blast
  qed simp
  have up: "returns good view (\<lambda>K. ?P K \<and> ?free K) (LinkSetUp h l) (\<lambda>_ K. ?P K \<and> ?free K \<and> link_index l \<in> k_up K)"
    by (rule returns_LinkSetUp) (auto simp: spec_LinkSetUp_def present_def flow_inv_def)
  have add: "returns good view (\<lambda>K. ?P K \<and> ?free K \<and> link_index l \<in> k_up K) (RouteAdd h (client_route a l)) (\<lambda>_. flow_inv M)"
  proof (rule returns_RouteAdd)
    fix K
    assume "?P K \<and> ?free K \<and> link_index l \<in> k_up K"
    then show "addable (client_route a l) K" unfolding addable_def fam
      using host by (auto simp: client_route_def zero_route_def present_def)
  qed (auto simp: spec_RouteAdd_def flow_inv_def)
  have c: "\<not> (Is4 a \<and> gt_ipv4 c = None)" "\<not> (Is6 a \<and> gt_ipv6 c = None)" using assms(2,3) by auto
  show ?thesis unfolding AddClient_def if_not_P[OF c(1)] if_not_P[OF c(2)]
  proof (rule returns_bind[OF returns_on_err[OF list]], rule returns_if)
    fix routes
    assume "?none routes"
    then show "returns good view (\<lambda>K. ?P K \<and> (?none routes \<longrightarrow> ?free K))
        (bind_io (on_err (Errorw ''netlink: failed to link up'') (LinkSetUp h l)) (\<lambda>_.
         on_err (Errorw ''netlink: failed to add route to table'') (RouteAdd h (client_route a l)))) (\<lambda>_. flow_inv M)"
      by (intro returns_pre[OF returns_bind[OF returns_on_err[OF up] returns_on_err[OF add]]]) blast
  qed (rule returns_ret, blast)
qed

section \<open>The pod watcher\<close>

lemma running_add_progress:
  assumes "routable_addr ip" "fou_supports t ip \<Longrightarrow> makes_peer t ip" "gt_ipv4 c = fc_local4 t" "gt_ipv6 c = fc_local6 t"
  shows "returns good view (peers_inv t) (running_add (fou_tunnel h t) (nat_gateway_of h c) ex ip) (\<lambda>_. peers_inv t)"
proof (cases "ip \<in> set ex")
  case True
  then show ?thesis by (simp add: running_add_def returns_ret)
next
  case False
  have nz: "ip \<noteq> AddrZero" using assms(1) by (simp add: routable_addr_def)
  show ?thesis
  proof (cases "fou_supports t ip")
    case True
    let ?R = "\<lambda>l K. peers_inv t K \<and> present l K \<and> link_index l \<noteq> 0"
    have "returns good view (peers_inv t) (AddPeer h t ip) (\<lambda>l K. peers_inv t K \<and> (\<exists>n. fouName ip = Inr n \<and> k_links K n = Some l \<and> link_name l = n))"
      by (rule returns_also[OF AddPeer_progress[OF assms(2)[OF True]]]) (use AddPeer_returns in blast)
    then have peer: "returns good view (peers_inv t) (AddPeer h t ip) ?R"
    proof (rule returns_conseq)
      fix l K
      assume "peers_inv t K \<and> (\<exists>n. fouName ip = Inr n \<and> k_links K n = Some l \<and> link_name l = n)"
      then show "?R l K" using fouName_not_aux[of ip] by (auto simp: present_def flow_inv_def)
    qed simp
    have fam: "Is4 ip \<Longrightarrow> gt_ipv4 c \<noteq> None" "Is6 ip \<Longrightarrow> gt_ipv6 c \<noteq> None"
      using True assms(3,4) by (cases ip; auto simp: fou_supports_def)+
    show ?thesis using False
      by (simp add: running_add_def fou_tunnel_def nat_gateway_of_def)
        (rule returns_catch_ok[OF peer], simp, rule returns_on_err[OF AddClient_progress[OF assms(1) fam]])
  next
    case unsupported: False
    with nz have "AddPeer h t ip = throw ErrIPFamilyMismatch"
      by (cases ip) (auto simp: AddPeer_alt fou_supports_def)
    with False show ?thesis
      by (simp add: running_add_def fou_tunnel_def returns_def catch_def throw_def ret_def)
  qed
qed

lemma running_del_progress:
  "a \<noteq> AddrZero \<Longrightarrow> returns good view (peers_inv t) (running_del (fou_tunnel h t) ips a) (\<lambda>_. peers_inv t)"
  using DelPeer_progress[where a = a and t = t and M = "peer_modules t"] by (simp add: running_del_def fou_tunnel_def returns_ret)

lemma handlePodRunning_progress:
  assumes w: "good (pw_world r)" "peers_inv t (view (pw_world r))" and g: "gt_ipv4 c = fc_local4 t" "gt_ipv6 c = fc_local6 t"
    and ips: "parse_ips (pod_PodIPs pod) = Inr ips" "\<And>a. a \<in> set ips \<Longrightarrow> routable_addr a" "\<And>a. a \<in> set ips \<Longrightarrow> fou_supports t a \<Longrightarrow> makes_peer t a"
    and ex: "\<And>a. a \<in> set (existing_ips r (pod_key pod)) \<Longrightarrow> a \<noteq> AddrZero"
  obtains w' where "handlePodRunning (fou_tunnel h t) (nat_gateway_of h c) pod r = (Inr (), record_ips (pod_key pod) ips (r\<lparr>pw_world := w'\<rparr>))"
    "good w'" "peers_inv t (view w')"
proof -
  let ?ex = "existing_ips r (pod_key pod)"
  have "returns good view (peers_inv t) (for_each (running_add (fou_tunnel h t) (nat_gateway_of h c) ?ex) ips) (\<lambda>_. peers_inv t)"
    by (rule returns_for_each_in) (rule running_add_progress[OF ips(2,3) g])
  from this w obtain w1 where a: "for_each (running_add (fou_tunnel h t) (nat_gateway_of h c) ?ex) ips (pw_world r) = (Inr (), w1)"
    and w1: "good w1" "peers_inv t (view w1)" by (rule returns_unit)
  have "returns good view (peers_inv t) (for_each (running_del (fou_tunnel h t) ips) ?ex) (\<lambda>_. peers_inv t)"
    by (rule returns_for_each_in) (rule running_del_progress[OF ex])
  from this w1 obtain w2 where d: "for_each (running_del (fou_tunnel h t) ips) ?ex w1 = (Inr (), w2)"
    and w2: "good w2" "peers_inv t (view w2)" by (rule returns_unit)
  show thesis
    by (rule that[OF _ w2]) (simp add: handlePodRunning_def Let_def ips(1) bind_io_def lift_io_def a d)
qed

lemma deletion_progress:
  assumes "good (pw_world r)" "peers_inv t (view (pw_world r))" "distinct ips" "\<forall>ip\<in>set ips. ip \<noteq> AddrZero \<and> key |\<in>| keyset (pw_podIPToPod r) ip"
  shows "\<exists>r'. for_each (deletion_step (fou_tunnel h t) key) ips r = (Inr (), r') \<and> good (pw_world r') \<and> peers_inv t (view (pw_world r'))"
  using assms
proof (induction ips arbitrary: r)
  case Nil
  then show ?case by simp
next
  case (Cons x xs)
  have "\<exists>w. deletion_step (fou_tunnel h t) key x r = (Inr (), r\<lparr>pw_world := w, pw_podIPToPod := drop_key key x (pw_podIPToPod r)\<rparr>) \<and>
      good w \<and> peers_inv t (view w)"
  proof (cases "keyset (pw_podIPToPod r) x = {|key|}")
    case True
    from Cons.prems(4) have "returns good view (peers_inv t) (DelPeer h t x) (\<lambda>_. peers_inv t)" by (intro DelPeer_progress) simp
    from this Cons.prems(1,2) obtain w where "DelPeer h t x (pw_world r) = (Inr (), w)" "good w" "peers_inv t (view w)" by (rule returns_unit)
    with True existsOther_ok[of key r x] Cons.prems(4) show ?thesis
      by (auto simp: deletion_step_def fou_tunnel_def bind_io_def lift_io_def)
  next
    case False
    with existsOther_ok[of key r x] Cons.prems show ?thesis
      by (intro exI[of _ "pw_world r"]) (simp add: deletion_step_def bind_io_def ret_def)
  qed
  then obtain w where s: "deletion_step (fou_tunnel h t) key x r = (Inr (), r\<lparr>pw_world := w, pw_podIPToPod := drop_key key x (pw_podIPToPod r)\<rparr>)"
    and w: "good w" "peers_inv t (view w)" by blast
  have "\<exists>r'. for_each (deletion_step (fou_tunnel h t) key) xs (r\<lparr>pw_world := w, pw_podIPToPod := drop_key key x (pw_podIPToPod r)\<rparr>) = (Inr (), r') \<and>
      good (pw_world r') \<and> peers_inv t (view (pw_world r'))"
    using Cons.prems(3,4) w by (intro Cons.IH) (auto simp: keyset_drop_key)
  then show ?case by (simp add: bind_io_def s)
qed

lemma handlePodDeletion_progress:
  assumes "good (pw_world r)" "peers_inv t (view (pw_world r))" "maps_ok r" "\<And>a. a \<in> set (existing_ips r key) \<Longrightarrow> a \<noteq> AddrZero"
  shows "\<exists>r'. handlePodDeletion (fou_tunnel h t) key r = (Inr (), r') \<and> good (pw_world r') \<and> peers_inv t (view (pw_world r'))"
proof -
  from assms(3,4) have "distinct (existing_ips r key)" "\<forall>ip\<in>set (existing_ips r key). ip \<noteq> AddrZero \<and> key |\<in>| keyset (pw_podIPToPod r) ip"
    by (auto simp: maps_ok_def)
  from deletion_progress[OF assms(1,2) this] obtain r' where
    "for_each (deletion_step (fou_tunnel h t) key) (existing_ips r key) r = (Inr (), r')" "good (pw_world r')" "peers_inv t (view (pw_world r'))" by blast
  then show ?thesis by (simp add: handlePodDeletion_def bind_io_def)
qed

end

text \<open>The states in which the watcher makes progress.\<close>

definition live_watcher :: "fou_controller \<Rightarrow> ('k \<Rightarrow> bool) \<Rightarrow> ('k \<Rightarrow> kern) \<Rightarrow> 'k pod_watcher \<Rightarrow> bool" where
  "live_watcher t good view r \<longleftrightarrow> good (pw_world r) \<and> peers_inv t (view (pw_world r)) \<and> maps_ok r \<and> (\<forall>a. tracked r a \<longrightarrow> a \<noteq> AddrZero)"

text \<open>
  What the API server says of a pod whose tracked addresses are \<open>m\<close>: it is gone, or it is
  there with addresses that parse and can be routed to, none twice and none lost, and
  those of a family that the gateway supports are IPv4 addresses.
\<close>

definition fine_event :: "fou_controller \<Rightarrow> (err + pod) \<Rightarrow> nsname \<Rightarrow> (nsname \<Rightarrow> addr list) \<Rightarrow> bool" where
  "fine_event t got req m \<longleftrightarrow>
     (case got of
        Inl e \<Rightarrow> IsNotFound e
      | Inr p \<Rightarrow> pod_key p = req \<and> (\<exists>ips. parse_ips (pod_PodIPs p) = Inr ips \<and> distinct ips \<and> (\<forall>a\<in>set ips. routable_addr a \<and> (fou_supports t a \<longrightarrow> makes_peer t a)) \<and>
          set (m req) \<subseteq> set ips))"

text \<open>What the watcher is to track after the event; \<open>asks\<close> says which pods ask for its egress.\<close>

fun wanted_step :: "(pod \<Rightarrow> bool) \<Rightarrow> (err + pod) \<times> nsname \<Rightarrow> (nsname \<Rightarrow> addr list) \<Rightarrow> (nsname \<Rightarrow> addr list)" where
  "wanted_step asks (Inl e, req) m = m(req := [])"
| "wanted_step asks (Inr p, req) m =
     (if \<not> asks p then m
      else if isTerminated p \<or> pod_DeletionTimestamp p \<noteq> None then m(req := [])
      else m(req := projr (parse_ips (pod_PodIPs p))))"

lemma shouldHandle_cong:
  "pw_EgressName r' = pw_EgressName r \<Longrightarrow> pw_EgressNamespace r' = pw_EgressNamespace r \<Longrightarrow> shouldHandle r' = shouldHandle r"
proof -
  assume eq: "pw_EgressName r' = pw_EgressName r" "pw_EgressNamespace r' = pw_EgressNamespace r"
  have "annotation_loop r' xs = annotation_loop r xs" for xs
  proof (induction xs)
    case (Cons x xs)
    then show ?case by (cases x) (simp only: annotation_loop.simps eq)
  qed simp
  then show ?thesis by (simp add: fun_eq_iff shouldHandle_def hasEgressAnnotation_def)
qed

lemma live_watcher_start: "good w \<Longrightarrow> peers_inv t (view w) \<Longrightarrow> live_watcher t good view (NewPodWatcher n ns w)"
  by (simp add: live_watcher_def tracked_def) (simp add: NewPodWatcher_def)

context host_live
begin

lemma live_running:
  assumes r: "live_watcher t good view r" and g: "gt_ipv4 c = fc_local4 t" "gt_ipv6 c = fc_local6 t"
    and e: "fine_event t (Inr p) req (existing_ips r)"
  shows "\<exists>r'. handlePodRunning (fou_tunnel h t) (nat_gateway_of h c) p r = (Inr (), r') \<and> live_watcher t good view r' \<and>
    existing_ips r' = (existing_ips r)(req := projr (parse_ips (pod_PodIPs p))) \<and> shouldHandle r' = shouldHandle r"
proof -
  from e obtain ips where k: "pod_key p = req" and ips: "parse_ips (pod_PodIPs p) = Inr ips" "distinct ips"
      "\<forall>a\<in>set ips. routable_addr a \<and> (fou_supports t a \<longrightarrow> makes_peer t a)"
    and ex: "set (existing_ips r req) \<subseteq> set ips" by (auto simp: fine_event_def)
  from r have w: "good (pw_world r)" "peers_inv t (view (pw_world r))" and m: "maps_ok r" and nz: "\<And>a. tracked r a \<Longrightarrow> a \<noteq> AddrZero"
    by (auto simp: live_watcher_def)
  have ex0: "a \<noteq> AddrZero" if "a \<in> set (existing_ips r (pod_key p))" for a using that nz by (auto simp: tracked_def)
  from ips(3) have ipr: "routable_addr a" and ipm: "fou_supports t a \<Longrightarrow> makes_peer t a" if "a \<in> set ips" for a using that by blast+
  from handlePodRunning_progress[OF w g ips(1) ipr ipm ex0] obtain w' where
    run: "handlePodRunning (fou_tunnel h t) (nat_gateway_of h c) p r = (Inr (), record_ips (pod_key p) ips (r\<lparr>pw_world := w'\<rparr>))"
    and w': "good w'" "peers_inv t (view w')" by blast
  let ?r' = "record_ips (pod_key p) ips (r\<lparr>pw_world := w'\<rparr>)"
  have e': "existing_ips (r\<lparr>pw_world := w'\<rparr>) = existing_ips r" by (auto simp: existing_ips_def fun_eq_iff)
  have "maps_ok ?r'"
    using m ips(2) ex k by (intro maps_ok_record) (simp_all add: e')
  moreover have "a \<noteq> AddrZero" if "tracked ?r' a" for a
    using that nz[of a] ipr[of a] by (auto simp: tracked_def e' routable_addr_def split: if_split_asm)
  ultimately have "live_watcher t good view ?r'"
    using w' by (simp add: live_watcher_def) (simp add: record_ips_def)
  moreover have "existing_ips ?r' = (existing_ips r)(req := projr (parse_ips (pod_PodIPs p)))" by (auto simp: fun_eq_iff e' ips(1) k)
  moreover have "shouldHandle ?r' = shouldHandle r" by (rule shouldHandle_cong) (simp_all add: record_ips_def)
  ultimately show ?thesis using run by blast
qed

lemma live_deletion:
  assumes r: "live_watcher t good view r"
  shows "\<exists>r'. handlePodDeletion (fou_tunnel h t) key r = (Inr (), r') \<and> live_watcher t good view r' \<and>
    existing_ips r' = (existing_ips r)(key := []) \<and> shouldHandle r' = shouldHandle r"
proof -
  from r have w: "good (pw_world r)" "peers_inv t (view (pw_world r))" "maps_ok r" and nz: "\<And>a. tracked r a \<Longrightarrow> a \<noteq> AddrZero"
    by (auto simp: live_watcher_def)
  have "a \<noteq> AddrZero" if "a \<in> set (existing_ips r key)" for a using that nz by (auto simp: tracked_def)
  with handlePodDeletion_progress[OF w, of key] obtain r' where
    run: "handlePodDeletion (fou_tunnel h t) key r = (Inr (), r')" and w': "good (pw_world r')" "peers_inv t (view (pw_world r'))" by blast
  have "fou_ok h good view (pw_world r)" using w(1) host_laws_axioms by (simp add: fou_ok_def)
  from fou.handlePodDeletion_returns[OF this w(3) run] have r': "r' = (forget key r)\<lparr>pw_world := pw_world r'\<rparr>" by blast
  then have "maps_ok r'" using maps_ok_forget[OF w(3), of key] by (metis maps_ok_world)
  moreover have "tracked r' a \<Longrightarrow> tracked r a" for a using tracked_forget[of key r a] r' by (metis tracked_def tracked_world)
  ultimately have "live_watcher t good view r'" using w' nz by (auto simp: live_watcher_def)
  moreover have "existing_ips r' = existing_ips (forget key r)" by (subst r') (auto simp: existing_ips_def fun_eq_iff)
  then have "existing_ips r' = (existing_ips r)(key := [])" by (auto simp: fun_eq_iff)
  moreover have "shouldHandle r' = shouldHandle r" by (rule shouldHandle_cong; subst r') (simp_all add: forget_def)
  ultimately show ?thesis using run by blast
qed

lemma live_Reconcile:
  assumes "live_watcher t good view r" "gt_ipv4 c = fc_local4 t" "gt_ipv6 c = fc_local6 t" "fine_event t got req (existing_ips r)"
  shows "\<exists>r'. Reconcile (fou_tunnel h t) (nat_gateway_of h c) got req r = (Inr (), r') \<and> live_watcher t good view r' \<and>
    existing_ips r' = wanted_step (shouldHandle r) (got, req) (existing_ips r) \<and> shouldHandle r' = shouldHandle r"
proof (cases got)
  case (Inl e)
  with assms(4) live_deletion[OF assms(1), of req] show ?thesis by (auto simp: fine_event_def Reconcile_def on_err_def)
next
  case (Inr p)
  show ?thesis
  proof (cases "shouldHandle r p")
    case False
    with assms(1) Inr show ?thesis by (simp add: Reconcile_def)
  next
    case True
    with Inr live_deletion[OF assms(1), of req] live_running[OF assms(1-3) assms(4)[unfolded Inr]] show ?thesis
      by (auto simp: Reconcile_def on_err_def)
  qed
qed

end

section \<open>The client\<close>

text \<open>What is still to be deleted is there.\<close>

definition listed_rules :: "family \<Rightarrow> rule list \<Rightarrow> kern \<Rightarrow> bool" where
  "listed_rules f rs K \<longleftrightarrow> routes_typed K \<and> (\<forall>r\<in>set rs. ru_Family r = f) \<and>
     mset (map rule_canon (filter (\<lambda>r. ru_Priority r = ncPrio) rs)) \<subseteq># k_rules K f"

definition listed_routes :: "family \<Rightarrow> route list \<Rightarrow> kern \<Rightarrow> bool" where
  "listed_routes f rs K \<longleftrightarrow> distinct (map (fill_route f) rs) \<and>
     (\<forall>r\<in>set rs. fill_route f r \<in> k_routes K f \<and> route_family (fill_route f r) = f)"

lemma listed_rules_del:
  assumes "listed_rules f (x # xs) K" "ru_Priority x = ncPrio"
  shows "rule_canon (fill_rule f x) \<in># k_rules K (ru_Family (fill_rule f x))"
    and "spec_RuleDel (fill_rule f x) u K K' \<Longrightarrow> listed_rules f xs K'"
proof -
  from assms show c: "rule_canon (fill_rule f x) \<in># k_rules K (ru_Family (fill_rule f x))"
    by (simp add: listed_rules_def canon_fill_rule insert_subset_eq_iff)
  show "spec_RuleDel (fill_rule f x) u K K' \<Longrightarrow> listed_rules f xs K'"
    using c assms by (simp add: listed_rules_def spec_RuleDel_def canon_fill_rule insert_subset_eq_iff routes_typed_def)
qed

lemma listed_routes_del:
  assumes "listed_routes f (x # xs) K"
  shows "fill_route f x \<in> k_routes K (route_family (fill_route f x))"
    and "spec_RouteDel (fill_route f x) u K K' \<Longrightarrow> listed_routes f xs K'"
proof -
  from assms have c: "fill_route f x \<in> k_routes K f" "route_family (fill_route f x) = f" by (auto simp: listed_routes_def)
  then show "fill_route f x \<in> k_routes K (route_family (fill_route f x))" by simp
  assume "spec_RouteDel (fill_route f x) u K K'"
  with c have K': "k_routes K' f = k_routes K f - {fill_route f x}" by (simp add: spec_RouteDel_def)
  have "fill_route f r \<noteq> fill_route f x" if "r \<in> set xs" for r
    using assms that by (auto simp: listed_routes_def image_iff)
  with assms show "listed_routes f xs K'" by (simp add: listed_routes_def K')
qed

context host_live
begin

lemma clear_rules_progress:
  "returns good view (listed_rules f rs)
     (for_each (\<lambda>r. if ru_Priority r \<noteq> ncPrio then ret () else on_err (Errorw msg) (RuleDel h (fill_rule f r))) rs) (\<lambda>_. routes_typed)"
proof (rule returns_conseq[OF returns_for_each[where I = "listed_rules f"]])
  fix x xs
  show "returns good view (listed_rules f (x # xs))
      (if ru_Priority x \<noteq> ncPrio then ret () else on_err (Errorw msg) (RuleDel h (fill_rule f x))) (\<lambda>_. listed_rules f xs)"
  proof (rule returns_if)
    show "returns good view (listed_rules f (x # xs)) (ret ()) (\<lambda>_. listed_rules f xs)" if "ru_Priority x \<noteq> ncPrio"
      using that by (intro returns_ret) (simp add: listed_rules_def)
    show "returns good view (listed_rules f (x # xs)) (on_err (Errorw msg) (RuleDel h (fill_rule f x))) (\<lambda>_. listed_rules f xs)"
      if "\<not> ru_Priority x \<noteq> ncPrio"
      using that listed_rules_del[of f x xs] by (intro returns_on_err returns_RuleDel) blast+
  qed
qed (simp_all add: listed_rules_def)

lemma clear_routes_progress:
  "returns good view (listed_routes f rs) (for_each (\<lambda>r. on_err (Errorw msg) (RouteDel h (fill_route f r))) rs) (\<lambda>_ _. True)"
  by (rule returns_conseq[OF returns_for_each[where I = "listed_routes f"]], rule returns_on_err, rule returns_RouteDel)
    (auto intro: listed_routes_del)

lemma clear_progress: "returns good view routes_typed (clear h f) (\<lambda>_ _. True)"
proof -
  have rl: "returns good view routes_typed (RuleList h f) (listed_rules f)"
  proof (rule returns_RuleList)
    fix rs K K'
    assume "routes_typed K" "spec_RuleList f rs K K'"
    moreover have "mset (map rule_canon (filter P rs)) \<subseteq># mset (map rule_canon rs)" for P
      by (simp add: image_mset_subseteq_mono)
    ultimately show "listed_rules f rs K'" by (simp add: listed_rules_def spec_RuleList_def)
  qed simp
  have qs: "returns good view routes_typed (RouteListFiltered h f ncTableID) (listed_routes f)"
  proof (rule returns_RouteListFiltered)
    fix rs K K'
    assume ty: "routes_typed K" and "spec_RouteListFiltered f ncTableID rs K K'"
    then obtain ls where K': "K' = K" and ls: "distinct ls" "set ls = {r \<in> k_routes K f. rt_Table r = ncTableID}" "list_all2 (shown_as f) ls rs"
      unfolding spec_RouteListFiltered_def by blast
    from ty ls(2) have t: "\<forall>l\<in>set ls. rt_Dst l \<noteq> None \<and> route_family l = f" by (auto simp: routes_typed_def)
    with ls(3) have "map (fill_route f) rs = ls"
      by (intro nth_equalityI) (auto simp: list_all2_conv_all_nth fill_route_shown)
    then have "distinct (map (fill_route f) rs)" "fill_route f ` set rs = set ls" using ls(1) by (auto simp flip: set_map)
    with ls(2) t show "listed_routes f rs K'" by (auto simp: listed_routes_def K')
  qed simp
  show ?thesis unfolding clear_alt
    by (rule returns_bind[OF returns_on_err[OF rl]], rule returns_bind[OF clear_rules_progress],
        rule returns_bind[OF returns_on_err[OF qs]], rule clear_routes_progress)
qed

lemma nc_init_family_progress: "returns good view routes_typed (nc_init_family h f msg) (\<lambda>_. routes_typed)"
proof -
  let ?r = "newRuleForClient f ncTableID ncPrio"
  have c: "returns good view routes_typed (clear h f) (\<lambda>_ K. True \<and> (\<exists>K0. routes_typed K0 \<and> K = cleared f K0))"
    by (rule returns_also[OF clear_progress]) (use clear_returns in blast)
  have r: "rule_canon ?r = ?r" "ru_Family ?r = f" "ru_Priority ?r = ncPrio" by (simp_all add: rule_canon_def newRuleForClient_def NewRule_def)
  have a: "returns good view (\<lambda>K. True \<and> (\<exists>K0. routes_typed K0 \<and> K = cleared f K0)) (RuleAdd h ?r) (\<lambda>_. routes_typed)"
  proof (rule returns_RuleAdd)
    fix K
    assume K: "True \<and> (\<exists>K0. routes_typed K0 \<and> K = cleared f K0)"
    then show "rule_canon ?r \<notin># k_rules K (ru_Family ?r)" by (auto simp: r cleared_def)
    from K have "routes_typed K" by (auto simp: cleared_def routes_typed_def split: if_split_asm)
    then show "spec_RuleAdd ?r u K K' \<Longrightarrow> routes_typed K'" for u K' by (simp add: spec_RuleAdd_def routes_typed_def)
  qed
  show ?thesis unfolding nc_init_family_def by (rule returns_bind[OF c returns_on_err[OF a]])
qed

lemma nc_Init_progress: "returns good view routes_typed (nc_Init h cl) (\<lambda>_. routes_typed)"
  unfolding nc_Init_def
  by (rule returns_bind, rule returns_if, rule nc_init_family_progress, rule returns_ret, assumption,
      rule returns_if, rule nc_init_family_progress, rule returns_ret, assumption)

end

text \<open>
  The routes of table 117 that are still to be added collide with none that is there:
  none of the throw routes has been added yet that is left, and no subnet's route.
\<close>

definition throws_left :: "link \<Rightarrow> netip_prefix list \<Rightarrow> kern \<Rightarrow> bool" where
  "throws_left l ns K \<longleftrightarrow> present l K \<and> link_index l \<noteq> 0 \<and> link_index l \<in> k_up K \<and> distinct (map ToIPNet ns) \<and>
     (\<forall>n\<in>set ns. no_host_bits (ToIPNet n)) \<and>
     (\<forall>f. \<forall>q\<in>k_routes K f. rt_Table q = ncTableID \<longrightarrow> rt_Priority q = throwMetric \<and> (\<forall>n\<in>set ns. rt_Dst q \<noteq> Some (ToIPNet n)))"

definition routes_left :: "link \<Rightarrow> netip_prefix list \<Rightarrow> kern \<Rightarrow> bool" where
  "routes_left l ns K \<longleftrightarrow> present l K \<and> link_index l \<noteq> 0 \<and> link_index l \<in> k_up K \<and> distinct (map ToIPNet ns) \<and>
     (\<forall>n\<in>set ns. no_host_bits (ToIPNet n)) \<and>
     (\<forall>f. \<forall>q\<in>k_routes K f. rt_Table q = ncTableID \<longrightarrow> rt_Priority q = routeMetric \<longrightarrow> (\<forall>n\<in>set ns. rt_Dst q \<noteq> Some (ToIPNet n)))"

lemma throws_left_routes:
  "throws_left l [] K \<Longrightarrow> distinct (map ToIPNet ns) \<Longrightarrow> (\<forall>n\<in>set ns. no_host_bits (ToIPNet n)) \<Longrightarrow> routes_left l ns K"
  by (auto simp: throws_left_def routes_left_def throwMetric_def routeMetric_def)

lemma stored_clean: "stored_route r s \<Longrightarrow> rt_Dst r = Some n \<Longrightarrow> no_host_bits n \<Longrightarrow> rt_Priority r \<noteq> 0 \<Longrightarrow>
  rt_Table s = rt_Table r \<and> rt_Dst s = Some n \<and> rt_Priority s = rt_Priority r"
  by (simp add: stored_route_def)

lemma throws_left_add:
  assumes "throws_left l (x # xs) K"
  shows "addable (throw_route x) K" "spec_RouteAdd (throw_route x) u K K' \<Longrightarrow> throws_left l xs K'"
proof -
  from assms show "addable (throw_route x) K"
    by (auto simp: addable_def throws_left_def throw_route_def zero_route_def)
  assume "spec_RouteAdd (throw_route x) u K K'"
  then obtain s f where s: "stored_route (throw_route x) s" and K': "K' = K\<lparr>k_routes := (k_routes K)(f := insert s (k_routes K f))\<rparr>"
    by (auto simp: spec_RouteAdd_def)
  from assms stored_clean[OF s, of "ToIPNet x"] have "rt_Dst s = Some (ToIPNet x)" "rt_Priority s = throwMetric" "ToIPNet x \<notin> ToIPNet ` set xs"
    by (auto simp: throws_left_def throw_route_def zero_route_def throwMetric_def)
  with assms show "throws_left l xs K'" by (auto simp: throws_left_def K' present_def split: if_split_asm)
qed

lemma routes_left_add:
  assumes "routes_left l (x # xs) K"
  shows "addable (subnet_route l x) K" "spec_RouteAdd (subnet_route l x) u K K' \<Longrightarrow> routes_left l xs K'"
proof -
  from assms show "addable (subnet_route l x) K"
    by (auto simp: addable_def routes_left_def subnet_route_def zero_route_def routeMetric_def present_def)
  assume "spec_RouteAdd (subnet_route l x) u K K'"
  then obtain s f where s: "stored_route (subnet_route l x) s" and K': "K' = K\<lparr>k_routes := (k_routes K)(f := insert s (k_routes K f))\<rparr>"
    by (auto simp: spec_RouteAdd_def)
  from assms stored_clean[OF s, of "ToIPNet x"] have "rt_Dst s = Some (ToIPNet x)" "ToIPNet x \<notin> ToIPNet ` set xs"
    by (auto simp: routes_left_def subnet_route_def zero_route_def routeMetric_def)
  with assms show "routes_left l xs K'" by (auto simp: routes_left_def K' present_def split: if_split_asm)
qed

definition empty_table :: "kern \<Rightarrow> bool" where
  "empty_table K \<longleftrightarrow> (\<forall>f. \<forall>r\<in>k_routes K f. rt_Table r \<noteq> ncTableID)"

context host_live
begin

lemma collectRoute1_progress:
  assumes "\<And>K. P K \<Longrightarrow> empty_table K"
  shows "returns good view P (collectRoute1 h i f) (\<lambda>C K. P K \<and> C = [])"
proof -
  have l: "returns good view P (RouteListFiltered h f ncTableID) (\<lambda>rs K. P K \<and> rs = [])"
  proof (rule returns_RouteListFiltered)
    fix rs K K'
    assume P: "P K" and "spec_RouteListFiltered f ncTableID rs K K'"
    then obtain ls where K': "K' = K" and ls: "set ls = {r \<in> k_routes K f. rt_Table r = ncTableID}" "list_all2 (shown_as f) ls rs"
      unfolding spec_RouteListFiltered_def by blast
    have "set ls = {}" unfolding ls(1) using assms[OF P] by (auto simp: empty_table_def)
    then have "ls = []" by simp
    with ls(2) P K' show "P K' \<and> rs = []" by simp
  qed simp
  show ?thesis unfolding collectRoute1_def
    by (rule returns_bind[OF returns_on_err[OF l]]) (auto simp: returns_def)
qed

lemma collectRoutes_progress:
  assumes "\<And>K. P K \<Longrightarrow> empty_table K"
  shows "returns good view P (collectRoutes h i) (\<lambda>C K. P K \<and> C = [])"
  unfolding collectRoutes_def
  by (rule returns_bind, rule returns_on_err, rule collectRoute1_progress, erule assms,
      rule returns_bind, rule returns_on_err, rule collectRoute1_progress, erule conjE, erule assms)
    (auto simp: returns_def maps_Copy_def)

lemma UpdateRoutes_progress:
  assumes ord: "ord [] = []" and ns: "distinct (map ToIPNet ns)" "\<And>n. n \<in> set ns \<Longrightarrow> no_host_bits (ToIPNet n)"
    and thr: "distinct (map ToIPNet throw_list)" "\<And>n. n \<in> set throw_list \<Longrightarrow> no_host_bits (ToIPNet n)"
  shows "returns good view (\<lambda>K. empty_table K \<and> present l K \<and> link_index l \<noteq> 0) (UpdateRoutes h ord l ns) (\<lambda>_ _. True)"
proof -
  let ?P = "\<lambda>K. empty_table K \<and> present l K \<and> link_index l \<noteq> 0"
  have col: "returns good view ?P (collectRoutes h (link_index l)) (\<lambda>C K. ?P K \<and> C = [])"
    by (rule collectRoutes_progress) simp
  have up: "returns good view ?P (LinkSetUp h l) (\<lambda>_. throws_left l throw_list)"
    by (rule returns_LinkSetUp) (use thr in \<open>auto simp: spec_LinkSetUp_def throws_left_def present_def empty_table_def\<close>)
  have t: "returns good view (throws_left l throw_list) (for_each (addThrow h) throw_list) (\<lambda>_. routes_left l ns)"
    unfolding addThrow_def
    by (rule returns_conseq[OF returns_for_each[where I = "throws_left l"]], rule returns_on_err, rule returns_RouteAdd)
      (use ns in \<open>auto intro: throws_left_add throws_left_routes\<close>)
  have a: "returns good view (routes_left l ns) (for_each (addRoute h l) ns) (\<lambda>_ _. True)"
    unfolding addRoute_def
    by (rule returns_conseq[OF returns_for_each[where I = "routes_left l"]], rule returns_on_err, rule returns_RouteAdd)
      (auto intro: routes_left_add)
  have "returns good view ?P (bind_io (on_err (Errorw ''netlink: failed to link up'') (LinkSetUp h l)) (\<lambda>_.
     bind_io (for_each (addThrow h) throw_list) (\<lambda>_.
     bind_io (for_each (addRoute h l) ns) (\<lambda>_.
     for_each (delRoute h) [])))) (\<lambda>_ _. True)"
    by (rule returns_bind[OF returns_on_err[OF up]], rule returns_bind[OF t], rule returns_bind[OF a], simp add: returns_ret)
  then have "returns good view (\<lambda>K. ?P K \<and> C = [])
      (let adds = filter (\<lambda>n. map_of C n = None) ns; sset = subnetsSet ns;
           dels = map snd (filter (\<lambda>(subnet, route). subnet |\<notin>| sset) (ord C)) in
       bind_io (on_err (Errorw ''netlink: failed to link up'') (LinkSetUp h l)) (\<lambda>_.
       bind_io (for_each (addThrow h) throw_list) (\<lambda>_.
       bind_io (for_each (addRoute h l) adds) (\<lambda>_.
       for_each (delRoute h) dels)))) (\<lambda>_ _. True)" for C
    by (cases "C = []") (simp_all add: Let_def ord, simp add: returns_def)
  then show ?thesis unfolding UpdateRoutes_def by (rule returns_bind[OF returns_on_err[OF col]])
qed

end

lemma throw_nets: "distinct (map ToIPNet throw_list)" "n \<in> set throw_list \<Longrightarrow> no_host_bits (ToIPNet n)"
proof -
  have "map ToIPNet throw_list = map (the \<circ> rt_Dst) (map throw_route throw_list)" by (simp add: throw_route_def)
  also have "\<dots> = map (\<lambda>(ip, m). \<lparr>n_IP = ip, n_Mask = m\<rparr>)
       [([10, 0, 0, 0], [255, 0, 0, 0]), ([172, 16, 0, 0], [255, 240, 0, 0]), ([192, 168, 0, 0], [255, 255, 0, 0]),
        (0xfc # replicate 15 0, 0xfe # replicate 15 0), ([169, 254, 0, 0], [255, 255, 0, 0]),
        (0xfe # 0x80 # replicate 14 0, 0xff # 0xc0 # replicate 14 0)]"
    unfolding throw_routes by simp
  finally have nets: "map ToIPNet throw_list = \<dots>" .
  show "distinct (map ToIPNet throw_list)" unfolding nets by code_simp
  have "list_all no_host_bits (map ToIPNet throw_list)" unfolding nets by code_simp
  then show "n \<in> set throw_list \<Longrightarrow> no_host_bits (ToIPNet n)" by (simp add: list_all_iff)
qed

section \<open>The daemon\<close>

text \<open>
  The cluster and the namespaces when nothing goes wrong by itself: what exists can be
  read, the namespaces \<open>paths\<close> can be opened, and \<open>Do\<close> succeeds when the computation does.
\<close>

locale ponad_live = ponad_laws h good view env pod_at egress_at service_at netns ns_path + host_live h good view
  for h :: "'k host" and good :: "'k \<Rightarrow> bool" and view :: "'k \<Rightarrow> kern" and env :: "('k, 'n) ponad_env"
    and pod_at :: "nsname \<Rightarrow> pod option" and egress_at :: "nsname \<Rightarrow> egress option" and service_at :: "nsname \<Rightarrow> service option"
    and netns :: "string \<Rightarrow> 'k \<Rightarrow> kern" and ns_path :: "'n \<Rightarrow> string" +
  fixes paths :: "string set"
  assumes live_GetPod: "pod_at n \<noteq> None \<Longrightarrow> succeeds good view (\<lambda>_. True) (pe_GetPod env n)"
    and live_GetEgress: "egress_at n \<noteq> None \<Longrightarrow> succeeds good view (\<lambda>_. True) (pe_GetEgress env n)"
    and live_GetService: "service_at n \<noteq> None \<Longrightarrow> succeeds good view (\<lambda>_. True) (pe_GetService env n)"
    and live_GetNS: "q \<in> paths \<Longrightarrow> succeeds good view (\<lambda>_. True) (pe_GetNS env q)"
    and live_Do: "good k \<Longrightarrow> (\<And>k1. good k1 \<Longrightarrow> view k1 = netns (ns_path c) k \<Longrightarrow> \<exists>k2. f k1 = (Inr (), k2)) \<Longrightarrow>
      \<exists>k'. pe_Do env c f k = (Inr (), k')"

text \<open>The destinations in their order, of the family of the gateway's address.\<close>

definition served_list :: "egress \<Rightarrow> addr \<Rightarrow> netip_prefix list" where
  "served_list eg a =
     filter (\<lambda>n. if Is4 a then Is4 (p_ip n) else Is6 (p_ip n)) (map (\<lambda>d. projr (ParsePrefix d)) (eg_Destinations eg))"

text \<open>
  An egress that can be served: its service has an IPv4 address and the pod one too, and
  its destinations parse; those of the address's family are masked, and none is there twice.
\<close>

definition servable :: "fou_controller \<Rightarrow> egress \<Rightarrow> service \<Rightarrow> bool" where
  "servable ft eg svc \<longleftrightarrow>
     (\<exists>a. ParseAddr (svc_ClusterIP svc) = Inr a \<and> makes_peer ft a \<and> (\<forall>d\<in>set (eg_Destinations eg). \<exists>n. ParsePrefix d = Inr n) \<and>
       distinct (served_list eg a) \<and> (\<forall>n\<in>set (served_list eg a). clean_prefix n))"

lemma dest_loop_all:
  "\<forall>d\<in>set ds. \<exists>n. ParsePrefix d = Inr n \<Longrightarrow>
    dest_loop fam ds acc = Inr (acc @ filter (\<lambda>n. fam (p_ip n)) (map (\<lambda>d. projr (ParsePrefix d)) ds))"
  by (induction ds arbitrary: acc) auto

lemma dummy_modules:
  "spec_LinkAdd l l' (fou_ready t K) K' \<Longrightarrow> peer_modules t \<subseteq> k_modules K'"
  by (auto simp: spec_LinkAdd_def fallbacks_appear_def fou_ready_defs peer_modules_def split: if_split_asm)

context ponad_live
begin

lemma collectDestinations_progress:
  assumes "egress_at en = Some eg" "service_at en = Some svc" "ParseAddr (svc_ClusterIP svc) = Inr a" "a \<noteq> AddrZero"
    and "\<forall>d\<in>set (eg_Destinations eg). \<exists>n. ParsePrefix d = Inr n"
  shows "returns good view P (collectDestinationsForEgress env en) (\<lambda>x K. P K \<and> x = (a, served_list eg a))"
proof -
  have e: "returns good view P (pe_GetEgress env en) (\<lambda>x K. P K \<and> x = eg)"
    by (rule returns_call[OF live_GetEgress GetEgress]) (auto simp: assms)
  have s: "returns good view (\<lambda>K. P K \<and> x = eg) (pe_GetService env en) (\<lambda>y K. P K \<and> x = eg \<and> y = svc)" for x
    by (rule returns_call[OF live_GetService GetService]) (auto simp: assms)
  show ?thesis unfolding collectDestinationsForEgress_def
    by (rule returns_bind[OF returns_on_err[OF e]], rule returns_bind[OF returns_on_err[OF s]], rule returns_fact, erule conjunct2)
      (use assms(3,4) dest_loop_all[OF assms(5)] in \<open>cases a; auto simp: returns_def served_list_def\<close>)
qed

lemma add_egress_progress:
  assumes ord: "ord [] = []" and en: "egress_at en = Some eg" "service_at en = Some svc" and ok: "servable ft eg svc"
  shows "returns good view (\<lambda>K. fresh_ns K \<and> peers_inv ft K) (add_egress env h ord ft en) (\<lambda>_ _. True)"
proof -
  from ok obtain a where a: "ParseAddr (svc_ClusterIP svc) = Inr a" "makes_peer ft a" "\<forall>d\<in>set (eg_Destinations eg). \<exists>n. ParsePrefix d = Inr n"
    and ns: "distinct (served_list eg a)" "\<forall>n\<in>set (served_list eg a). clean_prefix n" unfolding servable_def by blast
  from a(2) have nz: "a \<noteq> AddrZero" by (auto simp: makes_peer_def)
  let ?P = "\<lambda>K. fresh_ns K \<and> peers_inv ft K" and ?Q = "\<lambda>l K. empty_table K \<and> present l K \<and> link_index l \<noteq> 0"
  have "returns good view ?P (AddPeer h ft a) (\<lambda>l K. peers_inv ft K \<and> empty_table K \<and> (\<exists>n. fouName a = Inr n \<and> k_links K n = Some l \<and> link_name l = n))"
  proof (rule returns_also[OF returns_pre[OF AddPeer_progress[OF a(2)]]])
    fix k l k'
    assume "good k" "?P (view k)" "AddPeer h ft a k = (Inr l, k')"
    with AddPeer_returns[of k ft a l k'] show "empty_table (view k') \<and> (\<exists>n. fouName a = Inr n \<and> k_links (view k') n = Some l \<and> link_name l = n)"
      by (auto simp: peer_added_def empty_table_def fresh_ns_def)
  qed simp
  then have peer: "returns good view ?P (AddPeer h ft a) ?Q"
    by (rule returns_conseq) (use fouName_not_aux[of a] in \<open>auto simp: present_def flow_inv_def\<close>)
  have "inj_on ToIPNet (set (served_list eg a))" using ns(2) ToIPNet_inject by (auto intro!: inj_onI)
  then have "distinct (map ToIPNet (served_list eg a))" using ns(1) by (simp add: distinct_map)
  moreover have "no_host_bits (ToIPNet n)" if "n \<in> set (served_list eg a)" for n using ns(2) that by (auto simp: clean_prefix_def)
  ultimately have upd: "returns good view (?Q l) (UpdateRoutes h ord l (served_list eg a)) (\<lambda>_ _. True)" for l
    by (rule UpdateRoutes_progress[where ord = ord, OF ord _ _ throw_nets])
  have rest: "returns good view (\<lambda>K. ?P K \<and> x = (a, served_list eg a)) (case x of (g, ds) \<Rightarrow>
     bind_io (on_err (\<lambda>e. newInternalError env e (''failed to add peer for '' @ pe_AddrString env g)) (AddPeer h ft g)) (\<lambda>link.
     on_err (\<lambda>e. newInternalError env e ''failed to update routes'') (UpdateRoutes h ord link ds))) (\<lambda>_ _. True)" for x
  proof (rule returns_fact, erule conjunct2)
    assume "x = (a, served_list eg a)"
    then show "returns good view (\<lambda>K. ?P K \<and> x = (a, served_list eg a)) (case x of (g, ds) \<Rightarrow>
       bind_io (on_err (\<lambda>e. newInternalError env e (''failed to add peer for '' @ pe_AddrString env g)) (AddPeer h ft g)) (\<lambda>link.
       on_err (\<lambda>e. newInternalError env e ''failed to update routes'') (UpdateRoutes h ord link ds))) (\<lambda>_ _. True)"
      using returns_bind[OF returns_on_err[OF peer] returns_on_err[OF upd]] by (auto intro: returns_pre)
  qed
  show ?thesis unfolding add_egress_def
    by (rule returns_bind[OF returns_on_err[OF collectDestinations_progress[OF en a(1) nz a(3)]] rest])
qed

lemma start_progress:
  assumes ft: "NewFoUTunnelController p l4 l6 = Inr ft"
  shows "returns good view (\<lambda>K. new_ns K \<and> startable ft {FAMILY_V4, FAMILY_V6} K) (fou_Init h ft) (\<lambda>_ K. peers_inv ft K \<and> fresh_ns K)"
proof (rule returns_conseq[OF returns_also[OF returns_pre[OF fou_Init_progress]]])
  fix k x k'
  assume "good k" and K: "new_ns (view k) \<and> startable ft {FAMILY_V4, FAMILY_V6} (view k)" and "fou_Init h ft k = (Inr x, k')"
  with fou_Init_returns[of k ft x k'] obtain l where
    l: "spec_LinkAdd (Dummy (NewLinkAttrs\<lparr>la_Name := fouDummy\<rparr>)) l (fou_ready ft (view k)) (view k')" by (auto simp: new_ns_def)
  from fresh_dummy[OF _ _ _ l, of "view k"] K dummy_modules[OF l] show "fresh_ns (view k') \<and> peer_modules ft \<subseteq> k_modules (view k')"
    by (simp add: new_ns_def)
qed (auto simp: startable_def intro: flow_inv_modules)

lemma client_progress:
  "returns good view (\<lambda>K. peers_inv ft K \<and> fresh_ns K) (nc_Init h cl) (\<lambda>_ K. peers_inv ft K \<and> fresh_ns K)"
proof (rule returns_conseq[OF returns_also[OF returns_pre[OF nc_Init_progress]]])
  fix k x k'
  assume "good k" and K: "peers_inv ft (view k) \<and> fresh_ns (view k)" and "nc_Init h cl k = (Inr x, k')"
  from nc_Init_returns[OF this(1) fresh_typed this(3)] K have v: "view k' = (if nc_useipv6 cl then client_ready FAMILY_V6 else id)
      ((if nc_useipv4 cl then client_ready FAMILY_V4 else id) (view k))" by blast
  have "k_links (view k') = k_links (view k)" "k_modules (view k') = k_modules (view k)"
    by (simp_all add: v client_ready_def with_rule_def cleared_def)
  with K rules_ready(3)[OF v] show "peers_inv ft (view k') \<and> fresh_ns (view k')" by (simp add: flow_inv_def)
qed (simp_all add: fresh_typed)

lemma setup_pod_progress:
  assumes ord: "ord [] = []" and ft: "NewFoUTunnelController (sv_egressPort s) l4 l6 = Inr ft"
    and en: "egress_at en = Some eg" "service_at en = Some svc" and ok: "servable ft eg svc"
  shows "returns good view (\<lambda>K. new_ns K \<and> startable ft {FAMILY_V4, FAMILY_V6} K) (setup_pod env h ord s l4 l6 [en]) (\<lambda>_ _. True)"
proof -
  from ok have "l4 \<noteq> None \<or> l6 \<noteq> None" using NewFoU_fields[OF ft] by (auto simp: servable_def makes_peer_def)
  then obtain nt where nt: "NewNatClient (l4 \<noteq> None) (l6 \<noteq> None) = Inr nt" by (auto simp: NewNatClient_def)
  have one: "returns good view (\<lambda>K. peers_inv ft K \<and> fresh_ns K) (for_each (add_egress env h ord ft) [en]) (\<lambda>_ _. True)"
    unfolding for_each.simps
    by (rule returns_bind[OF returns_pre[OF add_egress_progress[where ord = ord, OF ord en ok]]]) (simp_all add: returns_ret)
  show ?thesis unfolding setup_pod_def ft nt sum.case
    by (rule returns_bind[OF returns_on_err[OF start_progress[OF ft]]], rule returns_bind[OF returns_on_err[OF client_progress] one])
qed

lemma Add_live:
  assumes g: "good k" and ns: "new_ns (netns (ca_Netns args) k)" "startable ft {FAMILY_V4, FAMILY_V6} (netns (ca_Netns args) k)"
    and path: "ca_Netns args \<in> paths" and ord: "ord [] = []"
    and pod: "pod_arg PodNameKey args \<noteq> []" "pod_arg PodNamespaceKey args \<noteq> []"
      "pod_at \<lparr>nn_Namespace = pod_arg PodNamespaceKey args, nn_Name = pod_arg PodNameKey args\<rparr> = Some pod" "listEgress pod = [en]"
    and prev: "GetPrevResult lib args = Inr p" "json_Marshal lib p = Inr b" "local_loop (result_IPs lib p) None None = Inr (l4, l6)"
      "NewFoUTunnelController (sv_egressPort s) l4 l6 = Inr ft"
    and en: "egress_at en = Some eg" "service_at en = Some svc" "servable ft eg svc"
  shows "\<exists>k'. Add env lib h ord s args k = (Inr b, k')"
proof -
  let ?f = "setup_pod env h ord s l4 l6 [en]"
  from live_GetPod pod(3) g obtain x k1 where gp: "pe_GetPod env \<lparr>nn_Namespace = pod_arg PodNamespaceKey args, nn_Name = pod_arg PodNameKey args\<rparr> k = (Inr x, k1)"
    unfolding succeeds_def by blast
  from GetPod[OF g gp] pod(3) have x: "x = pod" "good k1" "netns q k1 = netns q k" for q by auto
  from live_GetNS[OF path] x(2) obtain c k2 where gn: "pe_GetNS env (ca_Netns args) k1 = (Inr c, k2)" unfolding succeeds_def by blast
  from GetNS[OF x(2) gn] x(3) have c: "good k2" "ns_path c = ca_Netns args" "netns (ca_Netns args) k2 = netns (ca_Netns args) k" by auto
  have "\<exists>k4. ?f k3 = (Inr (), k4)" if "good k3" "view k3 = netns (ns_path c) k2" for k3
  proof -
    from that c ns have "new_ns (view k3) \<and> startable ft {FAMILY_V4, FAMILY_V6} (view k3)" by simp
    from setup_pod_progress[where ord = ord, OF ord prev(4) en, THEN returns_unit, OF \<open>good k3\<close> this] show ?thesis by blast
  qed
  with live_Do[OF c(1), of c ?f] obtain k' where "pe_Do env c ?f k2 = (Inr (), k')" by blast
  then have "Add env lib h ord s args k = (Inr b, k')"
    using pod(1,2,4) prev gp gn by (simp add: Add_def Let_def bind_io_def on_err_def x(1))
  then show ?thesis by blast
qed

end

interpretation psl: ponad_live sim_host sim_good sim_view "sim_env P E S" P E S "\<lambda>_. sim_view" "\<lambda>p. p" UNIV
  for P E S
  by unfold_locales (auto simp: sim_env_def sim_get_def succeeds_def split: option.splits)

end
