(* ===== verification/ClientRoutes.thy ===== *)
theory ClientRoutes
  imports Progress
begin

text \<open>
  The way back to the clients: the gateway's table 118. Each of its routes leads to the
  address of a client through the tunnel device of that address, and a device that goes
  takes its routes with it and no others. So every tracked address keeps its route, from
  the call that adds it to the one that drops it.
\<close>

section \<open>The table\<close>

definition route_to :: "kern \<Rightarrow> addr \<Rightarrow> link \<Rightarrow> bool" where
  "route_to K a l \<longleftrightarrow>
     (\<exists>f. \<exists>r\<in>k_routes K f. rt_Table r = egressTableID \<and> rt_Dst r = Some (NewIPNet (FromAddr a)) \<and> rt_LinkIndex r = link_index l)"

definition client_served :: "kern \<Rightarrow> addr \<Rightarrow> bool" where
  "client_served K a \<longleftrightarrow> (\<exists>n l. fouName a = Inr n \<and> k_links K n = Some l \<and> route_to K a l)"

text \<open>The devices, but for those the code sets up beside the peers', have indexes of their own.\<close>

definition own_index :: "kern \<Rightarrow> bool" where
  "own_index K \<longleftrightarrow>
     (\<forall>n l. n \<notin> aux_names \<longrightarrow> k_links K n = Some l \<longrightarrow> link_index l \<noteq> 0) \<and>
     (\<forall>m n l l'. m \<notin> aux_names \<longrightarrow> n \<notin> aux_names \<longrightarrow> k_links K m = Some l \<longrightarrow> k_links K n = Some l' \<longrightarrow> link_index l = link_index l' \<longrightarrow> m = n)"

definition own_table :: "kern \<Rightarrow> bool" where
  "own_table K \<longleftrightarrow> (\<forall>f. \<forall>r\<in>k_routes K f. rt_Table r = egressTableID \<longrightarrow>
     (\<exists>a n l. routable_addr a \<and> rt_Dst r = Some (NewIPNet (FromAddr a)) \<and> fouName a = Inr n \<and> k_links K n = Some l \<and> rt_LinkIndex r = link_index l))"

definition table_inv :: "kern \<Rightarrow> bool" where
  "table_inv K \<longleftrightarrow> own_index K \<and> own_table K"

text \<open>Links stay or are added under new names, and routes stay.\<close>

definition links_grow :: "kern \<Rightarrow> kern \<Rightarrow> bool" where
  "links_grow K K' \<longleftrightarrow> (\<forall>n l. n \<notin> aux_names \<longrightarrow> k_links K n = Some l \<longrightarrow> k_links K' n = Some l) \<and> (\<forall>f. k_routes K f \<subseteq> k_routes K' f)"

lemma links_grow_served: "links_grow K K' \<Longrightarrow> client_served K a \<Longrightarrow> client_served K' a"
  unfolding client_served_def route_to_def links_grow_def using fouName_not_aux by blast

lemma own_table_grow:
  assumes "own_table K" "links_grow K K'" "\<And>f r. r \<in> k_routes K' f \<Longrightarrow> rt_Table r = egressTableID \<Longrightarrow> r \<notin> k_routes K f \<Longrightarrow>
    \<exists>a n l. routable_addr a \<and> rt_Dst r = Some (NewIPNet (FromAddr a)) \<and> fouName a = Inr n \<and> k_links K' n = Some l \<and> rt_LinkIndex r = link_index l"
  shows "own_table K'"
  unfolding own_table_def
proof (intro allI ballI impI)
  fix f r
  assume r: "r \<in> k_routes K' f" "rt_Table r = egressTableID"
  show "\<exists>a n l. routable_addr a \<and> rt_Dst r = Some (NewIPNet (FromAddr a)) \<and> fouName a = Inr n \<and> k_links K' n = Some l \<and> rt_LinkIndex r = link_index l"
  proof (cases "r \<in> k_routes K f")
    case True
    with assms(1) r(2) obtain a n l where "routable_addr a" "rt_Dst r = Some (NewIPNet (FromAddr a))" "fouName a = Inr n" "k_links K n = Some l" "rt_LinkIndex r = link_index l"
      unfolding own_table_def by blast
    with assms(2) fouName_not_aux[of a n] show ?thesis unfolding links_grow_def by blast
  qed (use assms(3) r in blast)
qed

text \<open>A new device has an index of its own and no routes.\<close>

lemma table_inv_cong: "k_links K' = k_links K \<Longrightarrow> k_routes K' = k_routes K \<Longrightarrow> table_inv K' = table_inv K"
  by (simp add: table_inv_def own_index_def own_table_def)

lemma table_inv_LinkAdd:
  assumes s: "spec_LinkAdd l l' K K'" and T: "table_inv K"
  shows "table_inv K'"
proof -
  from s obtain M where M: "fallbacks_appear K M" "k_links M (link_name l) = None" and K': "K' = M\<lparr>k_links := (k_links M)(link_name l \<mapsto> l')\<rparr>"
    and f: "fresh_index K (link_index l')" by (auto simp: spec_LinkAdd_def)
  have L: "k_links K' n = (if n = link_name l then Some l' else k_links K n)" if "n \<notin> aux_names" for n
    using that fallbacks_other[OF M(1), of n] by (auto simp: K' aux_names_def)
  have R: "k_routes K' = k_routes K" using M(1) by (auto simp: K' fallbacks_appear_def)
  have f': "link_index l' \<noteq> 0" "\<And>n l. k_links K n = Some l \<Longrightarrow> link_index l \<noteq> link_index l'" using f by (auto simp: fresh_index_def)
  have new: "link_index x \<noteq> link_index l'" if "n \<notin> aux_names" "n \<noteq> link_name l" "k_links K' n = Some x" for n x
    using that L[of n] f'(2) by simp
  have "own_index K'" unfolding own_index_def
  proof (intro conjI allI impI)
    fix n x
    assume "n \<notin> aux_names" "k_links K' n = Some x"
    then show "link_index x \<noteq> 0" using T f'(1) L[of n] unfolding table_inv_def own_index_def by (cases "n = link_name l") auto
  next
    fix m n x y
    assume a: "m \<notin> aux_names" "n \<notin> aux_names" "k_links K' m = Some x" "k_links K' n = Some y" "link_index x = link_index y"
    consider "m = n" | "m \<noteq> n" "m = link_name l" | "m \<noteq> n" "n = link_name l" | "m \<noteq> link_name l" "n \<noteq> link_name l" by blast
    then show "m = n"
    proof cases
      case 4
      with a L have "k_links K m = Some x" "k_links K n = Some y" by auto
      with a T show ?thesis unfolding table_inv_def own_index_def by blast
    qed (use a L[of m] L[of n] new[of m x] new[of n y] in auto)
  qed
  moreover have "links_grow K K'" using L s by (auto simp: links_grow_def R spec_LinkAdd_def)
  then have "own_table K'" by (rule own_table_grow[rotated]) (use T in \<open>simp_all add: table_inv_def R\<close>)
  ultimately show ?thesis by (simp add: table_inv_def)
qed

lemma table_inv_empty: "own_index K \<Longrightarrow> (\<And>f r. r \<in> k_routes K f \<Longrightarrow> rt_Table r \<noteq> egressTableID) \<Longrightarrow> table_inv K"
  by (auto simp: table_inv_def own_table_def)

text \<open>The address of a host route is the address it was made for, but for its zone.\<close>

lemma IP_Equal_routable:
  assumes "routable_addr a" "routable_addr b" "IP_Equal (FromAddr b) (FromAddr a)"
  shows "FromAddr a = FromAddr b" "fouName a = fouName b"
proof -
  show eq: "FromAddr a = FromAddr b"
    using assms by (cases a; cases b) (auto simp: routable_addr_def IP_Equal_def FromAddr_def)
  then show "fouName a = fouName b"
    using assms(1,2) by (cases a; cases b) (auto simp: routable_addr_def FromAddr_def fouName_def dest: arg_cong[where f = length])
qed

context host_laws
begin

lemma AddPeer_table:
  assumes g: "good k" and T: "table_inv (view k)" and c: "AddPeer h t a k = (Inr l, k')"
  shows "good k' \<and> table_inv (view k') \<and> links_grow (view k) (view k') \<and> (\<exists>n. fouName a = Inr n \<and> k_links (view k') n = Some l)"
proof -
  from AddPeer_returns[OF g c] obtain n where n: "fouName a = Inr n" and k': "good k'" "peer_added n (view k) (view k')" "k_links (view k') n = Some l"
    by blast
  have grow: "links_grow (view k) (view k')" using k'(2) by (auto simp: peer_added_def links_grow_def)
  have other: "k_links (view k') m = k_links (view k) m" if "m \<notin> aux_names" "m \<noteq> n \<or> k_links (view k) n \<noteq> None" for m
    using k'(2) that by (cases "m = n") (auto simp: peer_added_def)
  have "own_index (view k')"
  proof (cases "k_links (view k) n = None")
    case False
    with other T show ?thesis unfolding table_inv_def own_index_def by metis
  next
    case True
    from AddPeer_new[OF g c n this] have "fresh_index (view k) (link_index l)" by blast
    with other T k'(3) show ?thesis unfolding table_inv_def own_index_def fresh_index_def by (metis option.inject)
  qed
  moreover have "own_table (view k')"
    by (rule own_table_grow[OF _ grow]) (use T k'(2) in \<open>auto simp: table_inv_def peer_added_def\<close>)
  ultimately show ?thesis using k'(1,3) grow n by (auto simp: table_inv_def)
qed

lemma AddClient_table:
  assumes g: "good k" and T: "table_inv (view k)" and a: "routable_addr a" and n: "fouName a = Inr n" "k_links (view k) n = Some l"
    and c: "AddClient h c a l k = (Inr u, k')"
  shows "good k' \<and> table_inv (view k') \<and> links_grow (view k) (view k') \<and> client_served (view k') a"
proof -
  let ?f = "if Is6 a then FAMILY_V6 else FAMILY_V4"
  from c obtain rs k1 where rs: "RouteListFiltered h ?f egressTableID k = (Inr rs, k1)"
    and rest: "(\<exists>r\<in>set rs. case rt_Dst r of None \<Rightarrow> False | Some d \<Rightarrow> IP_Equal (n_IP d) (FromAddr a)) \<and> k' = k1 \<or>
      (\<exists>v k2. LinkSetUp h l k1 = (Inr v, k2) \<and> RouteAdd h (client_route a l) k2 = (Inr u, k'))"
    by (auto simp: AddClient_def io_inv split: if_splits)
  from meets_Inr[OF RouteListFiltered rs g] obtain ls where k1: "good k1" "view k1 = view k"
    and ls: "set ls = {r \<in> k_routes (view k) ?f. rt_Table r = egressTableID}" "list_all2 (shown_as ?f) ls rs"
    by (auto simp: spec_RouteListFiltered_def)
  from rest show ?thesis
  proof (elim disjE conjE exE bexE)
    fix r
    assume k': "k' = k1" and r: "r \<in> set rs" "case rt_Dst r of None \<Rightarrow> False | Some d \<Rightarrow> IP_Equal (n_IP d) (FromAddr a)"
    from r(1) ls(2) obtain q where "q \<in> set ls" "shown_as ?f q r"
      by (metis in_set_conv_nth list_all2_conv_all_nth)
    with r(2) have "r \<in> set ls" by (auto simp: shown_as_def split: option.splits)
    with ls(1) have rt: "r \<in> k_routes (view k) ?f" "rt_Table r = egressTableID" by auto
    with T obtain b m l' where b: "routable_addr b" "rt_Dst r = Some (NewIPNet (FromAddr b))" "fouName b = Inr m" "k_links (view k) m = Some l'"
      "rt_LinkIndex r = link_index l'" unfolding table_inv_def own_table_def by blast
    from r(2) b(1,2) have "IP_Equal (FromAddr b) (FromAddr a)" by (simp add: NewIPNet_host)
    from IP_Equal_routable[OF a b(1) this] b n have "rt_Dst r = Some (NewIPNet (FromAddr a))" "rt_LinkIndex r = link_index l" by auto
    with rt n have "client_served (view k) a" unfolding client_served_def route_to_def by blast
    with T k1 k' show ?thesis by (auto simp: links_grow_def)
  next
    fix v k2
    assume up: "LinkSetUp h l k1 = (Inr v, k2)" and add: "RouteAdd h (client_route a l) k2 = (Inr u, k')"
    from meets_Inr[OF LinkSetUp up k1(1)] have k2: "good k2" "k_links (view k2) = k_links (view k)" "k_routes (view k2) = k_routes (view k)"
      by (auto simp: spec_LinkSetUp_def k1(2))
    from meets_Inr[OF RouteAdd add k2(1)] obtain s where s: "stored_route (client_route a l) s" and k': "good k'"
      "view k' = (view k2)\<lparr>k_routes := (k_routes (view k2))(route_family (client_route a l) := insert s (k_routes (view k2) (route_family (client_route a l))))\<rparr>"
      by (auto simp: spec_RouteAdd_def)
    have "link_index l \<noteq> 0" using T n fouName_not_aux[OF n(1)] unfolding table_inv_def own_index_def by blast
    with s NewIPNet_host[OF a] have sr: "rt_Table s = egressTableID" "rt_Dst s = Some (NewIPNet (FromAddr a))" "rt_LinkIndex s = link_index l"
      by (auto simp: stored_route_def client_route_def zero_route_def)
    have grow: "links_grow (view k) (view k')" using k2 by (auto simp: links_grow_def k'(2))
    have "own_table (view k')"
    proof (rule own_table_grow[OF _ grow])
      fix f r
      assume "r \<in> k_routes (view k') f" "r \<notin> k_routes (view k) f"
      then have "r = s" using k2(3) by (auto simp: k'(2) split: if_split_asm)
      with sr a n k2(2) show "\<exists>a n l. routable_addr a \<and> rt_Dst r = Some (NewIPNet (FromAddr a)) \<and> fouName a = Inr n \<and> k_links (view k') n = Some l \<and> rt_LinkIndex r = link_index l"
        by (intro exI[of _ a] exI[of _ n] exI[of _ l]) (simp add: k'(2))
    qed (use T in \<open>simp add: table_inv_def\<close>)
    moreover have "own_index (view k')" using T k2(2) by (simp add: table_inv_def own_index_def k'(2))
    moreover have "client_served (view k') a" unfolding client_served_def route_to_def
      using sr n k2(2) by (intro exI[of _ n] exI[of _ l] conjI exI[of _ "route_family (client_route a l)"] bexI[of _ s]) (simp_all add: k'(2))
    ultimately show ?thesis using k'(1) grow by (simp add: table_inv_def)
  qed
qed

lemma Init_table:
  assumes "good k" "table_inv (view k)"
  shows "fou_Init h t k = (Inr u, k') \<Longrightarrow> table_inv (view k')" "gateway_Init h c k = (Inr u, k') \<Longrightarrow> table_inv (view k')"
proof -
  have "table_inv (fou_ready t (view k))" using assms(2) by (subst table_inv_cong) simp_all
  then show "table_inv (view k')" if "fou_Init h t k = (Inr u, k')"
    using fou_Init_returns[OF assms(1) that] assms(2) table_inv_LinkAdd by (auto split: if_split_asm)
  have "table_inv (gateway_ready c (view k))" using assms(2)
    by (subst table_inv_cong) (auto simp: gateway_ready_def gateway_ready_family_def set_chain_def split: option.splits)
  then show "table_inv (view k')" if "gateway_Init h c k = (Inr u, k')"
    using gateway_Init_returns[OF assms(1) that] assms(2) table_inv_LinkAdd by (auto split: if_split_asm)
qed

lemma DelPeer_table:
  assumes g: "good k" and T: "table_inv (view k)" and a: "a \<noteq> AddrZero" and c: "DelPeer h t a k = (Inr u, k')"
  shows "good k' \<and> table_inv (view k') \<and> (\<forall>b. fouName b \<noteq> fouName a \<longrightarrow> client_served (view k) b \<longrightarrow> client_served (view k') b)"
proof -
  from a obtain n where n: "fouName a = Inr n" using fouName_Inr_iff by blast
  note na = fouName_not_aux[OF n]
  from DelPeer_run[OF g n c] have k': "good k'" "k_links (view k') = (k_links (view k))(n := None)" by auto
  show ?thesis
  proof (cases "k_links (view k) n")
    case None
    obtain q s where q: "LinkByName h n k = (q, s)" by fastforce
    with None meets_run[OF LinkByName q g] c n have "view k' = view k"
      by (cases q) (auto simp: DelPeer_def catch_eq spec_LinkByName_def fail_LinkByName_def split: if_splits)
    with T k'(1) show ?thesis by simp
  next
    case (Some l)
    from DelPeer_there[OF g n Some c] have rt: "k_routes (view k') f = {r \<in> k_routes (view k) f. rt_LinkIndex r \<noteq> link_index l}" for f
      by (simp add: spec_LinkDel_def)
    have ix: "link_index l' \<noteq> link_index l" if "m \<notin> aux_names" "m \<noteq> n" "k_links (view k) m = Some l'" for m l'
      using T na Some that unfolding table_inv_def own_index_def by metis
    have "own_index (view k')" using T unfolding table_inv_def own_index_def k'(2) by (metis fun_upd_apply option.distinct(1))
    moreover have "own_table (view k')" unfolding own_table_def
    proof (intro allI ballI impI)
      fix f r
      assume r: "r \<in> k_routes (view k') f" "rt_Table r = egressTableID"
      with T rt obtain b m l' where b: "routable_addr b" "rt_Dst r = Some (NewIPNet (FromAddr b))" "fouName b = Inr m" "k_links (view k) m = Some l'"
        "rt_LinkIndex r = link_index l'" unfolding table_inv_def own_table_def by blast
      with r(1) rt Some have "m \<noteq> n" by auto
      with b show "\<exists>a n l. routable_addr a \<and> rt_Dst r = Some (NewIPNet (FromAddr a)) \<and> fouName a = Inr n \<and> k_links (view k') n = Some l \<and> rt_LinkIndex r = link_index l"
        by (auto simp: k'(2))
    qed
    moreover have "client_served (view k') b" if b: "fouName b \<noteq> fouName a" "client_served (view k) b" for b
    proof -
      from b(2) obtain m l' f r where m: "fouName b = Inr m" "k_links (view k) m = Some l'" and r: "r \<in> k_routes (view k) f"
        "rt_Table r = egressTableID" "rt_Dst r = Some (NewIPNet (FromAddr b))" "rt_LinkIndex r = link_index l'"
        unfolding client_served_def route_to_def by blast
      from b(1) m(1) n have "m \<noteq> n" by auto
      with m r ix[OF fouName_not_aux[OF m(1), THEN conjunct1]] have "k_links (view k') m = Some l'" "r \<in> k_routes (view k') f" by (auto simp: k'(2) rt)
      with m r show ?thesis unfolding client_served_def route_to_def by blast
    qed
    ultimately show ?thesis using k'(1) by (simp add: table_inv_def)
  qed
qed

end

section \<open>The watcher\<close>

text \<open>No two tracked addresses have tunnel devices of the same name.\<close>

definition names_differ :: "(nsname \<Rightarrow> addr list) \<Rightarrow> bool" where
  "names_differ m \<longleftrightarrow> (\<forall>j k. \<forall>x\<in>set (m j). \<forall>y\<in>set (m k). fouName x = fouName y \<longrightarrow> x = y)"

definition clients_inv :: "fou_controller \<Rightarrow> ('k \<Rightarrow> kern) \<Rightarrow> 'k pod_watcher \<Rightarrow> bool" where
  "clients_inv t view r \<longleftrightarrow> table_inv (view (pw_world r)) \<and> (\<forall>a. tracked r a \<longrightarrow> fou_supports t a \<longrightarrow> client_served (view (pw_world r)) a)"

lemma links_grow_refl [simp]: "links_grow K K"
  by (simp add: links_grow_def)

lemma links_grow_trans: "links_grow K L \<Longrightarrow> links_grow L M \<Longrightarrow> links_grow K M"
  unfolding links_grow_def by blast

context host_laws
begin


lemma running_add_table:
  assumes g: "good k" and T: "table_inv (view k)" and a: "routable_addr a" and c: "running_add (fou_tunnel h t) (nat_gateway_of h c) ex a k = (Inr u, k')"
  shows "good k' \<and> table_inv (view k') \<and> links_grow (view k) (view k') \<and> (a \<notin> set ex \<longrightarrow> fou_supports t a \<longrightarrow> client_served (view k') a)"
proof (cases "a \<in> set ex")
  case True
  with c g T show ?thesis by (simp add: running_add_def)
next
  case False
  obtain p k1 where p: "AddPeer h t a k = (p, k1)" by fastforce
  show ?thesis
  proof (cases p)
    case (Inl e)
    with c p False have "k' = k1" "errors_Is e ErrIPFamilyMismatch"
      by (auto simp: running_add_def fou_tunnel_def catch_eq split: if_splits)
    with AddPeer_fails[OF g p[unfolded Inl]] g T show ?thesis by (auto simp: foreign_def)
  next
    case (Inr l)
    from AddPeer_table[OF g T p[unfolded Inr]] obtain n where k1: "good k1" "table_inv (view k1)" "links_grow (view k) (view k1)"
      and n: "fouName a = Inr n" "k_links (view k1) n = Some l" by blast
    from c p Inr False have "AddClient h c a l k1 = (Inr u, k')"
      by (auto simp: running_add_def fou_tunnel_def nat_gateway_of_def catch_eq on_err_Inr)
    from AddClient_table[OF k1(1,2) a n this] k1(3) show ?thesis using links_grow_trans by blast
  qed
qed

lemma adds_table:
  assumes g: "good k" and T: "table_inv (view k)" and ips: "\<forall>a\<in>set ips. routable_addr a"
    and loop: "for_each (running_add (fou_tunnel h t) (nat_gateway_of h c) ex) ips k = (Inr u, k')"
  shows "good k' \<and> table_inv (view k') \<and> links_grow (view k) (view k') \<and>
    (\<forall>a\<in>set ips. a \<notin> set ex \<longrightarrow> fou_supports t a \<longrightarrow> client_served (view k') a)"
proof (rule for_each_done[OF loop, where P = "\<lambda>ys s. good s \<and> table_inv (view s) \<and> links_grow (view k) (view s) \<and>
    (\<forall>a\<in>set ys. a \<notin> set ex \<longrightarrow> fou_supports t a \<longrightarrow> client_served (view s) a)"], goal_cases)
  case 1
  from g T show ?case by simp
next
  case (2 ys x zs s q s')
  then have x: "routable_addr x" using ips by simp
  from 2(2) have s: "good s" "table_inv (view s)" "links_grow (view k) (view s)"
    and ys: "\<And>a. a \<in> set ys \<Longrightarrow> a \<notin> set ex \<Longrightarrow> fou_supports t a \<Longrightarrow> client_served (view s) a" by blast+
  from running_add_table[OF s(1,2) x 2(3)] have s': "good s'" "table_inv (view s')" "links_grow (view s) (view s')"
    and new: "x \<notin> set ex \<Longrightarrow> fou_supports t x \<Longrightarrow> client_served (view s') x" by blast+
  show ?case using s'(1,2) links_grow_trans[OF s(3) s'(3)] links_grow_served[OF s'(3)] ys new by auto
qed

lemma handlePodRunning_clients:
  assumes g: "good (pw_world r)" and I: "clients_inv t view r" and e: "fine_event t (Inr p) req (existing_ips r)"
    and c: "handlePodRunning (fou_tunnel h t) (nat_gateway_of h c) p r = (Inr u, r')"
  shows "clients_inv t view r'"
proof -
  from e obtain ips where k: "pod_key p = req" and ips: "parse_ips (pod_PodIPs p) = Inr ips" "\<forall>a\<in>set ips. routable_addr a"
    and ex: "set (existing_ips r req) \<subseteq> set ips" by (auto simp: fine_event_def)
  let ?ex = "existing_ips r req"
  from c obtain v w where loop: "for_each (running_add (fou_tunnel h t) (nat_gateway_of h c) ?ex) ips (pw_world r) = (Inr v, w)"
    and r': "r' = record_ips req ips (r\<lparr>pw_world := w\<rparr>)"
    unfolding handlePodRunning_grow[OF ips(1) ex[folded k]] by (auto simp: k split: prod.splits sum.splits)
  have T: "table_inv (view (pw_world r))" using I by (simp add: clients_inv_def)
  have "\<forall>a\<in>set ips. routable_addr a" using ips(2) by blast
  note A = adds_table[OF g T this loop]
  have "tracked r' a \<longleftrightarrow> tracked r a \<or> a \<in> set ips" for a
    unfolding r' using tracked_record[of "r\<lparr>pw_world := w\<rparr>" req ips] ex by (simp add: existing_ips_def)
  moreover have "pw_world r' = w" by (simp add: r' record_ips_def)
  ultimately show ?thesis using A I links_grow_served unfolding clients_inv_def tracked_def[of r] by metis
qed

text \<open>The addresses of \<open>key\<close> that no other pod has go, with their devices and routes; the others stay.\<close>

lemma deletion_loop_clients:
  assumes g: "good (pw_world r)" and T: "table_inv (view (pw_world r))" and nd: "names_differ (existing_ips r)" and m: "maps_ok r"
    and nz: "\<And>a. tracked r a \<Longrightarrow> a \<noteq> AddrZero" and c: "for_each (deletion_step (fou_tunnel h t) key) (existing_ips r key) r = (Inr u, r')"
  shows "table_inv (view (pw_world r')) \<and>
    (\<forall>b. tracked r b \<longrightarrow> \<not> alone r key b \<longrightarrow> client_served (view (pw_world r)) b \<longrightarrow> client_served (view (pw_world r')) b)"
proof -
  let ?m = "\<lambda>ys. fold (drop_key key) ys (pw_podIPToPod r)"
  let ?served = "\<lambda>s. \<forall>b. tracked r b \<longrightarrow> \<not> alone r key b \<longrightarrow> client_served (view (pw_world r)) b \<longrightarrow> client_served (view (pw_world s)) b"
  have "good (pw_world r') \<and> table_inv (view (pw_world r')) \<and> pw_podIPToPod r' = ?m (existing_ips r key) \<and> ?served r'"
  proof (rule for_each_done[OF c, where P = "\<lambda>ys s. good (pw_world s) \<and> table_inv (view (pw_world s)) \<and> pw_podIPToPod s = ?m ys \<and> ?served s"], goal_cases)
    case 1
    from g T show ?case by simp
  next
    case (2 ys x zs s q s')
    from 2(1) have x: "x \<in> set (existing_ips r key)" "x \<notin> set ys" using m by (auto simp: maps_ok_def) (metis distinct_append not_distinct_conv_prefix)
    then have tx: "tracked r x" by (auto simp: tracked_def)
    from x 2(2) have ks: "keyset (pw_podIPToPod s) x = keyset (pw_podIPToPod r) x" "key |\<in>| keyset (pw_podIPToPod s) x"
      using m by (auto simp: keyset_fold_drop_key maps_ok_def)
    show ?case
    proof (cases "alone r key x")
      case True
      with existsOther_ok[OF ks(2)] ks(1) 2(3) obtain v w where d: "DelPeer h t x (pw_world s) = (Inr v, w)"
        and s': "s' = s\<lparr>pw_world := w, pw_podIPToPod := drop_key key x (pw_podIPToPod s)\<rparr>"
        by (auto simp: alone_def deletion_step_def bind_io_Inr lift_io_eq fou_tunnel_def)
      have "fouName b \<noteq> fouName x" if "tracked r b" "\<not> alone r key b" for b
        using nd tx True that unfolding names_differ_def tracked_def by metis
      with DelPeer_table[OF _ _ nz[OF tx] d] 2(2) show ?thesis by (simp add: s')
    next
      case False
      with existsOther_ok[OF ks(2)] ks(1) 2 show ?thesis by (auto simp: alone_def deletion_step_def bind_io_Inr)
    qed
  qed
  then show ?thesis by blast
qed

lemma handlePodDeletion_clients:
  assumes r: "live_watcher t good view r" and nd: "names_differ (existing_ips r)" and I: "clients_inv t view r"
    and c: "handlePodDeletion (fou_tunnel h t) key r = (Inr u, r')"
  shows "clients_inv t view r'"
proof -
  from r have g: "good (pw_world r)" and m: "maps_ok r" and nz: "\<And>a. tracked r a \<Longrightarrow> a \<noteq> AddrZero" by (auto simp: live_watcher_def)
  from c obtain v s where loop: "for_each (deletion_step (fou_tunnel h t) key) (existing_ips r key) r = (Inr v, s)"
    and r': "r' = s\<lparr>pw_podToPodIPs := (pw_podToPodIPs s)(key := None)\<rparr>"
    by (auto simp: handlePodDeletion_def bind_io_Inr)
  from I deletion_loop_clients[OF g _ nd m nz loop] have T: "table_inv (view (pw_world r'))" and
    S: "\<And>b. tracked r b \<Longrightarrow> \<not> alone r key b \<Longrightarrow> client_served (view (pw_world r)) b \<Longrightarrow> client_served (view (pw_world r')) b"
    by (simp_all add: clients_inv_def r')
  have "fou_ok h good view (pw_world r)" using g host_laws_axioms by (simp add: fou_ok_def)
  from fou.handlePodDeletion_returns[OF this m c] have "r' = (forget key r)\<lparr>pw_world := pw_world r'\<rparr>" by blast
  then have tr: "tracked r' b \<longleftrightarrow> (\<exists>k. k \<noteq> key \<and> b \<in> set (existing_ips r k))" for b
    using tracked_forget[of key r b] by (metis tracked_world)
  have "tracked r b \<and> \<not> alone r key b" if t: "tracked r' b" for b
  proof -
    from t tr obtain k where "k \<noteq> key" "b \<in> set (existing_ips r k)" by blast
    with m show ?thesis by (auto simp: tracked_def alone_def maps_ok_def)
  qed
  with I T S show ?thesis unfolding clients_inv_def by blast
qed

lemma Reconcile_clients:
  assumes r: "live_watcher t good view r" and nd: "names_differ (existing_ips r)" and I: "clients_inv t view r"
    and e: "fine_event t got req (existing_ips r)" and c: "Reconcile (fou_tunnel h t) (nat_gateway_of h c) got req r = (Inr u, r')"
  shows "clients_inv t view r'"
proof -
  have g: "good (pw_world r)" using r by (simp add: live_watcher_def)
  show ?thesis
  proof (cases got)
    case (Inl x)
    with c handlePodDeletion_clients[OF r nd I] show ?thesis by (auto simp: Reconcile_def on_err_Inr split: if_splits)
  next
    case (Inr p)
    with c I handlePodDeletion_clients[OF r nd I] handlePodRunning_clients[OF g I e[unfolded Inr]] show ?thesis
      by (auto simp: Reconcile_def on_err_Inr split: if_splits)
  qed
qed

end

section \<open>Properties\<close>

text \<open>
  C2. When \<open>handlePodRunning\<close> returns without an error for a pod that has lost no address
  and whose addresses are routable, in a namespace whose devices have indexes of their own
  and whose table 118 holds only routes to clients through their own devices, as the gateway
  leaves it: each address it reports for the first time and whose family the gateway
  supports has its tunnel device, and a route in the table to exactly this address through
  exactly this device; every tunnel and every client served there was is still there; the
  table keeps that form; and the maps hold the pod with exactly these addresses. A
  pod that has lost an address may take the tunnel of another pod with it.
\<close>

theorem handlePodRunning_serves:
  assumes "fou_ok h good view (pw_world r)" "table_inv (view (pw_world r))"
    and "parse_ips (pod_PodIPs p) = Inr ips" "\<forall>a\<in>set ips. routable_addr a" "set (existing_ips r (pod_key p)) \<subseteq> set ips"
    and "handlePodRunning (fou_tunnel h t) (nat_gateway_of h c) p r = (Inr u, r')"
  shows "(\<forall>a\<in>set ips. a \<notin> set (existing_ips r (pod_key p)) \<longrightarrow> fou_supports t a \<longrightarrow> client_served (view (pw_world r')) a) \<and>
    (\<forall>b. fou_has_peer view (pw_world r) b \<longrightarrow> fou_has_peer view (pw_world r') b) \<and>
    (\<forall>b. client_served (view (pw_world r)) b \<longrightarrow> client_served (view (pw_world r')) b) \<and>
    table_inv (view (pw_world r')) \<and> pw_podToPodIPs r' = (pw_podToPodIPs r)(pod_key p \<mapsto> ips)"
proof -
  from assms(6) obtain v w
    where loop: "for_each (running_add (fou_tunnel h t) (nat_gateway_of h c) (existing_ips r (pod_key p))) ips (pw_world r) = (Inr v, w)"
    and r': "r' = record_ips (pod_key p) ips (r\<lparr>pw_world := w\<rparr>)"
    unfolding handlePodRunning_grow[OF assms(3,5)] by (auto split: prod.splits sum.splits)
  from assms(1) have laws: "host_laws h good view" "good (pw_world r)" by (auto simp: fou_ok_def)
  from host_laws.adds_table[OF laws(1,2) assms(2,4) loop] net.adds_run[OF assms(1) loop] links_grow_served show ?thesis
    by (auto simp: r' record_ips_def net.grown_def)
qed

lemma demo_table: "table_inv (sim_view sim_empty)"
  by (rule table_inv_empty) (simp_all add: own_index_def sim_view_def sim_empty_def sim_find_def)

theorem handlePodRunning_serves_witness:
  "\<exists>r'. handlePodRunning demo_T demo_G (demo_pod [''10.1.2.3'']) demo_watcher = (Inr (), r') \<and>
     client_served (sim_view (pw_world r')) (Addr4 0x0A010203)"
proof -
  let ?p = "demo_pod [''10.1.2.3'']"
  obtain r' where run: "handlePodRunning demo_T demo_G ?p demo_watcher = (Inr (), r')"
    using demo_handle by (metis prod.collapse)
  have w: "pw_world demo_watcher = sim_empty" by (simp add: demo_watcher_def NewPodWatcher_def)
  have "parse_ips (pod_PodIPs ?p) = Inr [Addr4 0x0A010203]" using demo_parse by (simp add: demo_pod_def)
  moreover have "existing_ips demo_watcher (pod_key ?p) = []" by (simp add: demo_watcher_def)
  ultimately show ?thesis
    using handlePodRunning_serves[OF _ _ _ _ _ run, of sim_good sim_view "[Addr4 0x0A010203]"] demo_ok demo_table demo_names run by (auto simp: w)
qed

end
