(* ===== verification/Running.thy ===== *)
theory Running
  imports ClientRoutes NatGatewayMain
begin

text \<open>
  The two daemons at work, from start to end: on hosts where nothing goes wrong by
  itself the gateway starts and handles the histories of pod events that it can, with the
  tunnels the history asks for, and the node daemon serves the pods it can serve.
\<close>

section \<open>The gateway starts\<close>

text \<open>What the masquerade rule needs: addresses of their families, and the name of an interface.\<close>

definition gateway_fits :: "gateway \<Rightarrow> bool" where
  "gateway_fits c \<longleftrightarrow>
     (\<forall>ip. gt_ipv4 c = Some ip \<longrightarrow> Is4 ip) \<and> (\<forall>ip. gt_ipv6 c = Some ip \<longrightarrow> Is6 ip \<and> \<not> Is4In6 ip) \<and> dev_name (gt_iface c)"

lemma masquerade_known:
  "dev_name (gt_iface c) \<Longrightarrow> Is4 ip \<Longrightarrow> known_rule FAMILY_V4 ''nat'' ''POSTROUTING'' (masquerade_spec c ip)"
  "dev_name (gt_iface c) \<Longrightarrow> Is6 ip \<Longrightarrow> \<not> Is4In6 ip \<Longrightarrow> known_rule FAMILY_V6 ''nat'' ''POSTROUTING'' (masquerade_spec c ip)"
  unfolding known_rule_def masquerade_spec_def Let_def
  by (cases ip; auto simp: FromAddr_def To4_def intro!: exI[of _ "FromAddr ip"])+

definition gateway_free :: "gateway \<Rightarrow> kern \<Rightarrow> bool" where
  "gateway_free c K \<longleftrightarrow> (\<forall>f. newRule c f \<notin># k_rules K f) \<and> k_links K egressDummy = None"

text \<open>A new network namespace, as far as the gateway's two controllers are concerned.\<close>

definition bootable :: "fou_controller \<Rightarrow> gateway \<Rightarrow> kern \<Rightarrow> bool" where
  "bootable t c K \<longleftrightarrow> startable t {FAMILY_V4, FAMILY_V6} K \<and> gateway_free c K \<and> gateway_fits c \<and> (\<forall>a n. fouName a = Inr n \<longrightarrow> k_links K n = None) \<and>
     own_index K \<and> (\<forall>f. \<forall>r\<in>k_routes K f. rt_Table r \<noteq> egressTableID)"

lemma egressDummy_dev: "dev_name egressDummy"
  unfolding egressDummy_def by code_simp

lemma newRule_canon [simp]: "rule_canon (newRule c f) = newRule c f" "ru_Family (newRule c f) = f"
  by (simp_all add: rule_canon_def newRule_def NewRule_def)

context host_live
begin

text \<open>The rules that are still to be added are not there.\<close>

lemma gateway_init_progress:
  "dev_name (gt_iface c) \<Longrightarrow> Is4 ip \<Longrightarrow> returns good view (\<lambda>K. flow_inv M K \<and> gateway_free c K) (gateway_init4 h c ip)
     (\<lambda>_ K. flow_inv M K \<and> newRule c FAMILY_V6 \<notin># k_rules K FAMILY_V6 \<and> k_links K egressDummy = None)"
  "dev_name (gt_iface c) \<Longrightarrow> Is6 ip \<Longrightarrow> \<not> Is4In6 ip \<Longrightarrow> returns good view (\<lambda>K. flow_inv M K \<and> newRule c FAMILY_V6 \<notin># k_rules K FAMILY_V6 \<and> k_links K egressDummy = None) (gateway_init6 h c ip)
     (\<lambda>_ K. flow_inv M K \<and> k_links K egressDummy = None)"
proof -
  let ?P = "\<lambda>K. flow_inv M K \<and> gateway_free c K"
  let ?Q = "\<lambda>K. flow_inv M K \<and> newRule c FAMILY_V6 \<notin># k_rules K FAMILY_V6 \<and> k_links K egressDummy = None"
  have n: "returns good view P (ipt_NewWithProtocol h f) (\<lambda>_. P)" for f P
    by (rule returns_ipt_New) (simp_all add: spec_none_def)
  have pa: "returns good view ?P (ipt_Append h f tb ch sp) (\<lambda>_. ?P)" and qa: "returns good view ?Q (ipt_Append h f tb ch sp) (\<lambda>_. ?Q)"
    if "known_rule f tb ch sp" for f tb ch sp
    by (rule returns_ipt_Append[OF that], simp, simp add: spec_ipt_Append_def set_chain_def flow_inv_def gateway_free_def)+
  have r4: "returns good view ?P (RuleAdd h (newRule c FAMILY_V4)) (\<lambda>_. ?Q)"
    by (rule returns_RuleAdd) (auto simp: gateway_free_def spec_RuleAdd_def flow_inv_def)
  have r6: "returns good view ?Q (RuleAdd h (newRule c FAMILY_V6)) (\<lambda>_ K. flow_inv M K \<and> k_links K egressDummy = None)"
    by (rule returns_RuleAdd) (auto simp: spec_RuleAdd_def flow_inv_def)
  show "returns good view ?P (gateway_init4 h c ip) (\<lambda>_. ?Q)" if "dev_name (gt_iface c)" "Is4 ip"
    unfolding gateway_init4_def
    by (rule returns_bind[OF n], rule returns_bind[OF returns_on_err[OF pa[OF masquerade_known(1)[OF that]]]], rule returns_on_err[OF r4])
  show "returns good view ?Q (gateway_init6 h c ip) (\<lambda>_ K. flow_inv M K \<and> k_links K egressDummy = None)"
    if "dev_name (gt_iface c)" "Is6 ip" "\<not> Is4In6 ip"
    unfolding gateway_init6_def
    by (rule returns_bind[OF n], rule returns_bind[OF returns_on_err[OF qa[OF masquerade_known(2)[OF that]]]], rule returns_on_err[OF r6])
qed

lemma gateway_Init_progress:
  assumes "gateway_fits c"
  shows "returns good view (\<lambda>K. flow_inv M K \<and> gateway_free c K) (gateway_Init h c) (\<lambda>_. flow_inv M)"
proof -
  let ?Q = "\<lambda>K. flow_inv M K \<and> newRule c FAMILY_V6 \<notin># k_rules K FAMILY_V6 \<and> k_links K egressDummy = None"
  have d: "returns good view (\<lambda>K. flow_inv M K \<and> k_links K egressDummy = None) (LinkAdd h (Dummy (NewLinkAttrs\<lparr>la_Name := egressDummy\<rparr>))) (\<lambda>_. flow_inv M)"
    by (rule returns_LinkAdd, rule dummy_makeable[OF egressDummy_dev], simp, drule flow_inv_LinkAdd)
      (auto simp: egressDummy_def NewLinkAttrs_def)
  have i4: "returns good view (\<lambda>K. flow_inv M K \<and> gateway_free c K) (case gt_ipv4 c of None \<Rightarrow> ret () | Some ip \<Rightarrow> gateway_init4 h c ip) (\<lambda>_. ?Q)"
    using assms by (cases "gt_ipv4 c") (auto simp: gateway_fits_def gateway_free_def intro!: returns_ret gateway_init_progress(1)[unfolded gateway_free_def])
  have i6: "returns good view ?Q (case gt_ipv6 c of None \<Rightarrow> ret () | Some ip \<Rightarrow> gateway_init6 h c ip) (\<lambda>_ K. flow_inv M K \<and> k_links K egressDummy = None)"
    using assms by (cases "gt_ipv6 c") (auto simp: gateway_fits_def intro!: returns_ret gateway_init_progress(2))
  have run: "returns good view (\<lambda>K. flow_inv M K \<and> gateway_free c K)
      (bind_io (case gt_ipv4 c of None \<Rightarrow> ret () | Some ip \<Rightarrow> gateway_init4 h c ip) (\<lambda>_.
       bind_io (case gt_ipv6 c of None \<Rightarrow> ret () | Some ip \<Rightarrow> gateway_init6 h c ip) (\<lambda>_.
       bind_io (on_err (Errorw ''failed to add dummy device'')
         (LinkAdd h (Dummy (NewLinkAttrs\<lparr>la_Name := egressDummy\<rparr>)))) (\<lambda>_. ret ())))) (\<lambda>_. flow_inv M)"
    by (rule returns_bind[OF i4], rule returns_bind[OF i6], rule returns_bind[OF returns_on_err[OF d]], rule returns_ret, assumption)
  show ?thesis unfolding gateway_Init_def
    by (rule returns_find, rule returns_ret, simp, simp, rule returns_pre, rule run, simp)
qed

text \<open>The tunnel controller leaves the rules and the gateway's dummy device alone.\<close>

lemma fou_Init_free:
  "returns good view (bootable t c) (fou_Init h t) (\<lambda>_ K. peers_inv t K \<and> gateway_free c K)"
proof (rule returns_conseq[OF returns_also[OF returns_pre[OF fou_Init_progress]]])
  fix k x k'
  assume "good k" and b: "bootable t c (view k)" and "fou_Init h t k = (Inr x, k')"
  with fou_Init_returns[of k t x k'] obtain l where
    sp: "spec_LinkAdd (Dummy (NewLinkAttrs\<lparr>la_Name := fouDummy\<rparr>)) l (fou_ready t (view k)) (view k')"
    by (auto simp: bootable_def startable_def)
  then obtain M where M: "fallbacks_appear (fou_ready t (view k)) M" and v: "view k' = M\<lparr>k_links := (k_links M)(fouDummy \<mapsto> l)\<rparr>"
    by (auto simp: spec_LinkAdd_def NewLinkAttrs_def)
  from fallbacks_conf[OF M] have "k_rules (view k') = k_rules (view k)" by (simp add: v conf_same_def)
  moreover have "k_links (view k') egressDummy = k_links (view k) egressDummy"
    using fallbacks_other[OF M, of egressDummy] by (simp add: v egressDummy_def fallback_names_def fouDummy_def)
  ultimately show "gateway_free c (view k') \<and> peer_modules t \<subseteq> k_modules (view k')"
    using b dummy_modules[OF sp] by (simp add: bootable_def gateway_free_def)
qed (auto simp: bootable_def startable_def intro: flow_inv_modules)

lemma nat_gateway_main_progress:
  assumes g: "good k" and b: "bootable t c (view k)"
    and env: "env EnvPodNamespace \<noteq> []" "env EnvEgressName \<noteq> []" "parse_addresses (Split (env EnvAddresses) CHR '','') None None = Inr (ip4, ip6)"
    and new: "NewFoUTunnelController port ip4 ip6 = Inr t" "NewGateway ''eth0'' ip4 ip6 = Inr c"
  shows "\<exists>p k'. nat_gateway_main h env port k = (Inr p, k') \<and> gp_fou p = t \<and> gp_gateway p = c \<and>
    gp_watcher p = NewPodWatcher (env EnvEgressName) (env EnvPodNamespace) k' \<and> live_watcher t good view (gp_watcher p) \<and> table_inv (view k')"
proof -
  from fou_Init_free g b obtain k1 where k1: "fou_Init h t k = (Inr (), k1)" "good k1" "peers_inv t (view k1) \<and> gateway_free c (view k1)"
    by (rule returns_unit)
  from b have "gateway_fits c" by (simp add: bootable_def)
  from gateway_Init_progress[OF this] k1(2,3) obtain k' where k': "gateway_Init h c k1 = (Inr (), k')" "good k'" "peers_inv t (view k')"
    by (rule returns_unit)
  have "table_inv (view k)" using b by (intro table_inv_empty) (auto simp: bootable_def)
  from Init_table(2)[OF k1(2) Init_table(1)[OF g this k1(1)] k'(1)] have T: "table_inv (view k')" .
  have "length (Split (env EnvAddresses) CHR '','') \<noteq> 0"
    using env(3) by (cases "Split (env EnvAddresses) CHR '',''") (use new(1) in \<open>auto simp: NewFoUTunnelController_def\<close>)
  then show ?thesis
    using live_watcher_start[where t = t and good = good and view = view, OF k'(2,3)] env new k1(1) k'(1) T by (simp add: nat_gateway_main_def Let_def bind_io_def)
qed

end

section \<open>Histories\<close>

fun fine_history :: "fou_controller \<Rightarrow> (pod \<Rightarrow> bool) \<Rightarrow> (nsname \<Rightarrow> addr list) \<Rightarrow> ((err + pod) \<times> nsname) list \<Rightarrow> bool" where
  "fine_history t asks m [] \<longleftrightarrow> True"
| "fine_history t asks m (e # es) \<longleftrightarrow> names_differ m \<and> fine_event t (fst e) (snd e) m \<and> fine_history t asks (wanted_step asks e m) es"

definition wanted :: "(pod \<Rightarrow> bool) \<Rightarrow> ((err + pod) \<times> nsname) list \<Rightarrow> nsname \<Rightarrow> addr list" where
  "wanted asks es = fold (wanted_step asks) es (\<lambda>_. [])"

definition reconcile_all ::
  "'k tunnel_controller \<Rightarrow> 'k nat_gateway \<Rightarrow> ((err + pod) \<times> nsname) list \<Rightarrow> ('k pod_watcher, unit) io" where
  "reconcile_all tun gw = for_each (\<lambda>(got, req). Reconcile tun gw got req)"

lemma names_differ_collision: "names_differ (existing_ips r) \<Longrightarrow> no_collision fou_clash r"
  unfolding names_differ_def no_collision_def tracked_def fou_clash_def by metis

context host_live
begin

lemma live_history:
  assumes "gt_ipv4 c = fc_local4 t" "gt_ipv6 c = fc_local6 t"
  shows "live_watcher t good view r \<Longrightarrow> clients_inv t view r \<Longrightarrow>
    watch_reach (fou_tunnel h t) (nat_gateway_of h c) (fou_ok h good view) (fou_has_peer view) fou_clash r \<Longrightarrow>
    fine_history t (shouldHandle r) (existing_ips r) es \<Longrightarrow>
    \<exists>r'. reconcile_all (fou_tunnel h t) (nat_gateway_of h c) es r = (Inr (), r') \<and>
      watch_reach (fou_tunnel h t) (nat_gateway_of h c) (fou_ok h good view) (fou_has_peer view) fou_clash r' \<and>
      existing_ips r' = fold (wanted_step (shouldHandle r)) es (existing_ips r) \<and> clients_inv t view r'"
proof (induction es arbitrary: r)
  case Nil
  then show ?case by (simp add: reconcile_all_def)
next
  case (Cons e es)
  obtain got req where e: "e = (got, req)" by (cases e)
  from Cons.prems(4) have f: "names_differ (existing_ips r)" "fine_event t got req (existing_ips r)"
    "fine_history t (shouldHandle r) (wanted_step (shouldHandle r) (got, req) (existing_ips r)) es" by (simp_all add: e)
  from live_Reconcile[OF Cons.prems(1) assms f(2)] obtain r1 where
    run: "Reconcile (fou_tunnel h t) (nat_gateway_of h c) got req r = (Inr (), r1)" and r1: "live_watcher t good view r1"
      "existing_ips r1 = wanted_step (shouldHandle r) (got, req) (existing_ips r)" "shouldHandle r1 = shouldHandle r" by blast
  have "event_ok fou_clash got req r" unfolding event_ok_def
    using names_differ_collision[OF f(1)] f(2) by (auto simp: fine_event_def)
  from watch_reach.step[OF Cons.prems(3) this run] have w:
    "watch_reach (fou_tunnel h t) (nat_gateway_of h c) (fou_ok h good view) (fou_has_peer view) fou_clash r1" .
  have "fine_history t (shouldHandle r1) (existing_ips r1) es" using f(3) r1 by simp
  from Cons.IH[OF r1(1) Reconcile_clients[OF Cons.prems(1) f(1) Cons.prems(2) f(2) run] w this] r1 run show ?case by (simp add: reconcile_all_def e bind_io_def)
qed

end

section \<open>Properties\<close>

text \<open>
  C4. The gateway at work: in a new namespace where nothing goes wrong by itself, with its
  environment set and its port a port, the process starts. For every history of pod events
  in which no pod loses an address before it goes, the addresses of a pod are distinct and
  routable, those of a family that the gateway supports are IPv4 addresses, and no two
  wanted addresses share the name of a device, every call of \<open>Reconcile\<close> returns
  without an error; at the end there are tunnels exactly for the addresses that the history
  leaves wanted and whose family the gateway supports, and each of these addresses has its
  route in the gateway's table, through its own device. The conditions are those under
  which the code works: an address that is lost leaves the maps wrong, and the link for an
  IPv6 peer is an IPv4 tunnel, which the kernel need not make.
\<close>

theorem gateway_runs:
  assumes "host_live h good view" "good k" "bootable t c (view k)"
    and "env EnvPodNamespace \<noteq> []" "env EnvEgressName \<noteq> []"
    and "parse_addresses (Split (env EnvAddresses) CHR '','') None None = Inr (ip4, ip6)"
    and "NewFoUTunnelController port ip4 ip6 = Inr t" "NewGateway ''eth0'' ip4 ip6 = Inr c"
    and "asks = shouldHandle (NewPodWatcher (env EnvEgressName) (env EnvPodNamespace) k)" "fine_history t asks (\<lambda>_. []) es"
  shows "\<exists>p k' r. nat_gateway_main h env port k = (Inr p, k') \<and>
    reconcile_all (fou_tunnel h (gp_fou p)) (nat_gateway_of h (gp_gateway p)) es (gp_watcher p) = (Inr (), r) \<and>
    (\<forall>a. fou_has_peer view (pw_world r) a \<longleftrightarrow> (\<exists>key. \<exists>b\<in>set (wanted asks es key). fou_supports t b \<and> fou_clash b a)) \<and>
    (\<forall>key. \<forall>b\<in>set (wanted asks es key). fou_supports t b \<longrightarrow> client_served (view (pw_world r)) b)"
proof -
  from host_live.nat_gateway_main_progress[OF assms(1-8)] obtain p k' where run: "nat_gateway_main h env port k = (Inr p, k')"
    and p: "gp_fou p = t" "gp_gateway p = c" "gp_watcher p = NewPodWatcher (env EnvEgressName) (env EnvPodNamespace) k'"
    and live: "live_watcher t good view (gp_watcher p)" "table_inv (view k')" by blast
  have laws: "host_laws h good view" using assms(1) by (simp add: host_live_def)
  have same: "gt_ipv4 c = fc_local4 t" "gt_ipv6 c = fc_local6 t" using NewFoU_fields[OF assms(7)] NewGateway_fields[OF assms(8)] by auto
  have asks: "shouldHandle (gp_watcher p) = asks" "existing_ips (gp_watcher p) = (\<lambda>_. [])"
    unfolding assms(9) p(3) by (rule shouldHandle_cong) (simp_all add: NewPodWatcher_def existing_ips_def fun_eq_iff)
  have cl: "clients_inv t view (gp_watcher p)"
    using live(2) asks(2) by (simp add: clients_inv_def tracked_def) (simp add: p(3) NewPodWatcher_def)
  have "\<not> fou_has_peer view k a" for a using assms(3) by (auto simp: fou_has_peer_def bootable_def)
  from nat_gateway_main_started[OF laws assms(2) this run] have
    "watch_reach (fou_tunnel h t) (nat_gateway_of h c) (fou_ok h good view) (fou_has_peer view) fou_clash (gp_watcher p)"
    by (simp add: gateway_started_def p)
  from host_live.live_history[OF assms(1) same live(1) cl this] assms(10) asks obtain r where
    r: "reconcile_all (fou_tunnel h t) (nat_gateway_of h c) es (gp_watcher p) = (Inr (), r)"
    and w: "watch_reach (fou_tunnel h t) (nat_gateway_of h c) (fou_ok h good view) (fou_has_peer view) fou_clash r"
    and ex: "existing_ips r = wanted asks es" and cr: "clients_inv t view r" by (auto simp: wanted_def)
  from net.watcher_inv_reach[OF w] have "fou_has_peer view (pw_world r) a \<longleftrightarrow> (\<exists>b. tracked r b \<and> fou_supports t b \<and> fou_clash b a)" for a
    unfolding net.watcher_inv_def peers_exact_def by blast
  then have "fou_has_peer view (pw_world r) a \<longleftrightarrow> (\<exists>key. \<exists>b\<in>set (wanted asks es key). fou_supports t b \<and> fou_clash b a)" for a
    by (auto simp: tracked_def ex)
  moreover have "client_served (view (pw_world r)) b" if "b \<in> set (wanted asks es key)" "fou_supports t b" for key b
    using cr that by (auto simp: clients_inv_def tracked_def ex)
  ultimately show ?thesis
    by (intro exI[of _ p] exI[of _ k'] exI[of _ r] conjI allI ballI impI) (simp_all add: run r p(1,2))
qed

definition demo_gateway_env :: "string \<Rightarrow> string" where
  "demo_gateway_env n = (if n = EnvPodNamespace then ''egress-ns'' else if n = EnvEgressName then ''egress''
     else if n = EnvAddresses then ''10.0.0.1'' else [])"

lemma demo_boot:
  "demo_gateway_env EnvPodNamespace = ''egress-ns''" "demo_gateway_env EnvEgressName = ''egress''"
  "parse_addresses (Split (demo_gateway_env EnvAddresses) CHR '','') None None = Inr (Some (Addr4 0x0A000001), None)"
  "NewFoUTunnelController 5555 (Some (Addr4 0x0A000001)) None = Inr demo_tun" "NewGateway ''eth0'' (Some (Addr4 0x0A000001)) None = Inr demo_gw"
  by code_simp+

lemma demo_bootable: "bootable demo_tun demo_gw (sim_view sim_empty)"
  by (simp add: bootable_def own_index_def startable_def flow_inv_def gateway_free_def free_port_def sim_view_def sim_empty_def sim_find_def
      fou_listener_def gateway_fits_def demo_tun_def demo_gw_def dev_names(3))

lemma demo_history:
  "fine_history demo_tun (shouldHandle demo_watcher) (\<lambda>_. []) [(Inr (demo_pod [''10.1.2.3'']), pod_key (demo_pod [''10.1.2.3'']))]"
  "wanted (shouldHandle demo_watcher) [(Inr (demo_pod [''10.1.2.3'']), pod_key (demo_pod [''10.1.2.3'']))] (pod_key (demo_pod [''10.1.2.3''])) = [Addr4 0x0A010203]"
proof -
  have s: "shouldHandle demo_watcher (demo_pod [''10.1.2.3''])" "\<not> isTerminated (demo_pod [''10.1.2.3''])" by code_simp+
  show "fine_history demo_tun (shouldHandle demo_watcher) (\<lambda>_. []) [(Inr (demo_pod [''10.1.2.3'']), pod_key (demo_pod [''10.1.2.3'']))]"
    using demo_parse demo_names(2) by (simp add: names_differ_def fine_event_def makes_peer_def demo_tun_def) (simp add: demo_pod_def)
  show "wanted (shouldHandle demo_watcher) [(Inr (demo_pod [''10.1.2.3'']), pod_key (demo_pod [''10.1.2.3'']))] (pod_key (demo_pod [''10.1.2.3''])) = [Addr4 0x0A010203]"
    using demo_parse s by (simp add: wanted_def) (simp add: demo_pod_def)
qed

theorem gateway_runs_witness:
  "\<exists>p k' r. nat_gateway_main sim_host demo_gateway_env 5555 sim_empty = (Inr p, k') \<and>
     reconcile_all (fou_tunnel sim_host (gp_fou p)) (nat_gateway_of sim_host (gp_gateway p))
       [(Inr (demo_pod [''10.1.2.3'']), pod_key (demo_pod [''10.1.2.3'']))] (gp_watcher p) = (Inr (), r) \<and>
     fou_has_peer sim_view (pw_world r) (Addr4 0x0A010203) \<and> client_served (sim_view (pw_world r)) (Addr4 0x0A010203)"
proof -
  have n: "demo_gateway_env EnvPodNamespace \<noteq> []" "demo_gateway_env EnvEgressName \<noteq> []" by (simp_all add: demo_boot)
  have w: "shouldHandle demo_watcher = shouldHandle (NewPodWatcher (demo_gateway_env EnvEgressName) (demo_gateway_env EnvPodNamespace) sim_empty)"
    by (simp add: demo_boot demo_watcher_def)
  let ?es = "[(Inr (demo_pod [''10.1.2.3'']), pod_key (demo_pod [''10.1.2.3'']))]"
  from gateway_runs[OF sim_live.host_live_axioms sim_good_empty demo_bootable n demo_boot(3-5) w demo_history(1)] obtain p k' r where
    run: "nat_gateway_main sim_host demo_gateway_env 5555 sim_empty = (Inr p, k')"
      "reconcile_all (fou_tunnel sim_host (gp_fou p)) (nat_gateway_of sim_host (gp_gateway p)) ?es (gp_watcher p) = (Inr (), r)"
    and a: "\<And>a. fou_has_peer sim_view (pw_world r) a \<longleftrightarrow> (\<exists>key. \<exists>b\<in>set (wanted (shouldHandle demo_watcher) ?es key). fou_supports demo_tun b \<and> fou_clash b a)"
    and s: "\<forall>key. \<forall>b\<in>set (wanted (shouldHandle demo_watcher) ?es key). fou_supports demo_tun b \<longrightarrow> client_served (sim_view (pw_world r)) b"
    by blast
  have "\<exists>key. \<exists>b\<in>set (wanted (shouldHandle demo_watcher) ?es key). fou_supports demo_tun b \<and> fou_clash b (Addr4 0x0A010203)"
    by (rule exI[of _ "pod_key (demo_pod [''10.1.2.3''])"], unfold demo_history(2)) (simp add: demo_names(1) fou_clash_def)
  moreover have "client_served (sim_view (pw_world r)) (Addr4 0x0A010203)"
    using s[rule_format, of "Addr4 0x0A010203" "pod_key (demo_pod [''10.1.2.3''])", unfolded demo_history(2)] by (simp add: demo_names(1))
  ultimately show ?thesis using run a by blast
qed

text \<open>
  C5. The daemon serves the pods it can serve: for a pod with one egress, in a new
  namespace, when nothing goes wrong by itself, the egress's service has an IPv4 address
  and the pod one too, the port is a port, and the destinations parse and those of the
  family are masked and distinct, \<open>Add\<close> returns the previous result. Nothing is said of
  a service with an IPv6 address, for which the code asks for an IPv4 tunnel.
\<close>

theorem Add_progress:
  assumes "ponad_live h good view env pod_at egress_at service_at netns ns_path paths"
    and "good k" "new_ns (netns (ca_Netns args) k)" "startable ft {FAMILY_V4, FAMILY_V6} (netns (ca_Netns args) k)"
    and "ca_Netns args \<in> paths" "ord [] = []" "pod_arg PodNameKey args \<noteq> []" "pod_arg PodNamespaceKey args \<noteq> []"
    and "pod_at \<lparr>nn_Namespace = pod_arg PodNamespaceKey args, nn_Name = pod_arg PodNameKey args\<rparr> = Some pod" "listEgress pod = [en]"
    and "GetPrevResult lib args = Inr p" "json_Marshal lib p = Inr b" "local_loop (result_IPs lib p) None None = Inr (l4, l6)"
    and "NewFoUTunnelController (sv_egressPort s) l4 l6 = Inr ft"
    and "egress_at en = Some eg" "service_at en = Some svc" "servable ft eg svc"
  shows "\<exists>k'. Add env lib h ord s args k = (Inr b, k')"
  by (rule ponad_live.Add_live[where ord = ord, OF assms])

definition demo_pod_tunnel :: fou_controller where
  "demo_pod_tunnel = \<lparr>fc_port = 5555, fc_local4 = Some (Addr4 0x0A010005), fc_local6 = None\<rparr>"

lemma demo_ns_startable: "startable demo_pod_tunnel {FAMILY_V4, FAMILY_V6} (sim_view demo_ns)"
  by (auto simp: startable_def flow_inv_def known_tunnel_def free_port_def demo_ns_def sim_view_def sim_empty_def sim_find_def fouDummy_def
      aux_names_def fou_listener_def demo_pod_tunnel_def)

lemma demo_servable: "servable demo_pod_tunnel demo_dest_egress demo_svc"
proof -
  have p: "ParsePrefix ''192.0.2.0/24'' = Inr (PrefixFrom (Addr4 0xC0000200) 24)" "ParseAddr ''10.96.0.10'' = Inr (Addr4 0x0A60000A)" by code_simp+
  have d: "eg_Destinations demo_dest_egress = [''192.0.2.0/24'']" "svc_ClusterIP demo_svc = ''10.96.0.10''"
    by (simp_all add: demo_dest_egress_def demo_svc_def)
  show ?thesis unfolding servable_def d p
    by (rule exI[of _ "Addr4 0x0A60000A"]) (simp add: makes_peer_def demo_pod_tunnel_def served_list_def d p demo_clean)
qed

theorem Add_progress_witness:
  "\<exists>k'. Add (demo_env ''egress'') demo_lib sim_host (\<lambda>x. x) (NewServer 5555) demo_args demo_ns = (Inr ''{}'', k')"
proof -
  have a: "pod_arg PodNameKey demo_args \<noteq> []" "pod_arg PodNamespaceKey demo_args \<noteq> []" by code_simp+
  have l: "GetPrevResult demo_lib demo_args = Inr [\<lparr>n_IP = [10, 1, 0, 5], n_Mask = [255, 255, 255, 255]\<rparr>]"
    by (simp add: GetPrevResult_def ParseConfig_def demo_lib_def demo_args_def)
  have m: "json_Marshal demo_lib [\<lparr>n_IP = [10, 1, 0, 5], n_Mask = [255, 255, 255, 255]\<rparr>] = Inr ''{}''" by (simp add: demo_lib_def)
  have i: "local_loop (result_IPs demo_lib [\<lparr>n_IP = [10, 1, 0, 5], n_Mask = [255, 255, 255, 255]\<rparr>]) None None = Inr (Some (Addr4 0x0A010005), None)"
    by code_simp
  have f: "NewFoUTunnelController (sv_egressPort (NewServer 5555)) (Some (Addr4 0x0A010005)) None = Inr demo_pod_tunnel" by code_simp
  show ?thesis unfolding demo_env_def
    by (rule Add_progress[where ord = "\<lambda>x. x" and args = demo_args and pod = "demo_pod_asking ''egress''" and eg = demo_dest_egress and svc = demo_svc,
        OF psl.ponad_live_axioms[of "\<lambda>_. Some (demo_pod_asking ''egress'')" "\<lambda>_. Some demo_dest_egress" "\<lambda>_. Some demo_svc"] demo_ns_new(3,1) demo_ns_startable UNIV_I refl a refl demo_lists(1) l m i f refl refl demo_servable])
qed

end
