(* ===== verification/Spec2Isabelle.thy ===== *)
theory Spec2Isabelle
  imports ConvergeLive DeepCopy Mains Running
begin

text \<open>
  Pona gives Kubernetes pods an egress NAT: traffic of a pod to chosen destinations
  leaves the cluster through gateway pods. This development models the Go sources of
  the repository (\<open>src/\<close>) and proves what its parts do, alone and together.

  \<^bold>\<open>The parts and how they interact.\<close> An \<open>Egress\<close> object describes an egress. The
  egress controller (\<open>internal/controller/egress_controller.go\<close>, started by
  \<open>cmd/egress-controller\<close>) makes a deployment of gateway pods, a service, a
  disruption budget and the permissions for it. A gateway pod runs \<open>cmd/nat-gateway\<close>:
  it starts the FoU tunnel controller (\<open>pkg/tunnel/fou\<close>) and the NAT gateway
  (\<open>pkg/nat/gateway.go\<close>) and then the pod watcher
  (\<open>internal/controller/pod_watcher.go\<close>), which keeps a tunnel and a client route for
  each address of each pod that asks for the egress. On the node of such a pod the CNI
  plugin (\<open>cmd/pona\<close>, \<open>pkg/cni\<close>), put there by \<open>cmd/pona-installer\<close>, calls the daemon
  (\<open>internal/ponad\<close>), which enters the pod's network namespace and sets up the other
  end: the tunnel to the service's address and the NAT client's rules and routes
  (\<open>pkg/nat/client.go\<close>).

  \<^bold>\<open>The theories.\<close>
  \<^item> \<open>Prelude\<close>: Go errors as a datatype, the state-and-error monad \<open>io\<close> in which all
    effectful code is written (the state survives an error, as it does in Go), its
    inversion rules (collection \<open>io_inv\<close>), loops, deferred calls, \<open>meets\<close> (a call and
    the view of its state before and after), strings.
  \<^item> \<open>GoNet\<close>, \<open>GoParse\<close>, \<open>Sha1\<close>: the parts of \<open>net/netip\<close>, \<open>net\<close> and
    \<open>crypto/sha1\<close> that the sources use, addresses and masks as words and bytes.
  \<^item> \<open>NetIPUtil\<close>: \<open>pkg/util/netiputil\<close>.
  \<^item> \<open>Host\<close>: the calls to netlink, iptables, sysctl and modprobe as a record \<open>'k host\<close>
    over an unknown state, an abstract view \<open>kern\<close> of a network namespace (links,
    rules, routes, chains, listeners) and the locale \<open>host_laws\<close>: what each call does
    to the view when it succeeds and when it fails. \<open>HostSim\<close> has a namespace in memory
    and interprets the locale on it (\<open>sim_kernel\<close>); the witnesses run there.
  \<^item> \<open>Tunnel\<close>: the interfaces \<open>tunnel.Controller\<close> and \<open>nat.Gateway\<close> as records of
    methods, and their contracts as the locales \<open>tunnel_laws\<close>, \<open>gateway_laws\<close> and
    \<open>gateway_net\<close>. \<open>Fou\<close> and \<open>Gateway\<close> model the implementations and interpret the
    locales on them (\<open>fou\<close>, \<open>gw\<close>, \<open>net\<close>). \<open>Mocks\<close> does the same for the mocks of
    the tests.
  \<^item> \<open>NatClient\<close>: \<open>pkg/nat/client.go\<close>.
  \<^item> \<open>PodWatcher\<close>: the watcher's two maps and its handlers; the relation
    \<open>watch_reach\<close> of states reached by successful calls while pods keep their addresses,
    and \<open>any_reach\<close> without that condition. Its lemmas are proved once in
    \<open>gateway_net\<close>, for any tunnel controller and gateway that keep the contracts.
  \<^item> \<open>EgressController\<close>: the API objects, the pod template and the mutate functions,
    \<open>Reconcile\<close>. \<open>EgressReconcile\<close>: the API server as the locale \<open>kube_laws\<close> over a
    view of the stored objects and the defaults it fills in (\<open>lawful_defaults\<close>),
    interpreted on one in memory that defaults and validates (\<open>ks\<close>). \<open>Converge\<close> and
    \<open>ConvergeLive\<close>: the locales \<open>kube_quiet\<close> (extending \<open>kube_laws\<close> by the status
    subresource) and \<open>kube_live\<close> (extending \<open>kube_quiet\<close>) for a server that answers and
    accepts what passes its validation, a parameter; interpreted on the same server
    (\<open>ksq\<close>, \<open>ksl\<close>).
  \<^item> \<open>DeepCopy\<close>: the generated copies of \<open>api/v1beta1/zz_generated.deepcopy.go\<close> over a
    store of cells, so that sharing between a copy and its original can be stated; the
    copies of the Kubernetes types they call are the locale \<open>k8s_copies\<close>.
  \<^item> \<open>Cni\<close>: \<open>pkg/cni\<close>, the messages of \<open>pkg/cnirpc\<close> and \<open>cmd/pona\<close>. \<open>Ponad\<close>: the
    daemon, with the locale \<open>ponad_laws\<close> (extending \<open>host_laws\<close>) for the API reader and
    the namespaces, interpreted in memory (\<open>ps\<close>).
  \<^item> \<open>NatGatewayMain\<close>: the start of \<open>cmd/nat-gateway\<close>, from its environment to the
    watcher. \<open>Commands\<close>: the installer and the reconciler that \<open>cmd/egress-controller\<close>
    makes from its flags. \<open>Flags\<close>: Go's package \<open>flag\<close>. \<open>Mains\<close>: the \<open>main\<close> functions of
    the three daemons with their flags, the options of the manager, \<open>SetupWithManager\<close> and
    the exit status; the manager of controller-runtime is a record of calls with the
    locale \<open>quiet_manager\<close>, interpreted on one that records its calls (\<open>log_mgr\<close>).
  \<^item> \<open>Total\<close>: total correctness (\<open>returns\<close>). \<open>HostLive\<close>: the locale \<open>host_live\<close> (extending
    \<open>host_laws\<close>): the calls succeed unless the view shows why not; interpreted on the
    namespace in memory (\<open>sim_live\<close>). \<open>Progress\<close>: on it the operations of both
    controllers, the client and the watcher return, and with \<open>ponad_live\<close> (extending
    \<open>ponad_laws\<close> and \<open>host_live\<close>, interpreted as \<open>psl\<close>) those of the daemon.
    \<open>ClientRoutes\<close>: table 118 of the gateway, in which every tracked address keeps its
    route through its own device until its last pod goes. \<open>Running\<close>: the gateway through
    a history of events, and the request of a pod, from start to end.
  \<^item> This theory: the properties that span components.

  Definitions have the names of the Go functions; a record field carries a short prefix
  of its type (\<open>pw_podToPodIPs\<close> is the field \<open>podToPodIPs\<close> of \<open>PodWatcher\<close>). A part of a
  long function (a loop, a closure, a branch) that has a definition of its own has a
  descriptive name. Iteration over a Go map has no order: the association list is given
  in the order visited, or the order is an argument (\<open>range_order\<close>). Loops are
  structural recursion over the list that is visited (the parser of the command line,
  whose arguments get fewer, has a termination proof), so every function is total and
  no fuel is used; Go's panic is \<open>None\<close> or \<open>Panic\<close>. Integers are unbounded where the
  code has \<open>int\<close> and small values, and words where the width matters (ports, addresses,
  CNI codes). The text of an error keeps the fixed part; values that only fill in the
  message are left out.

  \<^bold>\<open>What is shown.\<close> For the gateway: the tunnels are exactly those of the tracked pods
  in every state reached while no pod loses an address; without that condition, that every
  tunnel is still listed; what \<open>handlePodRunning\<close> and \<open>handlePodDeletion\<close> leave on
  success and on failure, and the states from which they do not recover; what the start of
  the process gives, an initial state if the namespace has no tunnels, and that the manager
  is started only then. When nothing goes wrong by itself, the process starts and handles
  every fine history of events without an error, and ends with the tunnels the history asks
  for. For the node: \<open>UpdateRoutes\<close> makes the
  routes of its table exactly the wanted ones, \<open>Init\<close> brings rules and table to one
  definite state, a request sets up the pod completely, and it succeeds for every pod
  with an IPv4 service that can be served when nothing goes wrong by itself; a second call
  of \<open>UpdateRoutes\<close> in a namespace always fails, and so does a request for two egresses; a
  daemon that finds its old socket does not start. For the controller: the objects a
  successful \<open>Reconcile\<close> leaves, field by field, the order in which they are written, that
  the loop comes to rest when the server accepts the objects, which container is configured;
  deep copies equal their originals and share nothing with them. Across: the configured
  container runs a gateway for its egress; daemon and watcher agree on single-name
  annotations but for the egress named like its namespace, and disagree on lists of names;
  the ports agree within 16 bits and arrive from the command lines at listeners, tunnels
  and services, but not from the controller's at the gateway's; errors of the daemon reach
  the caller of the plugin.

  \<^bold>\<open>What progress assumes.\<close> \<open>host_live\<close> lets a call fail only for a reason in the view: a
  name that is taken or too long, a tunnel between the same end points, a module that is not
  there, a port that is in use or out of range, a route or rule that is there already, a
  link that is not. It promises links only of the kinds that the kernel makes: dummies,
  flow-based tunnels and IPv4 tunnels between IPv4 addresses. The code asks for an IPv4
  tunnel for an IPv6 peer too; whether that succeeds is left open, so progress is shown for
  IPv4 alone, and of the end points of such a device nothing is known (\<open>kept_link\<close>). A
  fallback device appears only with the first device of its kind. The state it starts from is
  \<open>bootable\<close> for the gateway and \<open>new_ns\<close>, \<open>startable\<close> for a pod; the events are those
  of \<open>fine_history\<close>: addresses that parse, are distinct, can be routed to, have device names
  of their own and stay until the pod goes, and are IPv4 where the gateway supports their
  family; the egress is \<open>servable\<close>. For the egress controller, \<open>kube_live\<close> is an API
  server that answers every call and has no other writer, and the objects made for the
  egress are \<open>acceptable\<close> to it; a server that validates names of containers refuses what
  the code makes from a template with a sidecar.

  \<^bold>\<open>Not modelled.\<close> Logging and the registration of API types with the scheme; the
  inside of the manager of controller-runtime (queues, watches, leader election); in
  \<open>internal/ponad\<close> the methods \<open>Start\<close> and \<open>InterceptorLogger\<close>, which connect the gRPC
  library; the generated code of \<open>pkg/cnirpc\<close> but for the messages; contexts and
  time-outs. The watcher's mutex is held for whole handlers, so they are modelled as
  running one after the other. The API server is assumed to have no other writer while
  one call of a handler runs.
\<close>

section \<open>From the controller to the gateway process\<close>

text \<open>
  How a container's environment is made from its list of variables: the last entry of
  a name counts; \<open>resolve\<close> is the value of a source, which the kubelet knows.
\<close>

definition env_of :: "(env_source \<Rightarrow> string) \<Rightarrow> env_var list \<Rightarrow> string \<Rightarrow> string" where
  "env_of resolve vars n =
     (let vs = filter (\<lambda>v. ev_Name v = n) vars in if vs = [] then [] else resolve (ev_From (last vs)))"

lemma env_of_container:
  "env_of resolve (c_Env (egress_container r eg c0)) EnvPodNamespace = resolve (Value (eg_Namespace eg))"
  "env_of resolve (c_Env (egress_container r eg c0)) EnvEgressName = resolve (Value (eg_Name eg))"
  "env_of resolve (c_Env (egress_container r eg c0)) EnvAddresses = resolve (FieldRef ''status.podIPs'')"
  by (simp_all add: env_of_def egress_container_def EnvPodNamespace_def EnvEgressName_def EnvAddresses_def)

text \<open>
  C15. The pod that the egress controller asks for runs a gateway for that egress:
  whatever the user's template puts into the environment, a gateway process started
  in the configured container watches the pods that ask for the egress's own name and
  namespace, and its addresses are the pod's.
\<close>

theorem gateway_watches_its_egress:
  assumes "\<And>s. resolve (Value s) = s"
    and "nat_gateway_main h (env_of resolve (c_Env (egress_container r eg c0))) port k = (Inr p, k')"
  shows "pw_EgressName (gp_watcher p) = eg_Name eg \<and> pw_EgressNamespace (gp_watcher p) = eg_Namespace eg \<and>
    (\<forall>s\<in>set (Split (resolve (FieldRef ''status.podIPs'')) CHR '',''). \<exists>a. ParseAddr s = Inr a)"
  using assms(2)
proof (rule nat_gateway_main_inv)
  fix ipv4 ipv6
  let ?env = "env_of resolve (c_Env (egress_container r eg c0))"
  assume "parse_addresses (Split (?env EnvAddresses) CHR '','') None None = Inr (ipv4, ipv6)"
    and "gp_watcher p = NewPodWatcher (?env EnvEgressName) (?env EnvPodNamespace) k'"
  then show ?thesis by (simp add: env_of_container assms(1) parse_addresses_Inr NewPodWatcher_def)
qed

definition demo_resolve :: "env_source \<Rightarrow> string" where
  "demo_resolve src = (case src of Value s \<Rightarrow> s | FieldRef f \<Rightarrow> if f = ''status.podIPs'' then ''10.1.0.7'' else [] | OtherSource s \<Rightarrow> [])"

theorem gateway_watches_its_egress_witness:
  "\<exists>p k'. nat_gateway_main sim_host (env_of demo_resolve (c_Env (egress_container demo_r (demo_egress []) zero_container))) 5555 sim_empty = (Inr p, k') \<and>
     pw_EgressName (gp_watcher p) = ''egress-a'' \<and> pw_EgressNamespace (gp_watcher p) = ''internet''"
proof -
  let ?m = "nat_gateway_main sim_host (env_of demo_resolve (c_Env (egress_container demo_r (demo_egress []) zero_container))) 5555 sim_empty"
  have "\<not> isl (fst ?m)" by code_simp
  then obtain p where r: "?m = (Inr p, snd ?m)" by (metis isl_def prod.collapse sum.exhaust)
  have "eg_Name (demo_egress []) = ''egress-a''" "eg_Namespace (demo_egress []) = ''internet''" by (simp_all add: demo_egress_def)
  with gateway_watches_its_egress[OF _ r] r show ?thesis by (auto simp: demo_resolve_def)
qed

section \<open>Ports\<close>

text \<open>When the low 32 bits, read as a signed number, are the low 16 bits.\<close>

lemma int32_is_uint16: "sint (word_of_int port :: 32 word) = port mod 2 ^ 16 \<longleftrightarrow> port mod 2 ^ 32 < 2 ^ 16"
proof -
  define m where "m = port mod 2 ^ 32"
  have m: "0 \<le> m" "m < 2 ^ 32" by (simp_all add: m_def)
  have s: "sint (word_of_int port :: 32 word) = (m + 2 ^ 31) mod 2 ^ 32 - 2 ^ 31"
    by (simp add: signed_of_int signed_take_bit_eq_take_bit_shift take_bit_eq_mod m_def mod_add_left_eq)
  have l: "port mod 2 ^ 16 = m mod 2 ^ 16" unfolding m_def by (simp add: mod_mod_cancel)
  have b: "0 \<le> m mod 2 ^ 16" "m mod 2 ^ 16 < 2 ^ 16" by simp_all
  have "(m + 2 ^ 31) mod 2 ^ 32 - 2 ^ 31 = (if m < 2 ^ 31 then m else m - 2 ^ 32)"
  proof (cases "m < 2 ^ 31")
    case True
    with m show ?thesis by simp
  next
    case False
    have "(m + 2 ^ 31) mod 2 ^ 32 = (m + 2 ^ 31 - 2 ^ 32) mod 2 ^ 32" by (rule minus_mod_self2[symmetric])
    also have "\<dots> = m + 2 ^ 31 - 2 ^ 32" using m False by (intro mod_pos_pos_trivial) simp_all
    finally show ?thesis using False by simp
  qed
  with b m show ?thesis unfolding s l m_def[symmetric] by auto
qed

text \<open>
  C28. The same port number for the egress controller, the gateway and the daemon. The
  three keep it at different widths: the kernel has 16 bits for the port of the gateway's
  listener and the port that the client's device sends to, so these two are always the
  same; the service has a signed number of 32 bits. A number in the range of UDP ports
  arrives as it is everywhere: the client's device sends to the port of the service, which
  forwards to the port of the listener. For any number, the service agrees with the other
  two if and only if bits 16 to 31 of the number are zero.
\<close>

theorem ports_agree:
  assumes "new_reconciler \<lparr>cc_FoUPort = port, cc_NatGatewayImage = img\<rparr> = Inr r"
    and "mutate_service r setref eg svc = Inr svc'" "om_DeletionTimestamp (svc_Meta svc) = None"
    and "NewFoUTunnelController port l4 l6 = Inr gt" "NewFoUTunnelController port m4 m6 = Inr ct"
  shows "uint (to_EncapDport (opts (peer_link ct n a loc))) = fou_Port (fou_wire (fou_listener gt f)) \<and>
    (0 \<le> port \<and> port < 2 ^ 16 \<longrightarrow> map (\<lambda>p. (sp_Port p, sp_TargetPort p)) (svc_Ports svc') = [(port, IntVal port)] \<and>
      fou_Port (fou_wire (fou_listener gt f)) = port) \<and>
    (map (\<lambda>p. (sp_Port p, sp_TargetPort p)) (svc_Ports svc') =
       [(uint (to_EncapDport (opts (peer_link ct n a loc))), IntVal (fou_Port (fou_wire (fou_listener gt f))))] \<longleftrightarrow> port mod 2 ^ 32 < 2 ^ 16)"
proof -
  note r = new_reconciler_port(2)[OF assms(1)]
  have s: "map (\<lambda>p. (sp_Port p, sp_TargetPort p)) (svc_Ports svc') = [(er_Port r, IntVal (er_Port r))]"
    using assms(2,3) by (auto simp: mutate_service_def Let_def split: if_split_asm sum.split_asm)
  have p: "fc_port gt = port" "fc_port ct = port" using NewFoU_fields[OF assms(4)] NewFoU_fields[OF assms(5)] by auto
  have l: "fou_Port (fou_wire (fou_listener gt f)) = port mod 2 ^ 16" by (simp add: fou_wire_listener p)
  have d: "uint (to_EncapDport (opts (peer_link ct n a loc))) = port mod 2 ^ 16"
    by (simp add: peer_link_def p unsigned_of_int take_bit_eq_mod)
  have "er_Port r = port mod 2 ^ 16 \<longleftrightarrow> port mod 2 ^ 32 < 2 ^ 16" unfolding r by (rule int32_is_uint16)
  with s l d show ?thesis by auto
qed

theorem ports_agree_witness:
  "\<exists>r svc' ct. new_reconciler \<lparr>cc_FoUPort = 5555, cc_NatGatewayImage = ''img''\<rparr> = Inr r \<and>
     mutate_service r (\<lambda>_ m. Inr m) (demo_egress []) (blank_service demo_key) = Inr svc' \<and>
     NewFoUTunnelController 5555 (Some (Addr4 1)) None = Inr ct \<and>
     map (\<lambda>p. (sp_Port p, sp_TargetPort p)) (svc_Ports svc') = [(5555, IntVal 5555)] \<and>
     uint (to_EncapDport (opts (peer_link ct ''n'' (Addr4 2) (Addr4 1)))) = 5555 \<and> fou_Port (fou_wire (fou_listener ct FAMILY_V4)) = 5555"
proof -
  obtain r where r: "new_reconciler \<lparr>cc_FoUPort = 5555, cc_NatGatewayImage = ''img''\<rparr> = Inr r" by (simp add: new_reconciler_def check_flags_def)
  obtain svc' where s: "mutate_service r (\<lambda>_ m. Inr m) (demo_egress []) (blank_service demo_key) = Inr svc'"
    by (auto simp: mutate_service_def own_new_def blank_service_def blank_meta_def with_labels_def Let_def)
  have d: "om_DeletionTimestamp (svc_Meta (blank_service demo_key)) = None" by (simp add: blank_service_def blank_meta_def)
  obtain ct where c: "NewFoUTunnelController 5555 (Some (Addr4 1)) None = Inr ct" by (simp add: NewFoUTunnelController_def)
  from ports_agree[OF r s d c c, of "''n''" "Addr4 2" "Addr4 1" FAMILY_V4] r s c show ?thesis by auto
qed

section \<open>Which pods use which egress\<close>

lemma listEgress_mem:
  "n \<in> set (listEgress pod) \<longleftrightarrow> \<not> pod_HostNetwork pod \<and>
     (\<exists>(k, v)\<in>set (pod_Annotations pod). k = EgressAnnotationPrefix @ nn_Namespace n \<and> nn_Name n \<in> set (Split v CHR '',''))"
proof -
  have "(\<exists>name\<in>set (Split v CHR '',''). n = \<lparr>nn_Namespace = ns, nn_Name = name\<rparr>) \<longleftrightarrow> ns = nn_Namespace n \<and> nn_Name n \<in> set (Split v CHR '','')" for ns v
    by (cases n) auto
  moreover have "n \<in> set (if \<not> HasPrefix k EgressAnnotationPrefix then []
      else map (\<lambda>name. \<lparr>nn_Namespace = drop (length EgressAnnotationPrefix) k, nn_Name = name\<rparr>) (Split v CHR '','')) \<longleftrightarrow>
      HasPrefix k EgressAnnotationPrefix \<and> (\<exists>name\<in>set (Split v CHR '',''). n = \<lparr>nn_Namespace = drop (length EgressAnnotationPrefix) k, nn_Name = name\<rparr>)" for k v
    by auto
  ultimately show ?thesis unfolding listEgress_def by (auto simp: HasPrefix_iff) fastforce+
qed

text \<open>
  C16. How the daemon on the node and the watcher in the gateway read the same annotations,
  when each of them has one name: the gateway of an egress makes tunnels to the pods that
  the daemon sets up to use this egress, and to those that it sets up to use the egress of
  the same namespace that is called like the namespace. So both agree unless there
  is such an egress; a pod that uses it gets tunnels from every gateway of the namespace.
\<close>

theorem annotations_agree:
  assumes "\<forall>(k, v)\<in>set (pod_Annotations pod). CHR '','' \<notin> set v"
  shows "shouldHandle r pod \<longleftrightarrow>
    \<lparr>nn_Namespace = pw_EgressNamespace r, nn_Name = pw_EgressName r\<rparr> \<in> set (listEgress pod) \<or>
    \<lparr>nn_Namespace = pw_EgressNamespace r, nn_Name = pw_EgressNamespace r\<rparr> \<in> set (listEgress pod)"
proof -
  have one: "Split v CHR '','' = [v]" if "(k, v) \<in> set (pod_Annotations pod)" for k v
    using bspec[OF assms that] Split_single[of "CHR '',''" v] by simp
  let ?ns = "pw_EgressNamespace r" and ?A = "set (pod_Annotations pod)"
  have named: "(\<exists>(k, v)\<in>?A. k = EgressAnnotationPrefix @ ?ns \<and> x \<in> set (Split v CHR '','')) \<longleftrightarrow> (EgressAnnotationPrefix @ ?ns, x) \<in> ?A" for x
    by (auto simp: one intro!: bexI[of _ "(EgressAnnotationPrefix @ ?ns, x)"])
  have "(\<exists>(k, v)\<in>?A. k = EgressAnnotationPrefix @ ?ns \<and> (v = pw_EgressName r \<or> ?ns \<in> set (Split v CHR '',''))) \<longleftrightarrow>
      (EgressAnnotationPrefix @ ?ns, pw_EgressName r) \<in> ?A \<or> (EgressAnnotationPrefix @ ?ns, ?ns) \<in> ?A"
    by (auto simp: one intro: bexI[of _ "(EgressAnnotationPrefix @ ?ns, pw_EgressName r)"] bexI[of _ "(EgressAnnotationPrefix @ ?ns, ?ns)"])
  then show ?thesis unfolding listEgress_mem shouldHandle_def hasEgressAnnotation_def annotation_loop_iff by (simp add: named)
qed

theorem annotations_agree_witness:
  "shouldHandle (NewPodWatcher ''egress'' ''internet'' ()) (demo_pod_asking ''egress'') \<and>
   \<not> shouldHandle (NewPodWatcher ''other'' ''internet'' ()) (demo_pod_asking ''egress'') \<and>
   shouldHandle (NewPodWatcher ''other'' ''internet'' ()) (demo_pod_asking ''internet'')"
proof -
  have "\<forall>(k, v)\<in>set (pod_Annotations (demo_pod_asking ''egress'')). CHR '','' \<notin> set v"
    "\<forall>(k, v)\<in>set (pod_Annotations (demo_pod_asking ''internet'')). CHR '','' \<notin> set v"
    by (simp_all add: demo_pod_asking_def)
  note agree = this[THEN annotations_agree]
  have "listEgress (demo_pod_asking ''internet'') = [\<lparr>nn_Namespace = ''internet'', nn_Name = ''internet''\<rparr>]" by code_simp
  then show ?thesis unfolding agree by (simp add: demo_lists(1) NewPodWatcher_def)
qed

text \<open>
  A pod that names several egresses of a namespace in one annotation is listed by
  the daemon for each of them, but the gateway of none of them handles it: the watcher
  looks for its namespace among the names. (Unless an egress is named like the
  namespace.)
\<close>

lemma several_egresses_unserved:
  assumes "pod_Annotations pod = [(EgressAnnotationPrefix @ ns, v)]" "\<not> pod_HostNetwork pod" "CHR '','' \<in> set v"
    and "ns \<notin> set (Split v CHR '','')" "CHR '','' \<notin> set (pw_EgressName r)" "pw_EgressNamespace r = ns"
  shows "listEgress pod = map (\<lambda>n. \<lparr>nn_Namespace = ns, nn_Name = n\<rparr>) (Split v CHR '','') \<and> \<not> shouldHandle r pod"
  using assms by (auto simp: listEgress_def shouldHandle_def hasEgressAnnotation_def HasPrefix_iff)

section \<open>The plugin and the daemon\<close>

text \<open>
  C39. A request for a pod that the API server does not know ends, at the caller of the
  plugin, with the CNI error of code 3 (unknown container) and the server's text in
  its details, and the namespace is not touched: the plugin hands the pod's name over,
  the daemon looks it up, and the status comes back unchanged.
\<close>

theorem cmdAdd_unknown_pod:
  assumes "rpc_Add penv = (\<lambda>_ a. Add env lib h ord s a)" "\<And>c m d. status_Convert penv (StatusErr c m d) = (c, m, d)"
    and "ParseConfig lib (sk_StdinData args) = Inr conf" "PrevResult lib (pc_NetConf conf) \<noteq> None"
    and "LoadArgs lib (sk_Args args) = Inr a" "K8S_POD_NAME a \<noteq> []" "K8S_POD_NAMESPACE a \<noteq> []"
    and "grpc_NewClient penv (pc_Socket conf) k = (Inr conn, k1)"
    and "pe_GetPod env \<lparr>nn_Namespace = K8S_POD_NAMESPACE a, nn_Name = K8S_POD_NAME a\<rparr> k1 = (Inl e, k2)" "IsNotFound e"
  shows "cmdAdd lib penv args k = (CniError \<lparr>te_Code = 3, te_Msg = ''pod not found'' @ pe_Error env e, te_Details = pe_Error env e\<rparr>, k2)"
  using assms
  by (simp add: cmdAdd_def makeCNIArgs_def connect_def on_err_def bind_io_def Add_def Let_def pod_arg_def convertError_def newError_def
      types_NewError_def ErrorCode_UNKNOWN_CONTAINER_def)

theorem cmdAdd_unknown_pod_witness:
  "cmdAdd demo_lib \<lparr>grpc_NewClient = (\<lambda>_. ret ()), rpc_Add = (\<lambda>_ a. Add (sim_env Map.empty Map.empty Map.empty) demo_lib sim_host (\<lambda>x. x) (NewServer 5555) a),
       status_Convert = status_Convert demo_penv, PrintResult = (\<lambda>_ _. ret ()), err_Error = sim_text\<rparr>
     \<lparr>sk_ContainerID = ''c'', sk_Netns = ''/n'', sk_IfName = ''eth0'', sk_Args = ''client'', sk_Path = [], sk_StdinData = ''{}''\<rparr> demo_ns =
   (CniError \<lparr>te_Code = 3, te_Msg = ''pod not founderror'', te_Details = ''error''\<rparr>, demo_ns)"
  by (subst cmdAdd_unknown_pod[where env = "sim_env Map.empty Map.empty Map.empty" and lib = demo_lib and h = sim_host and ord = "\<lambda>x. x"
        and s = "NewServer 5555" and conn = "()" and ?k1.0 = demo_ns and e = ApiNotFound
        and a = "\<lparr>K8S_POD_NAMESPACE = ''default'', K8S_POD_NAME = ''client'', K8S_POD_INFRA_CONTAINER_ID = []\<rparr>"
        and conf = "\<lparr>pc_NetConf = (), pc_Socket = ''/run/ponad.sock''\<rparr>"])
    (simp_all add: demo_lib_def demo_penv_def ParseConfig_def ret_def sim_env_def sim_get_def)

end
